(* ===== verification/GAM_Prelude.thy ===== *)
theory GAM_Prelude
  imports Main "HOL-Library.Word" "HOL-Library.AList"
begin

text \<open>
  Shared vocabulary of the development: the machine types of the C++ code, the
  value an undefined or fatal path of the source ends in, flat byte memory with
  \<open>memcpy\<close>/\<open>memset\<close>, and the list and association-list lemmas that several
  components need.
\<close>

unbundle bit_operations_syntax

named_theorems gam_simps \<open>rewrite rules shared by the component proofs\<close>

subsection \<open>Machine types\<close>

type_synonym ptr = "64 word"
type_synonym gaddr = "64 word"
type_synonym byte = "8 word"
type_synonym mem = "64 word \<Rightarrow> 8 word"

abbreviation Gnullptr :: gaddr where "Gnullptr \<equiv> 0"

text \<open>
  How a path of the source can end other than by returning: a null pointer is
  dereferenced, \<open>front()\<close> is taken of an empty list, a lookup by \<open>at\<close> throws
  \<open>out_of_range\<close> past every handler, or \<open>exit\<close> is called.
\<close>

datatype fault = NullDeref | EmptyFront | OutOfRange | ExitCall

text \<open>Sequencing of computations that may end in a fault.\<close>

definition bindE :: "fault + 'a \<Rightarrow> ('a \<Rightarrow> fault + 'b) \<Rightarrow> fault + 'b" where
  "bindE x f = (case x of Inl e \<Rightarrow> Inl e | Inr a \<Rightarrow> f a)"

lemma bindE_simps [simp]: "bindE (Inl e) f = Inl e" "bindE (Inr a) f = f a"
  by (simp_all add: bindE_def)

lemma bindE_Inr_iff: "bindE x f = Inr b \<longleftrightarrow> (\<exists>a. x = Inr a \<and> f a = Inr b)"
  by (auto simp: bindE_def split: sum.splits)

lemma bindE_assoc [gam_simps]: "bindE (bindE x f) g = bindE x (\<lambda>a. bindE (f a) g)"
  by (cases x) simp_all

subsection \<open>Flat memory\<close>

text \<open>
  An address lies in the \<open>n\<close> bytes from \<open>p\<close> when its distance from \<open>p\<close>, taken
  modulo \<open>2 ^ 64\<close>, is below \<open>n\<close>.
\<close>

definition in_range :: "ptr \<Rightarrow> nat \<Rightarrow> ptr \<Rightarrow> bool" where
  "in_range p n a \<longleftrightarrow> unat (a - p) < n"

definition memcpy :: "ptr \<Rightarrow> ptr \<Rightarrow> nat \<Rightarrow> mem \<Rightarrow> mem" where
  "memcpy dst src n m = (\<lambda>a. if in_range dst n a then m (src + (a - dst)) else m a)"

definition memset0 :: "ptr \<Rightarrow> nat \<Rightarrow> mem \<Rightarrow> mem" where
  "memset0 dst n m = (\<lambda>a. if in_range dst n a then 0 else m a)"

text \<open>A block of bytes in flight: its length and its content by offset.\<close>

type_synonym payload = "nat \<times> (64 word \<Rightarrow> byte)"

definition load :: "ptr \<Rightarrow> nat \<Rightarrow> mem \<Rightarrow> payload" where
  "load src n m = (n, \<lambda>i. m (src + i))"

definition store :: "ptr \<Rightarrow> payload \<Rightarrow> mem \<Rightarrow> mem" where
  "store dst pl m = (\<lambda>a. if in_range dst (fst pl) a then snd pl (a - dst) else m a)"

lemma memcpy_outside: "\<not> in_range dst n a \<Longrightarrow> memcpy dst src n m a = m a"
  by (simp add: memcpy_def)

lemma memcpy_inside: "in_range dst n a \<Longrightarrow> memcpy dst src n m a = m (src + (a - dst))"
  by (simp add: memcpy_def)

lemma memcpy_0 [simp]: "memcpy dst src 0 m = m"
  by (simp add: memcpy_def in_range_def)

lemma memset0_outside: "\<not> in_range dst n a \<Longrightarrow> memset0 dst n m a = m a"
  by (simp add: memset0_def)

lemma store_load: "store dst (load src n m) m = memcpy dst src n m"
  by (rule ext) (simp add: store_def load_def memcpy_def)

lemma in_range_self_offset: "unat k < n \<Longrightarrow> in_range p n (p + k)"
  by (simp add: in_range_def)

subsection \<open>Association lists with distinct keys\<close>

lemma map_of_update_alist [gam_simps]:
  "map_of (AList.update k v xs) = (map_of xs)(k \<mapsto> v)"
  by (rule AList.update_conv')

lemma map_of_delete_alist [gam_simps]:
  "map_of (AList.delete k xs) = (map_of xs)(k := None)"
  by (rule AList.delete_conv')

lemma distinct_update_alist [intro]:
  "distinct (map fst xs) \<Longrightarrow> distinct (map fst (AList.update k v xs))"
  by (rule AList.distinct_update)

lemma distinct_delete_alist [intro]:
  "distinct (map fst xs) \<Longrightarrow> distinct (map fst (AList.delete k xs))"
  by (rule AList.distinct_delete)

lemma update_alist_not_Nil [simp]: "AList.update k v xs \<noteq> []"
  by (cases xs) auto

lemma alist_Nil_iff: "xs = [] \<longleftrightarrow> map_of xs = Map.empty"
  by (cases xs) (auto simp: fun_eq_iff split: if_splits)

lemma alist_all_iff:
  assumes "distinct (map fst xs)"
  shows "(\<forall>(k, v) \<in> set xs. P k v) \<longleftrightarrow> (\<forall>k v. map_of xs k = Some v \<longrightarrow> P k v)"
  using assms by (auto simp: map_of_eq_Some_iff)

subsection \<open>Removing the first element that satisfies a test\<close>

text \<open>The loop \<open>for (it ...) if (P *it) { erase(it); break; }\<close> over a \<open>std::list\<close>.\<close>

fun erase_first :: "('a \<Rightarrow> bool) \<Rightarrow> 'a list \<Rightarrow> 'a list" where
  "erase_first P [] = []"
| "erase_first P (x # xs) = (if P x then xs else x # erase_first P xs)"

lemma set_erase_first_subset: "set (erase_first P xs) \<subseteq> set xs"
  by (induction xs) auto

lemma length_erase_first:
  "length (erase_first P xs) = (if \<exists>x \<in> set xs. P x then length xs - 1 else length xs)"
proof (induction xs)
  case (Cons x xs)
  then show ?case
    by (cases xs) auto
qed simp

lemma erase_first_none: "\<forall>x \<in> set xs. \<not> P x \<Longrightarrow> erase_first P xs = xs"
  by (induction xs) auto

lemma distinct_map_erase_first: "distinct (map f xs) \<Longrightarrow> distinct (map f (erase_first P xs))"
proof (induction xs)
  case (Cons x xs)
  have "f ` set (erase_first P xs) \<subseteq> f ` set xs"
    using set_erase_first_subset [of P xs] by (rule image_mono)
  with Cons show ?case by auto
qed simp

lemma erase_first_unique:
  assumes "distinct (map f xs)"
  shows "erase_first (\<lambda>x. f x = k) xs = filter (\<lambda>x. f x \<noteq> k) xs"
  using assms
proof (induction xs)
  case (Cons x xs)
  show ?case
  proof (cases "f x = k")
    case True
    with Cons.prems have "k \<notin> f ` set xs" by auto
    then have "\<forall>y \<in> set xs. f y \<noteq> k" by (metis imageI)
    with True show ?thesis by simp
  next
    case False
    with Cons show ?thesis by simp
  qed
qed simp

lemma upt_join: "i \<le> j \<Longrightarrow> j \<le> k \<Longrightarrow> [i ..< j] @ [j ..< k] = [i ..< k]"
  by (metis le_add_diff_inverse upt_add_eq_append)

end
