(* ===== verification/GAddress.thy ===== *)
theory GAddress
  imports GAM_Prelude
begin

text \<open>
  Global addresses (\<open>include/structure.h\<close>, \<open>include/settings.h\<close>): a 64-bit global
  address holds the id of its home worker in the top 16 bits and an offset into
  that worker's registered memory in the low 48. Memory is managed in blocks of
  \<open>BLOCK_SIZE = 1 << 12\<close> bytes, and every multi-block request is cut at block
  boundaries by the loop \<open>for (i = TOBLOCK(start); i < end; i = BADD(i, 1))\<close>.
\<close>

subsection \<open>The macros\<close>

definition BLOCK_POWER :: nat where "BLOCK_POWER = 12"

definition BLOCK_MASK :: "64 word" where "BLOCK_MASK = 0xFFFFFFFFFFFFF000"

definition BLOCK_SIZE :: "64 word" where "BLOCK_SIZE = push_bit BLOCK_POWER 1"

definition OFF_MASK :: "64 word" where "OFF_MASK = 0xFFFFFFFFFFFF"

definition WID :: "gaddr \<Rightarrow> 64 word" where "WID g = drop_bit 48 g"

definition OFF :: "gaddr \<Rightarrow> 64 word" where "OFF g = g AND OFF_MASK"

definition TO_GLOB :: "ptr \<Rightarrow> ptr \<Rightarrow> 64 word \<Rightarrow> gaddr" where
  "TO_GLOB addr base wid = addr - base + push_bit 48 wid"

definition EMPTY_GLOB :: "64 word \<Rightarrow> gaddr" where "EMPTY_GLOB wid = push_bit 48 wid"

definition GADD :: "gaddr \<Rightarrow> 64 word \<Rightarrow> gaddr" where "GADD a off = a + off"

definition GMINUS :: "gaddr \<Rightarrow> gaddr \<Rightarrow> 64 word" where "GMINUS a b = a - b"

definition TOBLOCK :: "64 word \<Rightarrow> 64 word" where "TOBLOCK x = x AND BLOCK_MASK"

definition BLOCK_ALIGNED :: "64 word \<Rightarrow> bool" where
  "BLOCK_ALIGNED x \<longleftrightarrow> \<not> (x AND NOT BLOCK_MASK \<noteq> 0)"

definition BADD :: "64 word \<Rightarrow> 64 word \<Rightarrow> 64 word" where
  "BADD addr i = TOBLOCK (addr + i * BLOCK_SIZE)"

definition TO_LOCAL :: "gaddr \<Rightarrow> ptr \<Rightarrow> ptr" where
  "TO_LOCAL g base = OFF g + base"

lemma BLOCK_SIZE_eq: "BLOCK_SIZE = 4096"
  by (simp add: BLOCK_SIZE_def BLOCK_POWER_def push_bit_eq_mult)

subsection \<open>Masks as arithmetic\<close>

lemma BLOCK_MASK_not_mask: "BLOCK_MASK = NOT (mask 12)"
  by (simp add: BLOCK_MASK_def mask_eq_exp_minus_1)

lemma OFF_eq_take_bit: "OFF g = take_bit 48 g"
  by (simp add: OFF_def OFF_MASK_def take_bit_eq_mask mask_eq_exp_minus_1)

lemma TOBLOCK_eq: "TOBLOCK x = x - take_bit 12 x"
proof -
  have "NOT x AND take_bit 12 x = 0"
    by (simp add: bit_eq_iff bit_simps)
  then have "x - take_bit 12 x = x AND NOT (take_bit 12 x)"
    by (rule disjunctive_diff_eq_and_not)
  also have "\<dots> = x AND NOT (mask 12)"
    by (auto simp: bit_eq_iff bit_simps)
  finally show ?thesis
    by (simp add: TOBLOCK_def BLOCK_MASK_not_mask)
qed

lemma unat_take_bit_12: "unat (take_bit 12 (x :: 64 word)) = unat x mod 4096"
  by (simp add: take_bit_eq_mod unat_mod_distrib)

lemma unat_TOBLOCK: "unat (TOBLOCK x) = unat x - unat x mod 4096"
proof -
  have "take_bit 12 x \<le> x"
    by (simp add: word_le_nat_alt unat_take_bit_12)
  then have "unat (x - take_bit 12 x) = unat x - unat (take_bit 12 x)"
    by (rule unat_sub)
  then show ?thesis by (simp add: TOBLOCK_eq unat_take_bit_12)
qed

lemma unat_TOBLOCK_mult: "unat (TOBLOCK x) = 4096 * (unat x div 4096)"
  by (simp add: unat_TOBLOCK minus_mod_eq_mult_div)

lemma TOBLOCK_idem [simp]: "TOBLOCK (TOBLOCK x) = TOBLOCK x"
  by (simp add: TOBLOCK_def and.assoc)

lemma BLOCK_ALIGNED_iff: "BLOCK_ALIGNED x \<longleftrightarrow> TOBLOCK x = x"
  by (simp add: BLOCK_ALIGNED_def TOBLOCK_eq BLOCK_MASK_not_mask take_bit_eq_mask)

lemma BLOCK_ALIGNED_TOBLOCK [simp]: "BLOCK_ALIGNED (TOBLOCK x)"
  by (simp add: BLOCK_ALIGNED_iff)

lemma BLOCK_ALIGNED_mod: "BLOCK_ALIGNED x \<longleftrightarrow> unat x mod 4096 = 0"
proof -
  have "BLOCK_ALIGNED x \<longleftrightarrow> unat (TOBLOCK x) = unat x"
    by (simp add: BLOCK_ALIGNED_iff word_unat_eq_iff)
  also have "\<dots> \<longleftrightarrow> unat x mod 4096 = 0"
    using mod_less_eq_dividend [of "unat x" 4096] unfolding unat_TOBLOCK by linarith
  finally show ?thesis .
qed

lemma unat_BADD:
  assumes "BLOCK_ALIGNED i" "unat i + 4096 < 2 ^ 64"
  shows "unat (BADD i 1) = unat i + 4096"
proof -
  have "unat (i + 4096) = unat i + 4096"
    using assms(2) by (simp add: unat_word_ariths)
  moreover from this assms(1) have "unat (i + 4096) mod 4096 = 0"
    by (simp add: BLOCK_ALIGNED_mod)
  ultimately show ?thesis
    by (simp add: BADD_def BLOCK_SIZE_eq unat_TOBLOCK)
qed

lemma BLOCK_ALIGNED_BADD [simp]: "BLOCK_ALIGNED (BADD i k)"
  by (simp add: BADD_def)

subsection \<open>Local and global forms of an address\<close>

lemma take_bit_self_iff: "take_bit 48 x = x" if "unat x < 2 ^ 48" for x :: "64 word"
  using that by (simp add: word_unat_eq_iff take_bit_eq_mod unat_mod_distrib)

lemma TO_GLOB_or:
  assumes "unat (p - base) < 2 ^ 48"
  shows "TO_GLOB p base wid = (p - base) OR push_bit 48 wid"
proof -
  have "(p - base) AND push_bit 48 wid = take_bit 48 (p - base) AND push_bit 48 wid"
    by (simp only: take_bit_self_iff [OF assms])
  also have "\<dots> = 0"
    by (auto simp: bit_eq_iff bit_simps)
  finally show ?thesis
    by (simp add: TO_GLOB_def disjunctive_add_eq_or)
qed

lemma OFF_TO_GLOB:
  assumes "unat (p - base) < 2 ^ 48"
  shows "OFF (TO_GLOB p base wid) = p - base"
proof -
  have "OFF (TO_GLOB p base wid) = take_bit 48 (p - base)"
    unfolding OFF_eq_take_bit TO_GLOB_or [OF assms] by (auto simp: bit_eq_iff bit_simps)
  then show ?thesis using assms by (simp add: take_bit_self_iff)
qed

lemma WID_TO_GLOB:
  assumes "unat (p - base) < 2 ^ 48" "unat wid < 2 ^ 16"
  shows "WID (TO_GLOB p base wid) = wid"
proof -
  have "WID (TO_GLOB p base wid) = drop_bit 48 (p - base) OR drop_bit 48 (push_bit 48 wid)"
    by (simp add: WID_def TO_GLOB_or [OF assms(1)] drop_bit_or)
  also have "drop_bit 48 (p - base) = 0"
    using assms(1) by (simp add: word_unat_eq_iff drop_bit_eq_div unat_div_distrib)
  also have "drop_bit 48 (push_bit 48 wid) = take_bit 16 wid"
    by (auto simp: bit_eq_iff bit_simps)
  also have "take_bit 16 wid = wid"
    using assms(2) by (simp add: word_unat_eq_iff take_bit_eq_mod unat_mod_distrib)
  finally show ?thesis by simp
qed

lemma TO_GLOB_TO_LOCAL: "TO_GLOB (TO_LOCAL g base) base (WID g) = g"
proof -
  have "TO_GLOB (TO_LOCAL g base) base (WID g) = push_bit 48 (drop_bit 48 g) + take_bit 48 g"
    by (simp add: TO_GLOB_def TO_LOCAL_def OFF_eq_take_bit WID_def)
  then show ?thesis by (simp add: bits_ident)
qed

lemma TO_LOCAL_TO_GLOB:
  "unat (p - base) < 2 ^ 48 \<Longrightarrow> TO_LOCAL (TO_GLOB p base wid) base = p"
  by (simp add: TO_LOCAL_def OFF_TO_GLOB)

subsection \<open>Cutting a request at block boundaries\<close>

text \<open>
  The addresses the loop \<open>for (GAddr i = start_blk; i < end;) { nextb = BADD(i, 1);
  ... i = nextb; }\<close> of \<open>Cache::ReadWrite\<close>, \<open>ProcessLocalRead\<close> and
  \<open>ProcessLocalWrite\<close> visits. Where \<open>BADD\<close> wraps past the top of the address
  space the loop does not end, and the list is \<open>None\<close>.
\<close>

partial_function (option) blocks_from :: "gaddr \<Rightarrow> gaddr \<Rightarrow> gaddr list option" where
  "blocks_from i e =
     (if i < e then Option.bind (blocks_from (BADD i 1) e) (\<lambda>bs. Some (i # bs)) else Some [])"

text \<open>Inside the loop: the first byte of block \<open>i\<close> the request covers, and how many.\<close>

definition seg_start :: "gaddr \<Rightarrow> gaddr \<Rightarrow> gaddr" where
  "seg_start start i = (if i > start then i else start)"

definition seg_len :: "gaddr \<Rightarrow> gaddr \<Rightarrow> gaddr \<Rightarrow> nat" where
  "seg_len start e i =
     (let nextb = BADD i 1; gs = seg_start start i
      in unat (if nextb > e then GMINUS e gs else GMINUS nextb gs))"

definition seg_bytes :: "gaddr \<Rightarrow> gaddr \<Rightarrow> gaddr \<Rightarrow> nat list" where
  "seg_bytes start e i = [unat (seg_start start i) ..< unat (seg_start start i) + seg_len start e i]"

lemma unat_seg_start: "unat (seg_start start i) = max (unat start) (unat i)"
  by (auto simp: seg_start_def word_less_nat_alt)

lemma seg_len_eq:
  assumes "BLOCK_ALIGNED i" "unat i + 4096 < 2 ^ 64" "unat start < unat i + 4096"
    and "unat i < unat e" "unat start < unat e"
  shows "seg_len start e i = min (unat e) (unat i + 4096) - max (unat start) (unat i)"
proof -
  note next_eq = unat_BADD [OF assms(1,2)]
  have "seg_start start i \<le> e" "seg_start start i \<le> BADD i 1"
    using assms(3-5) next_eq by (simp_all add: word_le_nat_alt unat_seg_start)
  then show ?thesis
    using next_eq
    by (simp add: seg_len_def Let_def GMINUS_def word_less_nat_alt unat_sub unat_seg_start min_def)
qed

lemma blocks_from_end: "\<not> i < e \<Longrightarrow> blocks_from i e = Some []"
  by (subst blocks_from.simps) simp

lemma blocks_from_step:
  "i < e \<Longrightarrow> blocks_from (BADD i 1) e = Some bs \<Longrightarrow> blocks_from i e = Some (i # bs)"
  by (subst blocks_from.simps) simp

text \<open>
  The loop ends, visits aligned blocks in increasing order, and the segments it
  touches are, put together, exactly the bytes from \<open>max i start\<close> up to \<open>e\<close>.
\<close>

lemma blocks_from_cover:
  assumes "BLOCK_ALIGNED i" "unat start < unat i + 4096" "unat start < unat e"
    and "unat e + 4096 \<le> 2 ^ 64"
  shows "\<exists>bs. blocks_from i e = Some bs \<and> (\<forall>b \<in> set bs. BLOCK_ALIGNED b \<and> i \<le> b \<and> b < e)
      \<and> sorted_wrt (<) bs
      \<and> concat (map (seg_bytes start e) bs) = [max (unat start) (unat i) ..< unat e]"
  using assms
proof (induction "unat e - unat i" arbitrary: i rule: less_induct)
  case less
  show ?case
  proof (cases "i < e")
    case False
    then have "max (unat start) (unat i) \<ge> unat e" by (simp add: word_less_nat_alt)
    with False show ?thesis by (simp add: blocks_from_end)
  next
    case True
    then have lt: "unat i < unat e" by (simp add: word_less_nat_alt)
    with less.prems have nowrap: "unat i + 4096 < 2 ^ 64" by simp
    note next_eq = unat_BADD [OF less.prems(1) nowrap]
    from lt next_eq have "unat e - unat (BADD i 1) < unat e - unat i" by simp
    from less.hyps [OF this] less.prems next_eq obtain bs where
      bs: "blocks_from (BADD i 1) e = Some bs"
      and rng: "\<forall>b \<in> set bs. BLOCK_ALIGNED b \<and> BADD i 1 \<le> b \<and> b < e"
      and srt: "sorted_wrt (<) bs"
      and cov: "concat (map (seg_bytes start e) bs) = [max (unat start) (unat (BADD i 1)) ..< unat e]"
      by auto
    have above: "\<forall>b \<in> set bs. i < b"
      using rng next_eq by (auto simp: word_less_nat_alt word_le_nat_alt)
    have "seg_bytes start e i =
        [max (unat start) (unat i) ..< min (unat e) (unat i + 4096)]"
      using seg_len_eq [OF less.prems(1) nowrap less.prems(2) lt less.prems(3)] less.prems(2,3) lt
      by (simp add: seg_bytes_def unat_seg_start)
    moreover have "[max (unat start) (unat (BADD i 1)) ..< unat e] = [min (unat e) (unat i + 4096) ..< unat e]"
      using less.prems(2) next_eq by (simp add: max_def min_def)
    ultimately have "concat (map (seg_bytes start e) (i # bs)) = [max (unat start) (unat i) ..< unat e]"
      using cov less.prems(2,3) lt by (simp add: upt_join)
    moreover have "\<forall>b \<in> set (i # bs). BLOCK_ALIGNED b \<and> i \<le> b \<and> b < e"
      using rng above True less.prems(1) by auto
    moreover have "sorted_wrt (<) (i # bs)"
      using srt above by simp
    ultimately show ?thesis
      using blocks_from_step [OF True bs] by blast
  qed
qed

subsection \<open>Properties\<close>

text \<open>
  The global form of a local pointer names the worker it belongs to, and converting it
  back gives the pointer, for a pointer less than \<open>2 ^ 48\<close> bytes above the base and a
  worker id of 16 bits.
\<close>

lemma local_global_roundtrip:
  assumes "unat (p - base) < 2 ^ 48" "unat wid < 2 ^ 16"
  shows "TO_LOCAL (TO_GLOB p base wid) base = p \<and> WID (TO_GLOB p base wid) = wid"
  using assms by (simp add: TO_LOCAL_TO_GLOB WID_TO_GLOB)

text \<open>
  C13: the block loop of a request over \<open>[start, start + size)\<close> terminates, visits block
  addresses in increasing order, and the segments it copies are, in order, exactly
  the bytes of the request: none is skipped and none is copied twice. The request
  must be non-empty and end at least one block below \<open>2 ^ 64\<close>.
\<close>

theorem block_loop_covers_request:
  assumes "0 < n" "unat start + n + 4096 \<le> 2 ^ 64"
  shows "\<exists>bs. blocks_from (TOBLOCK start) (GADD start (of_nat n)) = Some bs \<and>
      (\<forall>b \<in> set bs. BLOCK_ALIGNED b) \<and> sorted_wrt (<) bs \<and>
      concat (map (seg_bytes start (GADD start (of_nat n))) bs) = [unat start ..< unat start + n]"
proof -
  have e: "unat (GADD start (of_nat n)) = unat start + n"
    using assms by (simp add: GADD_def unat_word_ariths unat_of_nat)
  have "unat (TOBLOCK start) \<le> unat start" "unat start < unat (TOBLOCK start) + 4096"
    by (simp_all add: unat_TOBLOCK)
  with blocks_from_cover [of "TOBLOCK start" start "GADD start (of_nat n)"] assms e
  show ?thesis by (fastforce simp: max_def)
qed

theorem block_loop_covers_request_witness:
  "(0 :: nat) < 20 \<and> unat (0x1ff8 :: 64 word) + 20 + 4096 \<le> 2 ^ 64 \<and>
   (\<exists>bs. blocks_from (TOBLOCK 0x1ff8) (GADD 0x1ff8 (of_nat 20)) = Some bs \<and>
      (\<forall>b \<in> set bs. BLOCK_ALIGNED b) \<and> sorted_wrt (<) bs \<and>
      concat (map (seg_bytes 0x1ff8 (GADD 0x1ff8 (of_nat 20))) bs) =
        [unat (0x1ff8 :: 64 word) ..< unat (0x1ff8 :: 64 word) + 20])"
  by (intro conjI block_loop_covers_request) simp_all

end
