(* ===== verification/Lock_Table.thy ===== *)
theory Lock_Table
  imports GAM_Prelude
begin

text \<open>
  The lock table \<open>unordered_map<ptr_t, int> locks\<close> that a directory entry and a
  cache line both carry: the number of readers of an address, or
  \<open>EXCLUSIVE_LOCK_TAG\<close> for a writer. The locale \<open>rw_lock\<close> states what the callers of
  \<open>RLock\<close>, \<open>WLock\<close> and \<open>UnLock\<close> rely on, against an abstract readers-writer lock;
  the directory and the cache provide it.
\<close>

definition EXCLUSIVE_LOCK_TAG :: int where "EXCLUSIVE_LOCK_TAG = 255"

type_synonym locks = "(64 word \<times> int) list"

subsection \<open>The operations on a table\<close>

definition locks_wlocked :: "locks \<Rightarrow> 64 word \<Rightarrow> bool" where
  "locks_wlocked ls p \<longleftrightarrow> map_of ls p = Some EXCLUSIVE_LOCK_TAG"

definition locks_rlock :: "locks \<Rightarrow> 64 word \<Rightarrow> locks" where
  "locks_rlock ls p =
     (case map_of ls p of
        Some n \<Rightarrow> AList.update p (n + 1) ls
      | None \<Rightarrow> AList.update p 1 ls)"

definition locks_wlock :: "locks \<Rightarrow> 64 word \<Rightarrow> locks" where
  "locks_wlock ls p = AList.update p EXCLUSIVE_LOCK_TAG ls"

text \<open>
  Writing \<open>v\<close> into the slot of \<open>p\<close> and dropping the slot when it becomes \<open>0\<close>.
\<close>

definition locks_put :: "locks \<Rightarrow> 64 word \<Rightarrow> int \<Rightarrow> locks" where
  "locks_put ls p v = (if v = 0 then AList.delete p ls else AList.update p v ls)"

definition locks_block_wlocked :: "locks \<Rightarrow> bool" where
  "locks_block_wlocked ls \<longleftrightarrow> (\<exists>l \<in> set ls. snd l = EXCLUSIVE_LOCK_TAG)"

subsection \<open>Invariant and abstract lock\<close>

datatype rwlock = Free | Readers nat | Writer

definition locks_wf :: "locks \<Rightarrow> bool" where
  "locks_wf ls \<longleftrightarrow> distinct (map fst ls) \<and> (\<forall>l \<in> set ls. 0 < snd l \<and> snd l \<le> EXCLUSIVE_LOCK_TAG)"

definition lock_view :: "locks \<Rightarrow> 64 word \<Rightarrow> rwlock" where
  "lock_view ls p =
     (case map_of ls p of
        None \<Rightarrow> Free
      | Some n \<Rightarrow> if n = EXCLUSIVE_LOCK_TAG then Writer else Readers (nat n))"

definition spec_rlock :: "rwlock \<Rightarrow> int \<times> rwlock" where
  "spec_rlock l = (case l of Free \<Rightarrow> (0, Readers 1) | Readers n \<Rightarrow> (0, Readers (Suc n)) | Writer \<Rightarrow> (-1, Writer))"

definition spec_wlock :: "rwlock \<Rightarrow> int \<times> rwlock" where
  "spec_wlock l = (case l of Free \<Rightarrow> (0, Writer) | Readers n \<Rightarrow> (-1, Readers n) | Writer \<Rightarrow> (-1, Writer))"

definition spec_unlock :: "rwlock \<Rightarrow> rwlock" where
  "spec_unlock l =
     (case l of Free \<Rightarrow> Free | Readers n \<Rightarrow> if n \<le> 1 then Free else Readers (n - 1) | Writer \<Rightarrow> Free)"

subsection \<open>Requests on one lock and who holds it\<close>

text \<open>
  A history of lock requests by holders \<open>'h\<close>, each with the outcome the lock
  gave, and the holders it leaves: the readers as a list and the writer.
\<close>

datatype 'h lock_req = ReqR 'h | ReqW 'h | Rel 'h

fun holders :: "rwlock \<Rightarrow> 'h lock_req \<Rightarrow> 'h list \<times> 'h option \<Rightarrow> 'h list \<times> 'h option" where
  "holders l (ReqR h) (rs, wr) = (if fst (spec_rlock l) = 0 then (h # rs, wr) else (rs, wr))"
| "holders l (ReqW h) (rs, wr) = (if fst (spec_wlock l) = 0 then (rs, Some h) else (rs, wr))"
| "holders l (Rel h) (rs, wr) = (if wr = Some h then (rs, None) else (remove1 h rs, wr))"

definition holds :: "'h \<Rightarrow> 'h list \<times> 'h option \<Rightarrow> bool" where
  "holds h s \<longleftrightarrow> h \<in> set (fst s) \<or> snd s = Some h"

text \<open>The holders agree with the lock word: never a writer beside a reader.\<close>

definition agrees :: "rwlock \<Rightarrow> 'h list \<times> 'h option \<Rightarrow> bool" where
  "agrees l s \<longleftrightarrow>
     (case l of
        Free \<Rightarrow> s = ([], None)
      | Readers n \<Rightarrow> 0 < n \<and> length (fst s) = n \<and> snd s = None
      | Writer \<Rightarrow> fst s = [] \<and> snd s \<noteq> None)"

lemma agrees_exclusive: "agrees l (rs, Some h) \<Longrightarrow> rs = [] \<and> l = Writer"
  by (cases l) (auto simp: agrees_def)

lemma agrees_rlock: "agrees l s \<Longrightarrow> agrees (snd (spec_rlock l)) (holders l (ReqR h) s)"
  by (cases s; cases l) (auto simp: agrees_def spec_rlock_def)

lemma agrees_wlock: "agrees l s \<Longrightarrow> agrees (snd (spec_wlock l)) (holders l (ReqW h) s)"
  by (cases s; cases l) (auto simp: agrees_def spec_wlock_def)

lemma agrees_unlock:
  assumes "agrees l s" "holds h s"
  shows "agrees (spec_unlock l) (holders l (Rel h) s)"
proof (cases l)
  case Free
  with assms show ?thesis by (auto simp: agrees_def holds_def)
next
  case (Readers n)
  with assms have "h \<in> set (fst s)" "snd s = None" "length (fst s) = n" "0 < n"
    by (auto simp: agrees_def holds_def)
  moreover from this have "length (remove1 h (fst s)) = n - 1" by (simp add: length_remove1)
  ultimately show ?thesis
    using Readers by (cases s) (auto simp: agrees_def spec_unlock_def)
next
  case Writer
  with assms show ?thesis
    by (cases s) (auto simp: agrees_def holds_def spec_unlock_def)
qed

subsection \<open>What the callers rely on\<close>

locale rw_lock =
  fixes inv :: "'s \<Rightarrow> bool"
    and view :: "'s \<Rightarrow> 64 word \<Rightarrow> rwlock"
    and rready wready uready :: "'s \<Rightarrow> 64 word \<Rightarrow> bool"
    and rlock wlock :: "'s \<Rightarrow> 64 word \<Rightarrow> int \<times> 's"
    and unlock :: "'s \<Rightarrow> 64 word \<Rightarrow> 's"
  assumes rlock_inv: "inv s \<Longrightarrow> rready s p \<Longrightarrow> inv (snd (rlock s p))"
    and wlock_inv: "inv s \<Longrightarrow> wready s p \<Longrightarrow> inv (snd (wlock s p))"
    and unlock_inv: "inv s \<Longrightarrow> uready s p \<Longrightarrow> inv (unlock s p)"
    and rlock_view: "inv s \<Longrightarrow> rready s p \<Longrightarrow>
      fst (rlock s p) = fst (spec_rlock (view s p)) \<and>
      view (snd (rlock s p)) = (view s)(p := snd (spec_rlock (view s p)))"
    and wlock_view: "inv s \<Longrightarrow> wready s p \<Longrightarrow>
      fst (wlock s p) = fst (spec_wlock (view s p)) \<and>
      view (snd (wlock s p)) = (view s)(p := snd (spec_wlock (view s p)))"
    and unlock_view: "inv s \<Longrightarrow> uready s p \<Longrightarrow>
      view (unlock s p) = (view s)(p := spec_unlock (view s p))"
begin

text \<open>One request of holder \<open>h\<close> on address \<open>p\<close>, and when it may be made.\<close>

definition step :: "64 word \<times> 'h lock_req \<Rightarrow> 's \<Rightarrow> 's" where
  "step q s = (case q of (p, ReqR _) \<Rightarrow> snd (rlock s p) | (p, ReqW _) \<Rightarrow> snd (wlock s p) | (p, Rel _) \<Rightarrow> unlock s p)"

definition allowed :: "64 word \<times> 'h lock_req \<Rightarrow> 's \<Rightarrow> (64 word \<Rightarrow> 'h list \<times> 'h option) \<Rightarrow> bool" where
  "allowed q s hs =
     (case q of (p, ReqR _) \<Rightarrow> rready s p | (p, ReqW _) \<Rightarrow> wready s p
        | (p, Rel h) \<Rightarrow> uready s p \<and> holds h (hs p))"

definition track :: "64 word \<times> 'h lock_req \<Rightarrow> 's \<Rightarrow> (64 word \<Rightarrow> 'h list \<times> 'h option) \<Rightarrow> 64 word \<Rightarrow> 'h list \<times> 'h option" where
  "track q s hs = hs(fst q := holders (view s (fst q)) (snd q) (hs (fst q)))"

lemma step_agrees:
  assumes "inv s" "\<forall>p. agrees (view s p) (hs p)" "allowed q s hs"
  shows "inv (step q s) \<and> (\<forall>p. agrees (view (step q s) p) (track q s hs p))"
proof (cases q)
  case (Pair p r)
  then show ?thesis
    using assms
    by (cases r)
      (simp_all add: step_def allowed_def track_def rlock_inv wlock_inv unlock_inv
        rlock_view wlock_view unlock_view agrees_rlock agrees_wlock agrees_unlock)
qed

end

subsection \<open>The table against the abstract lock\<close>

lemma locks_wf_Nil [simp]: "locks_wf []"
  by (simp add: locks_wf_def)

lemma locks_wf_bound: "locks_wf ls \<Longrightarrow> map_of ls p = Some n \<Longrightarrow> 0 < n \<and> n \<le> EXCLUSIVE_LOCK_TAG"
  by (auto simp: locks_wf_def dest!: map_of_SomeD)

lemma locks_wf_update:
  assumes "locks_wf ls" "0 < v" "v \<le> EXCLUSIVE_LOCK_TAG"
  shows "locks_wf (AList.update p v ls)"
proof -
  have d: "distinct (map fst ls)" using assms(1) by (simp add: locks_wf_def)
  then have d': "distinct (map fst (AList.update p v ls))" by (rule distinct_update_alist)
  have "0 < snd l \<and> snd l \<le> EXCLUSIVE_LOCK_TAG" if "l \<in> set (AList.update p v ls)" for l
  proof -
    obtain k n where l: "l = (k, n)" by (cases l)
    with that d' have "map_of (AList.update p v ls) k = Some n" by simp
    then show ?thesis
      using assms(2,3) locks_wf_bound [OF assms(1), of k n] l by (auto simp: gam_simps split: if_splits)
  qed
  with d' show ?thesis by (simp add: locks_wf_def)
qed

lemma locks_wf_delete: "locks_wf ls \<Longrightarrow> locks_wf (AList.delete p ls)"
  by (auto simp: locks_wf_def AList.delete_eq distinct_map_filter)

lemma locks_wf_put:
  "locks_wf ls \<Longrightarrow> 0 \<le> v \<Longrightarrow> v \<le> EXCLUSIVE_LOCK_TAG \<Longrightarrow> locks_wf (locks_put ls p v)"
  by (simp add: locks_put_def locks_wf_update locks_wf_delete)

lemma map_of_locks_put:
  "map_of (locks_put ls p v) = (map_of ls)(p := if v = 0 then None else Some v)"
  by (simp add: locks_put_def gam_simps)

lemma lock_view_cong: "map_of ls = map_of ls' \<Longrightarrow> lock_view ls = lock_view ls'"
  by (simp add: lock_view_def fun_eq_iff)

lemma locks_block_wlocked_iff:
  "locks_wf ls \<Longrightarrow> locks_block_wlocked ls \<longleftrightarrow> (\<exists>p. locks_wlocked ls p)"
  by (force simp: locks_block_wlocked_def locks_wlocked_def locks_wf_def)

text \<open>Below the limit a further reader is counted; at the limit it looks like a writer.\<close>

lemma locks_rlock_view:
  assumes "locks_wf ls" "\<not> locks_wlocked ls p" "lock_view ls p \<noteq> Readers 254"
  shows "locks_wf (locks_rlock ls p)"
    and "lock_view (locks_rlock ls p) = (lock_view ls)(p := snd (spec_rlock (lock_view ls p)))"
proof -
  have bound: "0 < n \<and> n < 254" if "map_of ls p = Some n" for n
    using locks_wf_bound [OF assms(1) that] assms(2,3) that
    by (auto simp: locks_wlocked_def lock_view_def EXCLUSIVE_LOCK_TAG_def split: if_splits)
  show "locks_wf (locks_rlock ls p)"
    using bound by (auto simp: locks_rlock_def EXCLUSIVE_LOCK_TAG_def
        intro!: locks_wf_update [OF assms(1)] split: option.split)
  show "lock_view (locks_rlock ls p) = (lock_view ls)(p := snd (spec_rlock (lock_view ls p)))"
    using bound by (auto simp: locks_rlock_def lock_view_def spec_rlock_def gam_simps fun_eq_iff
        EXCLUSIVE_LOCK_TAG_def nat_add_distrib split: option.split)
qed

lemma locks_rlock_at_limit:
  assumes "lock_view ls p = Readers 254"
  shows "lock_view (locks_rlock ls p) p = Writer"
  using assms
  by (auto simp: lock_view_def locks_rlock_def gam_simps EXCLUSIVE_LOCK_TAG_def split: option.splits if_splits)

lemma locks_wlock_view:
  assumes "locks_wf ls"
  shows "locks_wf (locks_wlock ls p)" "lock_view (locks_wlock ls p) = (lock_view ls)(p := Writer)"
  using locks_wf_update [OF assms]
  by (auto simp: locks_wlock_def EXCLUSIVE_LOCK_TAG_def lock_view_def gam_simps fun_eq_iff)

text \<open>Releasing: a writer's slot is cleared, a reader's is counted down.\<close>

lemma locks_release_view:
  assumes "locks_wf ls" "map_of ls p = Some n"
  defines "v \<equiv> (if n = EXCLUSIVE_LOCK_TAG then 0 else n - 1)"
  shows "locks_wf (locks_put ls p v)"
    and "lock_view (locks_put ls p v) = (lock_view ls)(p := spec_unlock (lock_view ls p))"
proof -
  note b = locks_wf_bound [OF assms(1,2)]
  show "locks_wf (locks_put ls p v)"
    using b unfolding v_def by (intro locks_wf_put [OF assms(1)]) auto
  show "lock_view (locks_put ls p v) = (lock_view ls)(p := spec_unlock (lock_view ls p))"
    using b assms(2) unfolding v_def
    by (auto simp: lock_view_def map_of_locks_put spec_unlock_def fun_eq_iff EXCLUSIVE_LOCK_TAG_def nat_diff_distrib)
qed

lemma locks_block_wlocked_view:
  "locks_wf ls \<Longrightarrow> locks_block_wlocked ls \<longleftrightarrow> (\<exists>q. lock_view ls q = Writer)"
  by (force simp: locks_block_wlocked_iff locks_wlocked_def lock_view_def split: option.splits)

text \<open>The keys of a table stay within one class under every operation.\<close>

definition locks_in :: "(64 word \<Rightarrow> 'b) \<Rightarrow> 'b \<Rightarrow> locks \<Rightarrow> bool" where
  "locks_in f b ls \<longleftrightarrow> (\<forall>l \<in> set ls. f (fst l) = b)"

lemma locks_in_Nil [simp]: "locks_in f b []"
  by (simp add: locks_in_def)

lemma locks_in_keys: "locks_in f b ls \<longleftrightarrow> (\<forall>k \<in> fst ` set ls. f k = b)"
  by (simp add: locks_in_def)

lemma locks_in_update: "locks_in f b ls \<Longrightarrow> f p = b \<Longrightarrow> locks_in f b (AList.update p v ls)"
  by (simp add: locks_in_keys dom_update)

lemma locks_in_ops:
  assumes "locks_in f b ls" "f p = b"
  shows "locks_in f b (locks_rlock ls p)" "locks_in f b (locks_wlock ls p)" "locks_in f b (locks_put ls p v)"
  using assms locks_in_update [OF assms]
  by (auto simp: locks_rlock_def locks_wlock_def locks_put_def locks_in_keys AList.delete_eq split: option.split)

end
