(* ===== verification/Hash_Map.thy ===== *)
theory Hash_Map
  imports GAM_Prelude
begin

text \<open>
  The bucketed hash table \<open>Map\<close> of \<open>include/map.h\<close>, which \<open>HashTable\<close> is under
  \<open>USE_SIMPLE_MAP\<close>: the table behind the directory, the cache, the fences and the
  pending requests. The hasher is a class the table is instantiated with, and a
  parameter \<open>hashfn\<close> here. The locale \<open>kv_store\<close> is what the components rely on;
  the table is shown to provide it for every hasher.
\<close>

subsection \<open>The table\<close>

record ('k, 'v) Bucket =
  b_locked :: bool
  kvs :: "('k \<times> 'v) list"

record ('k, 'v) Map =
  buckets :: "64 word \<Rightarrow> ('k, 'v) Bucket"
  hashmask :: "64 word"

definition Map_new :: "nat \<Rightarrow> ('k, 'v) Map" where
  "Map_new pw = \<lparr> buckets = (\<lambda>_. \<lparr> b_locked = False, kvs = [] \<rparr>),
                     hashmask = push_bit pw 1 - 1 \<rparr>"

definition bucket_of :: "('k \<Rightarrow> 64 word) \<Rightarrow> ('k, 'v) Map \<Rightarrow> 'k \<Rightarrow> 64 word" where
  "bucket_of hashfn m k = hashfn k AND hashmask m"

definition bucket_kvs :: "('k \<Rightarrow> 64 word) \<Rightarrow> ('k, 'v) Map \<Rightarrow> 'k \<Rightarrow> ('k \<times> 'v) list" where
  "bucket_kvs hashfn m k = kvs (buckets m (bucket_of hashfn m k))"

definition set_kvs :: "64 word \<Rightarrow> ('k \<times> 'v) list \<Rightarrow> ('k, 'v) Map \<Rightarrow> ('k, 'v) Map" where
  "set_kvs hv l m = m \<lparr> buckets := (buckets m)(hv := (buckets m hv) \<lparr> kvs := l \<rparr>) \<rparr>"

subsection \<open>Bucket locks\<close>

definition set_locked :: "64 word \<Rightarrow> bool \<Rightarrow> ('k, 'v) Map \<Rightarrow> ('k, 'v) Map" where
  "set_locked hv b m = m \<lparr> buckets := (buckets m)(hv := (buckets m hv) \<lparr> b_locked := b \<rparr>) \<rparr>"

text \<open>\<open>lock\<close> waits while the bucket is held: \<open>None\<close> is a caller that waits.\<close>

definition map_lock :: "('k \<Rightarrow> 64 word) \<Rightarrow> 'k \<Rightarrow> ('k, 'v) Map \<Rightarrow> (64 word \<times> ('k, 'v) Map) option" where
  "map_lock hashfn k m =
     (let hv = bucket_of hashfn m k
      in if b_locked (buckets m hv) then None else Some (hv, set_locked hv True m))"

definition map_try_lock :: "('k \<Rightarrow> 64 word) \<Rightarrow> 'k \<Rightarrow> ('k, 'v) Map \<Rightarrow> bool \<times> ('k, 'v) Map" where
  "map_try_lock hashfn k m =
     (let hv = bucket_of hashfn m k
      in if b_locked (buckets m hv) then (False, m) else (True, set_locked hv True m))"

definition map_unlock :: "('k \<Rightarrow> 64 word) \<Rightarrow> 'k \<Rightarrow> ('k, 'v) Map \<Rightarrow> ('k, 'v) Map" where
  "map_unlock hashfn k m = set_locked (bucket_of hashfn m k) False m"

definition map_unlock_hv :: "64 word \<Rightarrow> ('k, 'v) Map \<Rightarrow> ('k, 'v) Map" where
  "map_unlock_hv hv m = set_locked hv False m"

subsection \<open>Lookup, insertion and removal\<close>

text \<open>
  \<open>operator[]\<close> returns a reference into the bucket, after adding a default value
  when the key is new. \<open>map_index\<close> is the read of it, \<open>map_assign\<close> the assignment
  \<open>m[k] = v\<close> through it.
\<close>

definition map_index :: "('k \<Rightarrow> 64 word) \<Rightarrow> 'v \<Rightarrow> 'k \<Rightarrow> ('k, 'v) Map \<Rightarrow> 'v \<times> ('k, 'v) Map" where
  "map_index hashfn dflt k m =
     (let l = bucket_kvs hashfn m k
      in case map_of l k of
           Some v \<Rightarrow> (v, m)
         | None \<Rightarrow> (dflt, set_kvs (bucket_of hashfn m k) (l @ [(k, dflt)]) m))"

definition map_assign :: "('k \<Rightarrow> 64 word) \<Rightarrow> 'k \<Rightarrow> 'v \<Rightarrow> ('k, 'v) Map \<Rightarrow> ('k, 'v) Map" where
  "map_assign hashfn k v m =
     set_kvs (bucket_of hashfn m k) (AList.update k v (bucket_kvs hashfn m k)) m"

definition map_at :: "('k \<Rightarrow> 64 word) \<Rightarrow> ('k, 'v) Map \<Rightarrow> 'k \<Rightarrow> fault + 'v" where
  "map_at hashfn m k =
     (case map_of (bucket_kvs hashfn m k) k of Some v \<Rightarrow> Inr v | None \<Rightarrow> Inl OutOfRange)"

definition map_count :: "('k \<Rightarrow> 64 word) \<Rightarrow> ('k, 'v) Map \<Rightarrow> 'k \<Rightarrow> nat" where
  "map_count hashfn m k = (case map_of (bucket_kvs hashfn m k) k of Some _ \<Rightarrow> 1 | None \<Rightarrow> 0)"

definition map_erase :: "('k \<Rightarrow> 64 word) \<Rightarrow> 'k \<Rightarrow> ('k, 'v) Map \<Rightarrow> nat \<times> ('k, 'v) Map" where
  "map_erase hashfn k m =
     (let l = bucket_kvs hashfn m k
      in (map_count hashfn m k,
          set_kvs (bucket_of hashfn m k) (erase_first (\<lambda>kv. fst kv = k) l) m))"

subsection \<open>Invariant and abstraction\<close>

definition map_wf :: "('k \<Rightarrow> 64 word) \<Rightarrow> ('k, 'v) Map \<Rightarrow> bool" where
  "map_wf hashfn m \<longleftrightarrow>
     (\<forall>hv. distinct (map fst (kvs (buckets m hv)))
         \<and> (\<forall>kv \<in> set (kvs (buckets m hv)). bucket_of hashfn m (fst kv) = hv))"

definition map_abs :: "('k \<Rightarrow> 64 word) \<Rightarrow> ('k, 'v) Map \<Rightarrow> 'k \<rightharpoonup> 'v" where
  "map_abs hashfn m = (\<lambda>k. map_of (bucket_kvs hashfn m k) k)"

subsection \<open>Programs over a table\<close>

datatype ('k, 'v) kv_op = Put 'k 'v | Erase 'k | At 'k | Count 'k | Index 'k

datatype 'v kv_out = Done | Found "fault + 'v" | Num nat

text \<open>One operation on the table, with what it returns, and a sequence of them.\<close>

fun map_exec :: "('k \<Rightarrow> 64 word) \<Rightarrow> 'v \<Rightarrow> ('k, 'v) kv_op \<Rightarrow> ('k, 'v) Map \<Rightarrow> 'v kv_out \<times> ('k, 'v) Map" where
  "map_exec h d (Put k v) m = (Done, map_assign h k v m)"
| "map_exec h d (Erase k) m = (case map_erase h k m of (n, m') \<Rightarrow> (Num n, m'))"
| "map_exec h d (At k) m = (Found (map_at h m k), m)"
| "map_exec h d (Count k) m = (Num (map_count h m k), m)"
| "map_exec h d (Index k) m = (case map_index h d k m of (v, m') \<Rightarrow> (Found (Inr v), m'))"

text \<open>The same on a partial function.\<close>

fun spec_exec :: "'v \<Rightarrow> ('k, 'v) kv_op \<Rightarrow> ('k \<rightharpoonup> 'v) \<Rightarrow> 'v kv_out \<times> ('k \<rightharpoonup> 'v)" where
  "spec_exec d (Put k v) f = (Done, f(k \<mapsto> v))"
| "spec_exec d (Erase k) f = (Num (if f k = None then 0 else 1), f(k := None))"
| "spec_exec d (At k) f = (Found (case f k of Some v \<Rightarrow> Inr v | None \<Rightarrow> Inl OutOfRange), f)"
| "spec_exec d (Count k) f = (Num (if f k = None then 0 else 1), f)"
| "spec_exec d (Index k) f =
     (case f k of Some v \<Rightarrow> (Found (Inr v), f) | None \<Rightarrow> (Found (Inr d), f(k \<mapsto> d)))"

fun run_ops :: "('op \<Rightarrow> 's \<Rightarrow> 'out \<times> 's) \<Rightarrow> 'op list \<Rightarrow> 's \<Rightarrow> 'out list \<times> 's" where
  "run_ops ex [] s = ([], s)"
| "run_ops ex (p # ps) s =
     (case ex p s of (out, s') \<Rightarrow> case run_ops ex ps s' of (outs, s'') \<Rightarrow> (out # outs, s''))"

subsection \<open>What a client relies on\<close>

locale kv_store =
  fixes inv :: "'m \<Rightarrow> bool"
    and view :: "'m \<Rightarrow> 'k \<rightharpoonup> 'v"
    and exec :: "('k, 'v) kv_op \<Rightarrow> 'm \<Rightarrow> 'v kv_out \<times> 'm"
    and dflt :: 'v
  assumes exec_inv: "inv m \<Longrightarrow> inv (snd (exec p m))"
    and exec_view: "inv m \<Longrightarrow> spec_exec dflt p (view m) = apsnd view (exec p m)"
begin

lemma run_refines:
  "inv m \<Longrightarrow> inv (snd (run_ops exec ps m)) \<and>
     run_ops (spec_exec dflt) ps (view m) = apsnd view (run_ops exec ps m)"
proof (induction ps arbitrary: m)
  case (Cons p ps)
  obtain out m' where ex: "exec p m = (out, m')" by fastforce
  obtain outs m'' where rn: "run_ops exec ps m' = (outs, m'')" by fastforce
  have "inv m'" using exec_inv [OF Cons.prems, of p] ex by simp
  from Cons.IH [OF this] exec_view [OF Cons.prems, of p] show ?case
    by (simp add: ex rn)
qed simp

lemma run_outputs:
  "inv m \<Longrightarrow> fst (run_ops exec ps m) = fst (run_ops (spec_exec dflt) ps (view m))"
  using run_refines [of m ps] by simp

end

subsection \<open>The table provides it\<close>

lemma kvs_set_kvs [simp]:
  "kvs (buckets (set_kvs hv l m) hv') = (if hv' = hv then l else kvs (buckets m hv'))"
  by (simp add: set_kvs_def)

lemma bucket_of_set_kvs [simp]: "bucket_of h (set_kvs hv l m) k = bucket_of h m k"
  by (simp add: set_kvs_def bucket_of_def)

lemma map_wf_bucket: "map_wf h m \<Longrightarrow> distinct (map fst (bucket_kvs h m k))"
  by (simp add: map_wf_def bucket_kvs_def)

text \<open>
  A bucket is replaced by a list with distinct keys that agrees with the old one
  on every key but \<open>k\<close>: the invariant stays and only \<open>k\<close> changes.
\<close>

lemma map_wf_set_kvs:
  assumes "map_wf h m" "distinct (map fst l)" "fst ` set l \<subseteq> insert k (fst ` set (bucket_kvs h m k))"
  shows "map_wf h (set_kvs (bucket_of h m k) l m)"
  using assms by (fastforce simp: map_wf_def bucket_kvs_def)

lemma map_abs_set_kvs:
  assumes "map_of l = (map_of (bucket_kvs h m k))(k := r)"
  shows "map_abs h (set_kvs (bucket_of h m k) l m) = (map_abs h m)(k := r)"
  using assms by (auto simp: map_abs_def bucket_kvs_def fun_eq_iff)

lemma map_of_snoc: "map_of l k = None \<Longrightarrow> map_of (l @ [(k, v)]) = (map_of l)(k \<mapsto> v)"
  by (auto simp: fun_eq_iff map_add_def split: option.split)

lemma map_of_filter_neq: "map_of (filter (\<lambda>kv. fst kv \<noteq> k) l) = (map_of l)(k := None)"
  by (induction l) auto

lemma map_assign_refines:
  assumes "map_wf h m"
  shows "map_wf h (map_assign h k v m)" "map_abs h (map_assign h k v m) = (map_abs h m)(k \<mapsto> v)"
proof -
  show "map_wf h (map_assign h k v m)"
    unfolding map_assign_def using map_wf_bucket [OF assms]
    by (intro map_wf_set_kvs [OF assms]) (auto simp: dom_update)
  show "map_abs h (map_assign h k v m) = (map_abs h m)(k \<mapsto> v)"
    unfolding map_assign_def by (rule map_abs_set_kvs) (simp add: gam_simps)
qed

lemma map_erase_refines:
  assumes "map_wf h m"
  shows "map_wf h (snd (map_erase h k m))" "map_abs h (snd (map_erase h k m)) = (map_abs h m)(k := None)"
    "fst (map_erase h k m) = (if map_abs h m k = None then 0 else 1)"
proof -
  let ?l = "bucket_kvs h m k"
  note d = map_wf_bucket [OF assms, of k]
  show "map_wf h (snd (map_erase h k m))"
    using d set_erase_first_subset [of "\<lambda>kv. fst kv = k" ?l]
    by (auto simp: map_erase_def Let_def intro!: map_wf_set_kvs [OF assms] distinct_map_erase_first)
  show "map_abs h (snd (map_erase h k m)) = (map_abs h m)(k := None)"
    by (simp add: map_erase_def Let_def erase_first_unique [OF d] map_of_filter_neq map_abs_set_kvs)
  show "fst (map_erase h k m) = (if map_abs h m k = None then 0 else 1)"
    by (simp add: map_erase_def map_count_def map_abs_def Let_def split: option.split)
qed

lemma map_index_refines:
  assumes "map_wf h m"
  shows "map_wf h (snd (map_index h d k m))"
    and "map_abs h (snd (map_index h d k m)) = (map_abs h m)(k \<mapsto> fst (map_index h d k m))"
    and "fst (map_index h d k m) = (case map_abs h m k of Some v \<Rightarrow> v | None \<Rightarrow> d)"
proof -
  note b = map_wf_bucket [OF assms, of k]
  show "map_wf h (snd (map_index h d k m))"
    using assms b
    by (auto simp: map_index_def Let_def map_of_eq_None_iff split: option.split
        intro!: map_wf_set_kvs [OF assms])
  show "map_abs h (snd (map_index h d k m)) = (map_abs h m)(k \<mapsto> fst (map_index h d k m))"
  proof (cases "map_of (bucket_kvs h m k) k")
    case None
    then show ?thesis
      using map_abs_set_kvs [OF map_of_snoc [OF None]] by (simp add: map_index_def Let_def)
  next
    case (Some v)
    then show ?thesis by (auto simp: map_index_def map_abs_def fun_eq_iff)
  qed
  show "fst (map_index h d k m) = (case map_abs h m k of Some v \<Rightarrow> v | None \<Rightarrow> d)"
    by (simp add: map_index_def Let_def map_abs_def split: option.split)
qed

lemma map_exec_wf: "map_wf h m \<Longrightarrow> map_wf h (snd (map_exec h d p m))"
  by (cases p)
    (simp_all add: map_assign_refines map_erase_refines(1) map_index_refines(1) split_beta)

lemma map_exec_abs:
  assumes "map_wf h m"
  shows "spec_exec d p (map_abs h m) = apsnd (map_abs h) (map_exec h d p m)"
proof (cases p)
  case (At k)
  then show ?thesis by (simp add: map_at_def map_abs_def)
next
  case (Count k)
  then show ?thesis by (simp add: map_count_def map_abs_def split: option.split)
next
  case (Index k)
  with map_index_refines [OF assms, of d k] show ?thesis
    by (cases "map_index h d k m") (auto simp: fun_eq_iff split: option.split)
qed (simp_all add: map_assign_refines [OF assms] map_erase_refines [OF assms] split_beta)

interpretation htable: kv_store "map_wf h" "map_abs h" "map_exec h d" d
  for h :: "'k \<Rightarrow> 64 word" and d :: 'v
  by unfold_locales (simp_all add: map_exec_wf map_exec_abs)

lemma map_wf_new: "map_wf h (Map_new pw)"
  by (simp add: map_wf_def Map_new_def)

lemma map_abs_new: "map_abs h (Map_new pw) = Map.empty"
  by (simp add: map_abs_def bucket_kvs_def Map_new_def)

subsection \<open>Properties\<close>

text \<open>
  C12: whatever the hasher and the number of buckets, every sequence of table operations
  from a new table returns what the same sequence returns on a partial function from
  keys to values: keys that collide in a bucket never disturb each other.
\<close>

theorem hash_map_refines_map:
  "fst (run_ops (map_exec h d) ps (Map_new pw)) = fst (run_ops (spec_exec d) ps Map.empty)"
  using htable.run_outputs [of h "Map_new pw" d ps] by (simp add: map_wf_new map_abs_new)

text \<open>
  A bucket index is below the number of buckets the constructor allocates, for any
  hasher: the table is never read past its last bucket.
\<close>

lemma bucket_index_in_range: "unat (bucket_of h (Map_new pw :: ('k, 'v) Map) k) < 2 ^ pw"
proof -
  have "bucket_of h (Map_new pw :: ('k, 'v) Map) k = take_bit pw (h k)"
    by (simp add: bucket_of_def Map_new_def take_bit_eq_mask mask_eq_exp_minus_1 push_bit_of_1)
  then show ?thesis by (simp add: unsigned_take_bit_eq)
qed

end
