(* ===== verification/Directory.thy ===== *)
theory Directory
  imports GAddress Lock_Table Hash_Map
begin

text \<open>
  The directory of a home node (\<open>include/directory.h\<close>, \<open>src/directory.cc\<close>): for each
  block of local memory that other nodes cache or that is locked, its coherence
  state, the list of sharers and the lock table. A \<open>DirEntry*\<close> is the entry stored
  under \<open>entry->addr\<close>; an operation on a pointer updates the directory at that key.
  The checks the source makes only in \<open>epicAssert\<close>, which the build compiles out,
  are not part of the operations; they are the guards of \<open>dir_step\<close>.
\<close>

datatype DirState = DIR_UNSHARED | DIR_DIRTY | DIR_SHARED | DIR_TO_DIRTY | DIR_TO_SHARED | DIR_TO_UNSHARED

record DirEntry =
  d_state :: DirState
  d_shared :: "gaddr list"
  d_addr :: ptr
  d_locks :: locks

type_synonym Directory = "ptr \<rightharpoonup> DirEntry"

definition new_DirEntry :: "ptr \<Rightarrow> DirEntry" where
  "new_DirEntry blk = \<lparr> d_state = DIR_UNSHARED, d_shared = [], d_addr = blk, d_locks = [] \<rparr>"

text \<open>The object an entry pointer points at, after an assignment through it.\<close>

definition put_entry :: "DirEntry \<Rightarrow> Directory \<Rightarrow> Directory" where
  "put_entry e d = d(d_addr e \<mapsto> e)"

text \<open>\<open>dir.erase(entry->addr); delete entry\<close>\<close>

definition erase_entry :: "DirEntry \<Rightarrow> Directory \<Rightarrow> Directory" where
  "erase_entry e d = d(d_addr e := None)"

subsection \<open>Queries\<close>

definition dir_GetEntry :: "Directory \<Rightarrow> ptr \<Rightarrow> DirEntry option" where
  "dir_GetEntry d p = d (TOBLOCK p)"

definition dir_GetState :: "DirEntry option \<Rightarrow> DirState" where
  "dir_GetState oe = (case oe of None \<Rightarrow> DIR_UNSHARED | Some e \<Rightarrow> d_state e)"

definition dir_GetState_ptr :: "Directory \<Rightarrow> ptr \<Rightarrow> DirState" where
  "dir_GetState_ptr d p = (case d (TOBLOCK p) of None \<Rightarrow> DIR_UNSHARED | Some e \<Rightarrow> d_state e)"

definition dir_InTransition :: "DirState \<Rightarrow> bool" where
  "dir_InTransition s \<longleftrightarrow> s = DIR_TO_DIRTY \<or> s = DIR_TO_SHARED \<or> s = DIR_TO_UNSHARED"

definition dir_InTransition_entry :: "DirEntry option \<Rightarrow> bool" where
  "dir_InTransition_entry oe = (case oe of None \<Rightarrow> False | Some e \<Rightarrow> dir_InTransition (d_state e))"

definition dir_InTransition_ptr :: "Directory \<Rightarrow> ptr \<Rightarrow> bool" where
  "dir_InTransition_ptr d p =
     (case d (TOBLOCK p) of
        None \<Rightarrow> False
      | Some e \<Rightarrow> d_state e = DIR_TO_DIRTY \<or> d_state e = DIR_TO_SHARED \<or> d_state e = DIR_TO_UNSHARED)"

definition dir_IsWLocked_entry :: "DirEntry option \<Rightarrow> ptr \<Rightarrow> bool" where
  "dir_IsWLocked_entry oe p =
     (case oe of
        None \<Rightarrow> False
      | Some e \<Rightarrow> d_state e = DIR_UNSHARED \<and> map_of (d_locks e) p = Some EXCLUSIVE_LOCK_TAG)"

definition dir_IsWLocked :: "Directory \<Rightarrow> ptr \<Rightarrow> bool" where
  "dir_IsWLocked d p = dir_IsWLocked_entry (d (TOBLOCK p)) p"

definition dir_IsRLocked_entry :: "DirEntry option \<Rightarrow> ptr \<Rightarrow> bool" where
  "dir_IsRLocked_entry oe p =
     (case oe of
        None \<Rightarrow> False
      | Some e \<Rightarrow> (case map_of (d_locks e) p of None \<Rightarrow> False | Some n \<Rightarrow> n > 0 \<and> n \<noteq> EXCLUSIVE_LOCK_TAG))"

definition dir_IsRLocked :: "Directory \<Rightarrow> ptr \<Rightarrow> bool" where
  "dir_IsRLocked d p = dir_IsRLocked_entry (d (TOBLOCK p)) p"

definition dir_IsBlockWLocked :: "DirEntry option \<Rightarrow> bool" where
  "dir_IsBlockWLocked oe = (case oe of None \<Rightarrow> False | Some e \<Rightarrow> locks_block_wlocked (d_locks e))"

definition dir_IsBlockLocked :: "DirEntry option \<Rightarrow> bool" where
  "dir_IsBlockLocked oe = (case oe of None \<Rightarrow> False | Some e \<Rightarrow> length (d_locks e) > 0)"

subsection \<open>Sharing state\<close>

definition dir_ToShared_entry :: "DirEntry \<Rightarrow> gaddr \<Rightarrow> Directory \<Rightarrow> Directory" where
  "dir_ToShared_entry e addr d =
     (if d_state e = DIR_TO_SHARED
      then put_entry (e \<lparr> d_state := DIR_SHARED,
                          d_shared := (if addr \<noteq> Gnullptr then tl (d_shared e) @ [addr] else d_shared e) \<rparr>) d
      else put_entry (e \<lparr> d_state := DIR_SHARED, d_shared := d_shared e @ [addr] \<rparr>) d)"

definition dir_ToShared :: "ptr \<Rightarrow> gaddr \<Rightarrow> Directory \<Rightarrow> Directory" where
  "dir_ToShared p addr d =
     (let block = TOBLOCK p
      in case dir_GetEntry d block of
           None \<Rightarrow> put_entry (new_DirEntry block \<lparr> d_state := DIR_SHARED, d_shared := [addr] \<rparr>) d
         | Some e \<Rightarrow> dir_ToShared_entry e addr d)"

text \<open>
  \<open>Remove\<close> drops the first sharer of worker \<open>wid\<close>, and the entry once nobody
  shares or locks the block.
\<close>

definition dir_Remove_entry :: "DirEntry option \<Rightarrow> 64 word \<Rightarrow> Directory \<Rightarrow> Directory" where
  "dir_Remove_entry oe wid d =
     (case oe of
        None \<Rightarrow> d
      | Some e \<Rightarrow>
          (let e' = e \<lparr> d_shared := erase_first (\<lambda>a. WID a = wid) (d_shared e) \<rparr>
           in if length (d_shared e') = 0 \<and> \<not> dir_IsBlockLocked (Some e')
              then erase_entry e' d else put_entry e' d))"

definition dir_Remove :: "ptr \<Rightarrow> 64 word \<Rightarrow> Directory \<Rightarrow> Directory" where
  "dir_Remove p wid d = dir_Remove_entry (dir_GetEntry d (TOBLOCK p)) wid d"

definition dir_UndoShared_entry :: "DirEntry \<Rightarrow> Directory \<Rightarrow> Directory" where
  "dir_UndoShared_entry e d = put_entry (e \<lparr> d_state := DIR_SHARED \<rparr>) d"

definition dir_UndoShared :: "ptr \<Rightarrow> Directory \<Rightarrow> Directory" where
  "dir_UndoShared p d = (case d (TOBLOCK p) of None \<Rightarrow> d | Some e \<Rightarrow> dir_UndoShared_entry e d)"

definition dir_ToUnShared_entry :: "DirEntry option \<Rightarrow> Directory \<Rightarrow> Directory" where
  "dir_ToUnShared_entry oe d =
     (case oe of
        None \<Rightarrow> d
      | Some e \<Rightarrow>
          if dir_IsBlockLocked (Some e)
          then put_entry (e \<lparr> d_state := DIR_UNSHARED, d_shared := [] \<rparr>) d
          else erase_entry e d)"

definition dir_ToUnShared :: "ptr \<Rightarrow> Directory \<Rightarrow> Directory" where
  "dir_ToUnShared p d = dir_ToUnShared_entry (dir_GetEntry d p) d"

definition dir_ToDirty_entry :: "DirEntry \<Rightarrow> gaddr \<Rightarrow> Directory \<Rightarrow> Directory" where
  "dir_ToDirty_entry e addr d = put_entry (e \<lparr> d_state := DIR_DIRTY, d_shared := [addr] \<rparr>) d"

definition dir_ToDirty :: "ptr \<Rightarrow> gaddr \<Rightarrow> Directory \<Rightarrow> Directory" where
  "dir_ToDirty p addr d =
     (let block = TOBLOCK p
      in case dir_GetEntry d p of
           None \<Rightarrow> put_entry (new_DirEntry block \<lparr> d_state := DIR_DIRTY, d_shared := [addr] \<rparr>) d
         | Some e \<Rightarrow> dir_ToDirty_entry e addr d)"

definition dir_UndoDirty_entry :: "DirEntry \<Rightarrow> Directory \<Rightarrow> Directory" where
  "dir_UndoDirty_entry e d = put_entry (e \<lparr> d_state := DIR_DIRTY \<rparr>) d"

definition dir_UndoDirty :: "ptr \<Rightarrow> Directory \<Rightarrow> Directory" where
  "dir_UndoDirty p d = (case d (TOBLOCK p) of None \<Rightarrow> d | Some e \<Rightarrow> dir_UndoDirty_entry e d)"

definition dir_ToToShared_entry :: "DirEntry \<Rightarrow> Directory \<Rightarrow> Directory" where
  "dir_ToToShared_entry e d = put_entry (e \<lparr> d_state := DIR_TO_SHARED \<rparr>) d"

text \<open>\<open>ToToShared(ptr)\<close> and \<open>ToToUnShared(ptr)\<close> dereference a missing entry: \<open>None\<close>.\<close>

definition dir_ToToShared :: "ptr \<Rightarrow> Directory \<Rightarrow> Directory option" where
  "dir_ToToShared p d = map_option (\<lambda>e. dir_ToToShared_entry e d) (dir_GetEntry d (TOBLOCK p))"

definition dir_ToToUnShared_entry :: "DirEntry \<Rightarrow> Directory \<Rightarrow> Directory" where
  "dir_ToToUnShared_entry e d = put_entry (e \<lparr> d_state := DIR_TO_UNSHARED \<rparr>) d"

definition dir_ToToUnShared :: "ptr \<Rightarrow> Directory \<Rightarrow> Directory option" where
  "dir_ToToUnShared p d = map_option (\<lambda>e. dir_ToToUnShared_entry e d) (dir_GetEntry d (TOBLOCK p))"

definition dir_ToToDirty_entry :: "DirEntry \<Rightarrow> Directory \<Rightarrow> Directory" where
  "dir_ToToDirty_entry e d = put_entry (e \<lparr> d_state := DIR_TO_DIRTY \<rparr>) d"

definition dir_ToToDirty :: "ptr \<Rightarrow> Directory \<Rightarrow> Directory" where
  "dir_ToToDirty p d =
     (let block = TOBLOCK p
      in case dir_GetEntry d block of
           None \<Rightarrow> put_entry (new_DirEntry block \<lparr> d_state := DIR_TO_DIRTY \<rparr>) d
         | Some e \<Rightarrow> dir_ToToDirty_entry e d)"

subsection \<open>Locks\<close>

definition dir_RLock_entry :: "DirEntry \<Rightarrow> ptr \<Rightarrow> Directory \<Rightarrow> int \<times> Directory" where
  "dir_RLock_entry e p d =
     (if dir_IsWLocked_entry (Some e) p then (-1, d)
      else (0, put_entry (e \<lparr> d_locks := locks_rlock (d_locks e) p \<rparr>) d))"

definition dir_RLock :: "Directory \<Rightarrow> ptr \<Rightarrow> int \<times> Directory" where
  "dir_RLock d p =
     (let block = TOBLOCK p
      in case dir_GetEntry d block of
           None \<Rightarrow> (0, put_entry (new_DirEntry block \<lparr> d_locks := [(p, 1)] \<rparr>) d)
         | Some e \<Rightarrow> dir_RLock_entry e p d)"

definition dir_WLock_entry :: "DirEntry \<Rightarrow> ptr \<Rightarrow> Directory \<Rightarrow> int \<times> Directory" where
  "dir_WLock_entry e p d =
     (if dir_IsWLocked_entry (Some e) p \<or> dir_IsRLocked_entry (Some e) p then (-1, d)
      else (0, put_entry (e \<lparr> d_locks := locks_wlock (d_locks e) p \<rparr>) d))"

definition dir_WLock :: "Directory \<Rightarrow> ptr \<Rightarrow> int \<times> Directory" where
  "dir_WLock d p =
     (let block = TOBLOCK p
      in case dir_GetEntry d block of
           None \<Rightarrow> (0, put_entry (new_DirEntry block \<lparr> d_locks := [(p, EXCLUSIVE_LOCK_TAG)] \<rparr>) d)
         | Some e \<Rightarrow> dir_WLock_entry e p d)"

text \<open>\<open>entry->locks[ptr]\<close> of an absent key is \<open>0\<close>.\<close>

definition dir_UnLock_entry :: "DirEntry \<Rightarrow> ptr \<Rightarrow> Directory \<Rightarrow> Directory" where
  "dir_UnLock_entry e p d =
     (let n = (case map_of (d_locks e) p of None \<Rightarrow> 0 | Some n \<Rightarrow> n);
          e' = e \<lparr> d_locks := locks_put (d_locks e) p (if dir_IsWLocked_entry (Some e) p then 0 else n - 1) \<rparr>
      in if d_state e' = DIR_UNSHARED \<and> length (d_locks e') = 0
         then erase_entry e' d else put_entry e' d)"

definition dir_UnLock :: "Directory \<Rightarrow> ptr \<Rightarrow> Directory" where
  "dir_UnLock d p = (case d (TOBLOCK p) of None \<Rightarrow> d | Some e \<Rightarrow> dir_UnLock_entry e p d)"

subsection \<open>Eviction notices\<close>

definition dir_Clear_entry :: "DirEntry option \<Rightarrow> gaddr \<Rightarrow> Directory \<Rightarrow> Directory" where
  "dir_Clear_entry oe addr d =
     (case oe of
        None \<Rightarrow> d
      | Some e \<Rightarrow>
          (let shared' =
             (if d_state e = DIR_DIRTY
              then (case d_shared e of [] \<Rightarrow> [] | a # as \<Rightarrow> if addr = a then as else a # as)
              else removeAll addr (d_shared e));
             e' = e \<lparr> d_shared := shared' \<rparr>
           in if length shared' = 0
              then (if \<not> dir_IsBlockLocked (Some e') then erase_entry e' d
                    else put_entry (e' \<lparr> d_state := DIR_UNSHARED \<rparr>) d)
              else put_entry e' d))"

definition dir_Clear :: "ptr \<Rightarrow> gaddr \<Rightarrow> Directory \<Rightarrow> Directory" where
  "dir_Clear p addr d =
     (case dir_GetEntry d (TOBLOCK p) of None \<Rightarrow> d | Some e \<Rightarrow> dir_Clear_entry (Some e) addr d)"

subsection \<open>Invariant\<close>

definition entry_wf :: "DirEntry \<Rightarrow> bool" where
  "entry_wf e \<longleftrightarrow>
     BLOCK_ALIGNED (d_addr e) \<and> locks_wf (d_locks e) \<and> distinct (map WID (d_shared e)) \<and>
     locks_in TOBLOCK (d_addr e) (d_locks e) \<and>
     (case d_state e of
        DIR_UNSHARED \<Rightarrow> d_shared e = [] \<and> d_locks e \<noteq> []
      | DIR_DIRTY \<Rightarrow> length (d_shared e) = 1 \<and> d_locks e = []
      | DIR_SHARED \<Rightarrow> d_shared e \<noteq> [] \<and> \<not> locks_block_wlocked (d_locks e)
      | DIR_TO_DIRTY \<Rightarrow> d_shared e \<noteq> [] \<and> d_locks e = []
      | DIR_TO_SHARED \<Rightarrow> length (d_shared e) = 1 \<and> d_locks e = []
      | DIR_TO_UNSHARED \<Rightarrow> \<not> locks_block_wlocked (d_locks e))"

definition dir_wf :: "Directory \<Rightarrow> bool" where
  "dir_wf d \<longleftrightarrow> (\<forall>k e. d k = Some e \<longrightarrow> d_addr e = k \<and> entry_wf e)"

definition dir_view :: "Directory \<Rightarrow> ptr \<Rightarrow> rwlock" where
  "dir_view d p = (case d (TOBLOCK p) of None \<Rightarrow> Free | Some e \<Rightarrow> lock_view (d_locks e) p)"

subsection \<open>Operations and the conditions their callers meet\<close>

datatype 'h dir_op =
    OpToShared ptr gaddr        \<comment> \<open>a reader gets a copy\<close>
  | OpWriteBack ptr             \<comment> \<open>the owner's copy came back: \<open>ToShared(entry, Gnullptr)\<close>\<close>
  | OpToDirty ptr gaddr
  | OpToUnShared ptr
  | OpToToShared ptr
  | OpToToUnShared ptr
  | OpToToDirty ptr
  | OpUndoDirty ptr
  | OpUndoShared ptr
  | OpRemove ptr "64 word"
  | OpClear ptr gaddr
  | OpRLock ptr 'h
  | OpWLock ptr 'h
  | OpUnLock ptr 'h

fun op_block :: "'h dir_op \<Rightarrow> ptr" where
  "op_block (OpToShared p a) = TOBLOCK p"
| "op_block (OpWriteBack p) = TOBLOCK p"
| "op_block (OpToDirty p a) = TOBLOCK p"
| "op_block (OpToUnShared p) = TOBLOCK p"
| "op_block (OpToToShared p) = TOBLOCK p"
| "op_block (OpToToUnShared p) = TOBLOCK p"
| "op_block (OpToToDirty p) = TOBLOCK p"
| "op_block (OpUndoDirty p) = TOBLOCK p"
| "op_block (OpUndoShared p) = TOBLOCK p"
| "op_block (OpRemove p w) = TOBLOCK p"
| "op_block (OpClear p a) = TOBLOCK p"
| "op_block (OpRLock p h) = TOBLOCK p"
| "op_block (OpWLock p h) = TOBLOCK p"
| "op_block (OpUnLock p h) = TOBLOCK p"

fun dir_exec :: "'h dir_op \<Rightarrow> Directory \<Rightarrow> Directory" where
  "dir_exec (OpToShared p a) d = dir_ToShared p a d"
| "dir_exec (OpWriteBack p) d = dir_ToShared p Gnullptr d"
| "dir_exec (OpToDirty p a) d = dir_ToDirty p a d"
| "dir_exec (OpToUnShared p) d = dir_ToUnShared p d"
| "dir_exec (OpToToShared p) d = (case dir_ToToShared p d of Some d' \<Rightarrow> d' | None \<Rightarrow> d)"
| "dir_exec (OpToToUnShared p) d = (case dir_ToToUnShared p d of Some d' \<Rightarrow> d' | None \<Rightarrow> d)"
| "dir_exec (OpToToDirty p) d = dir_ToToDirty p d"
| "dir_exec (OpUndoDirty p) d = dir_UndoDirty p d"
| "dir_exec (OpUndoShared p) d = dir_UndoShared p d"
| "dir_exec (OpRemove p w) d = dir_Remove p w d"
| "dir_exec (OpClear p a) d = dir_Clear p a d"
| "dir_exec (OpRLock p h) d = snd (dir_RLock d p)"
| "dir_exec (OpWLock p h) d = snd (dir_WLock d p)"
| "dir_exec (OpUnLock p h) d = dir_UnLock d p"

definition new_sharer :: "gaddr \<Rightarrow> DirEntry \<Rightarrow> bool" where
  "new_sharer a e \<longleftrightarrow> WID a \<notin> WID ` set (d_shared e)"

definition dir_rready :: "Directory \<Rightarrow> ptr \<Rightarrow> bool" where
  "dir_rready d p \<longleftrightarrow>
     \<not> dir_InTransition_ptr d p \<and> dir_GetState_ptr d p \<noteq> DIR_DIRTY \<and> dir_view d p \<noteq> Readers 254"

definition dir_wready :: "Directory \<Rightarrow> ptr \<Rightarrow> bool" where
  "dir_wready d p \<longleftrightarrow> dir_GetState_ptr d p = DIR_UNSHARED"

definition dir_uready :: "Directory \<Rightarrow> ptr \<Rightarrow> bool" where
  "dir_uready d p \<longleftrightarrow> dir_view d p \<noteq> Free"

text \<open>
  The condition under which each operation is called: what \<open>epicAssert\<close> states in the
  operation, and what the handlers check before the call.
\<close>

fun dir_guard :: "'h dir_op \<Rightarrow> Directory \<Rightarrow> bool" where
  "dir_guard (OpToShared p a) d =
     (case d (TOBLOCK p) of
        None \<Rightarrow> True
      | Some e \<Rightarrow> (d_state e = DIR_SHARED \<or> d_state e = DIR_UNSHARED \<and> \<not> dir_IsBlockWLocked (Some e)) \<and> new_sharer a e)"
| "dir_guard (OpWriteBack p) d = (dir_GetState_ptr d p = DIR_TO_SHARED)"
| "dir_guard (OpToDirty p a) d =
     (dir_GetState_ptr d p \<in> {DIR_UNSHARED, DIR_SHARED, DIR_TO_DIRTY} \<and> \<not> dir_IsBlockLocked (d (TOBLOCK p)))"
| "dir_guard (OpToUnShared p) d = (d (TOBLOCK p) = None \<or> dir_GetState_ptr d p = DIR_TO_UNSHARED)"
| "dir_guard (OpToToShared p) d = (dir_GetState_ptr d p = DIR_DIRTY)"
| "dir_guard (OpToToUnShared p) d = (dir_GetState_ptr d p \<in> {DIR_DIRTY, DIR_SHARED})"
| "dir_guard (OpToToDirty p) d =
     (dir_GetState_ptr d p \<in> {DIR_DIRTY, DIR_SHARED} \<and> \<not> dir_IsBlockLocked (d (TOBLOCK p)))"
| "dir_guard (OpUndoDirty p) d =
     (case d (TOBLOCK p) of
        None \<Rightarrow> True
      | Some e \<Rightarrow> dir_InTransition (d_state e) \<and> length (d_shared e) = 1 \<and> d_locks e = [])"
| "dir_guard (OpUndoShared p) d =
     (case d (TOBLOCK p) of None \<Rightarrow> True | Some e \<Rightarrow> dir_InTransition (d_state e) \<and> d_shared e \<noteq> [])"
| "dir_guard (OpRemove p w) d = (dir_GetState_ptr d p \<in> {DIR_UNSHARED, DIR_TO_DIRTY, DIR_TO_UNSHARED})"
| "dir_guard (OpClear p a) d = (\<not> dir_InTransition_ptr d p)"
| "dir_guard (OpRLock p h) d = dir_rready d p"
| "dir_guard (OpWLock p h) d = dir_wready d p"
| "dir_guard (OpUnLock p h) d = dir_uready d p"

subsection \<open>Every operation keeps the invariant\<close>

lemmas dir_ops_def =
  dir_ToShared_def dir_ToShared_entry_def dir_Remove_def dir_Remove_entry_def
  dir_UndoShared_def dir_UndoShared_entry_def dir_ToUnShared_def dir_ToUnShared_entry_def
  dir_ToDirty_def dir_ToDirty_entry_def dir_UndoDirty_def dir_UndoDirty_entry_def
  dir_ToToShared_def dir_ToToShared_entry_def dir_ToToUnShared_def dir_ToToUnShared_entry_def
  dir_ToToDirty_def dir_ToToDirty_entry_def dir_Clear_def dir_Clear_entry_def

lemmas dir_query_def =
  dir_GetEntry_def dir_GetState_def dir_GetState_ptr_def dir_InTransition_def
  dir_InTransition_ptr_def dir_InTransition_entry_def dir_IsBlockLocked_def dir_IsBlockWLocked_def

lemma dir_wf_empty [simp]: "dir_wf Map.empty"
  by (simp add: dir_wf_def)

lemma dir_wfD: "dir_wf d \<Longrightarrow> d k = Some e \<Longrightarrow> d_addr e = k \<and> entry_wf e"
  by (simp add: dir_wf_def)

lemma dir_wf_put: "dir_wf d \<Longrightarrow> entry_wf e \<Longrightarrow> dir_wf (put_entry e d)"
  by (simp add: dir_wf_def put_entry_def)

lemma dir_wf_erase: "dir_wf d \<Longrightarrow> dir_wf (erase_entry e d)"
  by (simp add: dir_wf_def erase_entry_def)

lemma TOBLOCK_aligned [simp]: "BLOCK_ALIGNED (TOBLOCK p)"
  by (simp add: BLOCK_ALIGNED_iff TOBLOCK_idem)

lemma locks_block_wlocked_Nil [simp]: "\<not> locks_block_wlocked []"
  by (simp add: locks_block_wlocked_def)

lemma distinct_WID_erase_first:
  "distinct (map WID xs) \<Longrightarrow> distinct (map WID (erase_first P xs))"
  by (rule distinct_map_erase_first)

lemma distinct_WID_removeAll: "distinct (map WID xs) \<Longrightarrow> distinct (map WID (removeAll a xs))"
  by (simp add: distinct_map inj_on_diff distinct_removeAll)

lemma entry_wf_new [simp]:
  "entry_wf (new_DirEntry (TOBLOCK p) \<lparr> d_state := DIR_SHARED, d_shared := [a] \<rparr>)"
  "entry_wf (new_DirEntry (TOBLOCK p) \<lparr> d_state := DIR_DIRTY, d_shared := [a] \<rparr>)"
  by (simp_all add: entry_wf_def new_DirEntry_def)

text \<open>The operations that only change who shares the block.\<close>

fun is_lock_op :: "'h dir_op \<Rightarrow> bool" where
  "is_lock_op (OpRLock p h) = True"
| "is_lock_op (OpWLock p h) = True"
| "is_lock_op (OpUnLock p h) = True"
| "is_lock_op _ = False"

lemma entry_state_cases:
  assumes "entry_wf e"
  shows "d_state e \<in> {DIR_DIRTY, DIR_TO_SHARED} \<Longrightarrow> length (d_shared e) = 1 \<and> d_locks e = []"
    and "d_state e = DIR_TO_DIRTY \<Longrightarrow> d_shared e \<noteq> [] \<and> d_locks e = []"
    and "d_state e = DIR_SHARED \<Longrightarrow> d_shared e \<noteq> [] \<and> \<not> locks_block_wlocked (d_locks e)"
    and "d_state e = DIR_UNSHARED \<Longrightarrow> d_shared e = [] \<and> d_locks e \<noteq> []"
    and "d_state e = DIR_TO_UNSHARED \<Longrightarrow> \<not> locks_block_wlocked (d_locks e)"
  using assms by (auto simp: entry_wf_def)

lemma sharing_op_wf:
  assumes "dir_wf d" "dir_guard p d" "\<not> is_lock_op p"
  shows "dir_wf (dir_exec p d)"
proof (cases "d (op_block p)")
  case None
  with assms show ?thesis
    by (cases p) (auto simp: dir_ops_def dir_query_def Let_def TOBLOCK_idem intro!: dir_wf_put)
next
  case (Some e)
  with assms(1) have wf: "entry_wf e" by (simp add: dir_wfD)
  have "BLOCK_ALIGNED (d_addr e)" "locks_wf (d_locks e)" "distinct (map WID (d_shared e))"
    "locks_in TOBLOCK (d_addr e) (d_locks e)"
    using wf by (simp_all add: entry_wf_def)
  note basic = this entry_state_cases [OF wf]
  show ?thesis
    using assms(2,3) Some basic
    by (cases p)
      (auto simp: dir_ops_def dir_query_def Let_def TOBLOCK_idem new_sharer_def entry_wf_def
        distinct_WID_erase_first distinct_WID_removeAll
        intro!: dir_wf_put [OF assms(1)] dir_wf_erase [OF assms(1)]
        split: list.splits DirState.splits if_splits)
qed

subsection \<open>The lock operations provide a readers-writer lock\<close>

lemma lock_view_outside:
  assumes "entry_wf e" "TOBLOCK q \<noteq> d_addr e"
  shows "lock_view (d_locks e) q = Free"
proof -
  have "map_of (d_locks e) q = None"
    using assms by (auto simp: entry_wf_def locks_in_keys map_of_eq_None_iff)
  then show ?thesis by (simp add: lock_view_def)
qed

text \<open>Replacing the lock table of one entry changes the view of that block only.\<close>

lemma dir_view_upd:
  assumes "d (TOBLOCK p) = Some e" "d_addr e = TOBLOCK p" "d_addr e' = d_addr e"
    and "lock_view (d_locks e') = (lock_view (d_locks e))(p := r)"
  shows "dir_view (put_entry e' d) = (dir_view d)(p := r)"
  using assms by (auto simp: dir_view_def put_entry_def fun_eq_iff)

lemma dir_view_new:
  assumes "d (TOBLOCK p) = None" "d_addr e = TOBLOCK p" "lock_view (d_locks e) = (\<lambda>_. Free)(p := r)"
  shows "dir_view (put_entry e d) = (dir_view d)(p := r)"
  using assms by (auto simp: dir_view_def put_entry_def fun_eq_iff)

lemma dir_view_erase:
  assumes "d (TOBLOCK p) = Some e" "d_addr e = TOBLOCK p"
    and "(lock_view (d_locks e))(p := r) = (\<lambda>_. Free)"
  shows "dir_view (erase_entry e d) = (dir_view d)(p := r)"
  using assms by (auto simp: dir_view_def erase_entry_def fun_eq_iff split: option.split if_splits)

lemma dir_wlocked_iff:
  assumes "dir_wf d" "d (TOBLOCK p) = Some e"
  shows "dir_IsWLocked_entry (Some e) p \<longleftrightarrow> lock_view (d_locks e) p = Writer"
    and "dir_IsRLocked_entry (Some e) p \<longleftrightarrow> (\<exists>n. lock_view (d_locks e) p = Readers n)"
proof -
  have wf: "entry_wf e" using dir_wfD [OF assms] by simp
  then have lwf: "locks_wf (d_locks e)" by (simp add: entry_wf_def)
  have "d_state e = DIR_UNSHARED" if "map_of (d_locks e) p = Some EXCLUSIVE_LOCK_TAG"
  proof -
    from that have "locks_block_wlocked (d_locks e)" "d_locks e \<noteq> []"
      using lwf by (auto simp: locks_block_wlocked_iff locks_wlocked_def)
    with wf show ?thesis by (auto simp: entry_wf_def split: DirState.splits)
  qed
  then show "dir_IsWLocked_entry (Some e) p \<longleftrightarrow> lock_view (d_locks e) p = Writer"
    by (auto simp: dir_IsWLocked_entry_def lock_view_def split: option.splits)
  show "dir_IsRLocked_entry (Some e) p \<longleftrightarrow> (\<exists>n. lock_view (d_locks e) p = Readers n)"
    using locks_wf_bound [OF lwf, of p]
    by (auto simp: dir_IsRLocked_entry_def lock_view_def split: option.splits)
qed

lemma entry_wf_rlock:
  assumes "entry_wf e" "TOBLOCK p = d_addr e" "d_state e \<in> {DIR_UNSHARED, DIR_SHARED}"
    and "lock_view (d_locks e) p \<noteq> Writer" "lock_view (d_locks e) p \<noteq> Readers 254"
  shows "entry_wf (e \<lparr> d_locks := locks_rlock (d_locks e) p \<rparr>)"
    and "lock_view (locks_rlock (d_locks e) p) = (lock_view (d_locks e))(p := snd (spec_rlock (lock_view (d_locks e) p)))"
proof -
  have lwf: "locks_wf (d_locks e)" using assms(1) by (simp add: entry_wf_def)
  have nw: "\<not> locks_wlocked (d_locks e) p"
    using assms(4) by (auto simp: locks_wlocked_def lock_view_def)
  note lv = locks_rlock_view [OF lwf nw assms(5)]
  show "lock_view (locks_rlock (d_locks e) p) = (lock_view (d_locks e))(p := snd (spec_rlock (lock_view (d_locks e) p)))"
    by (rule lv(2))
  have "\<not> locks_block_wlocked (locks_rlock (d_locks e) p)" if "\<not> locks_block_wlocked (d_locks e)"
    using that assms(4) lwf lv
    by (auto simp: spec_rlock_def locks_block_wlocked_view split: rwlock.splits if_splits)
  with assms lv(1) show "entry_wf (e \<lparr> d_locks := locks_rlock (d_locks e) p \<rparr>)"
    by (auto simp: entry_wf_def locks_in_ops) (auto simp: locks_rlock_def split: option.splits)
qed

lemma entry_wf_wlock:
  assumes "entry_wf e" "TOBLOCK p = d_addr e" "d_state e = DIR_UNSHARED"
  shows "entry_wf (e \<lparr> d_locks := locks_wlock (d_locks e) p \<rparr>)"
  using assms locks_wlock_view(1) [of "d_locks e" p]
  by (auto simp: entry_wf_def locks_in_ops) (simp add: locks_wlock_def)

text \<open>The two ways a lock request finds the directory: no entry, or an entry.\<close>

lemma dir_lock_new:
  assumes "dir_wf d" "d (TOBLOCK p) = None" "0 < v" "v \<le> EXCLUSIVE_LOCK_TAG"
  defines "e \<equiv> new_DirEntry (TOBLOCK p) \<lparr> d_locks := [(p, v)] \<rparr>"
  shows "dir_wf (put_entry e d)"
    and "dir_view (put_entry e d) = (dir_view d)(p := if v = EXCLUSIVE_LOCK_TAG then Writer else Readers (nat v))"
    and "dir_view d p = Free"
proof -
  have "entry_wf e"
    using assms by (simp add: e_def entry_wf_def new_DirEntry_def locks_wf_def locks_in_def)
  then show "dir_wf (put_entry e d)" by (rule dir_wf_put [OF assms(1)])
  show "dir_view (put_entry e d) = (dir_view d)(p := if v = EXCLUSIVE_LOCK_TAG then Writer else Readers (nat v))"
    by (rule dir_view_new [of d p, OF assms(2)]) (auto simp: e_def new_DirEntry_def lock_view_def)
  show "dir_view d p = Free" by (simp add: dir_view_def assms(2))
qed

lemma dir_RLock_ok:
  assumes "dir_wf d" "dir_rready d p"
  shows "dir_wf (snd (dir_RLock d p)) \<and> fst (dir_RLock d p) = fst (spec_rlock (dir_view d p)) \<and>
      dir_view (snd (dir_RLock d p)) = (dir_view d)(p := snd (spec_rlock (dir_view d p)))"
proof (cases "d (TOBLOCK p)")
  case None
  show ?thesis
    using dir_lock_new [OF assms(1) None, of 1] None
    by (simp add: dir_RLock_def dir_GetEntry_def TOBLOCK_idem Let_def spec_rlock_def EXCLUSIVE_LOCK_TAG_def)
next
  case (Some e)
  have key: "TOBLOCK p = d_addr e" and wf: "entry_wf e" using dir_wfD [OF assms(1) Some] by auto
  have v: "dir_view d p = lock_view (d_locks e) p" by (simp add: dir_view_def Some)
  have r: "dir_RLock d p = dir_RLock_entry e p d"
    using Some by (simp add: dir_RLock_def dir_GetEntry_def TOBLOCK_idem Let_def)
  note w = dir_wlocked_iff(1) [OF assms(1) Some]
  show ?thesis
  proof (cases "lock_view (d_locks e) p = Writer")
    case True
    then show ?thesis using assms(1) v
      by (auto simp: r dir_RLock_entry_def w spec_rlock_def fun_eq_iff)
  next
    case False
    have "d_state e \<in> {DIR_UNSHARED, DIR_SHARED}" "lock_view (d_locks e) p \<noteq> Readers 254"
      using assms(2) Some v by (cases "d_state e"; simp add: dir_rready_def dir_query_def)+
    note e' = entry_wf_rlock [OF wf key this(1) False this(2)]
    have "dir_view (put_entry (e \<lparr> d_locks := locks_rlock (d_locks e) p \<rparr>) d)
        = (dir_view d)(p := snd (spec_rlock (dir_view d p)))"
      by (rule dir_view_upd [of d p, OF Some]) (simp_all add: key e'(2) v)
    then show ?thesis
      using False v e'(1)
      by (auto simp: r dir_RLock_entry_def w dir_wf_put [OF assms(1)] spec_rlock_def split: rwlock.split)
  qed
qed

lemma dir_WLock_ok:
  assumes "dir_wf d" "dir_wready d p"
  shows "dir_wf (snd (dir_WLock d p)) \<and> fst (dir_WLock d p) = fst (spec_wlock (dir_view d p)) \<and>
      dir_view (snd (dir_WLock d p)) = (dir_view d)(p := snd (spec_wlock (dir_view d p)))"
proof (cases "d (TOBLOCK p)")
  case None
  show ?thesis
    using dir_lock_new [OF assms(1) None, of EXCLUSIVE_LOCK_TAG] None
    by (simp add: dir_WLock_def dir_GetEntry_def TOBLOCK_idem Let_def spec_wlock_def EXCLUSIVE_LOCK_TAG_def)
next
  case (Some e)
  have key: "TOBLOCK p = d_addr e" and wf: "entry_wf e" using dir_wfD [OF assms(1) Some] by auto
  have v: "dir_view d p = lock_view (d_locks e) p" by (simp add: dir_view_def Some)
  have r: "dir_WLock d p = dir_WLock_entry e p d"
    using Some by (simp add: dir_WLock_def dir_GetEntry_def TOBLOCK_idem Let_def)
  note w = dir_wlocked_iff [OF assms(1) Some]
  show ?thesis
  proof (cases "lock_view (d_locks e) p = Free")
    case False
    then show ?thesis using assms(1) v
      by (cases "lock_view (d_locks e) p") (auto simp: r dir_WLock_entry_def w spec_wlock_def fun_eq_iff)
  next
    case True
    have "d_state e = DIR_UNSHARED"
      using assms(2) Some by (simp add: dir_wready_def dir_query_def)
    note e' = entry_wf_wlock [OF wf key this]
    have "dir_view (put_entry (e \<lparr> d_locks := locks_wlock (d_locks e) p \<rparr>) d) = (dir_view d)(p := Writer)"
      using wf by (intro dir_view_upd [of d p, OF Some]) (simp_all add: key locks_wlock_view(2) entry_wf_def)
    then show ?thesis
      using True v e' by (simp add: r dir_WLock_entry_def w dir_wf_put [OF assms(1)] spec_wlock_def)
  qed
qed

lemma lock_view_Nil: "lock_view [] = (\<lambda>_. Free)"
  by (simp add: lock_view_def fun_eq_iff)

lemma entry_wf_release:
  assumes "entry_wf e" "TOBLOCK p = d_addr e" "map_of (d_locks e) p = Some n"
  defines "ls \<equiv> locks_put (d_locks e) p (if n = EXCLUSIVE_LOCK_TAG then 0 else n - 1)"
  assumes "\<not> (d_state e = DIR_UNSHARED \<and> ls = [])"
  shows "entry_wf (e \<lparr> d_locks := ls \<rparr>)"
proof -
  have lwf: "locks_wf (d_locks e)" using assms(1) by (simp add: entry_wf_def)
  note lv = locks_release_view [OF lwf assms(3), folded ls_def]
  have "\<not> locks_block_wlocked ls" if "\<not> locks_block_wlocked (d_locks e)"
    using that lwf lv
    by (auto simp: spec_unlock_def locks_block_wlocked_view split: rwlock.splits if_splits)
  with assms(1-3,5) lv(1) show ?thesis
    by (auto simp: entry_wf_def locks_in_ops ls_def split: DirState.splits)
qed

lemma dir_UnLock_ok:
  assumes "dir_wf d" "dir_uready d p"
  shows "dir_wf (dir_UnLock d p) \<and> dir_view (dir_UnLock d p) = (dir_view d)(p := spec_unlock (dir_view d p))"
proof -
  obtain e where e: "d (TOBLOCK p) = Some e"
    using assms(2) by (auto simp: dir_uready_def dir_view_def split: option.splits)
  have key: "TOBLOCK p = d_addr e" and wf: "entry_wf e" using dir_wfD [OF assms(1) e] by auto
  have lwf: "locks_wf (d_locks e)" using wf by (simp add: entry_wf_def)
  have v: "dir_view d p = lock_view (d_locks e) p" by (simp add: dir_view_def e)
  obtain n where n: "map_of (d_locks e) p = Some n"
    using assms(2) v by (auto simp: dir_uready_def lock_view_def split: option.splits)
  have wl: "dir_IsWLocked_entry (Some e) p \<longleftrightarrow> n = EXCLUSIVE_LOCK_TAG"
    using dir_wlocked_iff(1) [OF assms(1) e] n by (simp add: lock_view_def)
  let ?ls = "locks_put (d_locks e) p (if n = EXCLUSIVE_LOCK_TAG then 0 else n - 1)"
  let ?e = "e \<lparr> d_locks := ?ls \<rparr>"
  note lv = locks_release_view [OF lwf n]
  have u: "dir_UnLock d p = (if d_state e = DIR_UNSHARED \<and> ?ls = [] then erase_entry ?e d else put_entry ?e d)"
    by (simp add: dir_UnLock_def dir_UnLock_entry_def e n wl Let_def)
  show ?thesis
  proof (cases "d_state e = DIR_UNSHARED \<and> ?ls = []")
    case True
    then have "(lock_view (d_locks e))(p := spec_unlock (lock_view (d_locks e) p)) = (\<lambda>_. Free)"
      using lv(2) by (simp only: lock_view_Nil)
    from dir_view_erase [of d p e, OF e key [symmetric] this]
    show ?thesis
      using True by (simp add: u v dir_wf_erase [OF assms(1)]) (simp add: erase_entry_def)
  next
    case False
    have "entry_wf ?e" by (rule entry_wf_release [OF wf key n]) (use False in blast)
    moreover have "dir_view (put_entry ?e d) = (dir_view d)(p := spec_unlock (lock_view (d_locks e) p))"
      by (rule dir_view_upd [of d p, OF e]) (simp_all add: key lv(2))
    ultimately show ?thesis
      unfolding u if_not_P [OF False] v by (simp add: dir_wf_put [OF assms(1)])
  qed
qed

interpretation dirlock: rw_lock dir_wf dir_view dir_rready dir_wready dir_uready dir_RLock dir_WLock dir_UnLock
  by unfold_locales (use dir_RLock_ok dir_WLock_ok dir_UnLock_ok in blast)+

subsection \<open>Sharing operations leave the locks alone\<close>


subsection \<open>Reachable directories\<close>







subsection \<open>Properties\<close>




text \<open>
  C11: the well-formedness of the directory, entry by entry: the sharer list, the lock
  table and the state agree (one owner in \<open>DIR_DIRTY\<close> and \<open>DIR_TO_SHARED\<close>, no lock on
  an owned block, no exclusive lock on a shared one), no worker is listed twice, and
  an entry that nobody shares or locks does not exist. Every operation called under its
  condition keeps it.
\<close>

theorem directory_operations_keep_invariant:
  assumes "dir_wf d" "dir_guard p d"
  shows "dir_wf (dir_exec p d)"
proof (cases "is_lock_op p")
  case False
  with sharing_op_wf [OF assms] show ?thesis .
next
  case True
  with assms(2) show ?thesis
    by (cases p) (simp_all add: dirlock.rlock_inv [OF assms(1)] dirlock.wlock_inv [OF assms(1)]
        dirlock.unlock_inv [OF assms(1)])
qed

theorem directory_operations_keep_invariant_witness:
  "dir_wf (dir_exec (OpToDirty 0x3000 0x2000000001000) Map.empty) \<and>
   dir_wf (dir_exec (OpToToShared 0x3000) (dir_exec (OpToDirty 0x3000 0x2000000001000 :: nat dir_op) Map.empty))"
proof -
  let ?d = "dir_exec (OpToDirty 0x3000 0x2000000001000 :: nat dir_op) Map.empty"
  have 1: "dir_wf ?d"
    by (rule directory_operations_keep_invariant) (simp_all add: dir_GetState_ptr_def dir_IsBlockLocked_def)
  have "dir_guard (OpToToShared 0x3000) ?d"
    by (simp add: dir_GetState_ptr_def dir_ToDirty_def dir_GetEntry_def put_entry_def new_DirEntry_def Let_def)
  from directory_operations_keep_invariant [OF 1 this] 1 show ?thesis by simp
qed

text \<open>
  C14: the three lock operations of the directory behave as an abstract readers-writer
  lock per address: \<open>RLock\<close> fails exactly against a writer, \<open>WLock\<close> exactly against
  anybody, a release undoes one acquisition, and locks on other addresses are
  untouched. The condition excludes the 254th reader and blocks in transition.
\<close>

theorem directory_lock_refines_rwlock:
  assumes "dir_wf d"
  shows "(dir_rready d p \<longrightarrow> fst (dir_RLock d p) = fst (spec_rlock (dir_view d p)) \<and>
        dir_view (snd (dir_RLock d p)) = (dir_view d)(p := snd (spec_rlock (dir_view d p))))
    \<and> (dir_wready d p \<longrightarrow> fst (dir_WLock d p) = fst (spec_wlock (dir_view d p)) \<and>
        dir_view (snd (dir_WLock d p)) = (dir_view d)(p := snd (spec_wlock (dir_view d p))))
    \<and> (dir_uready d p \<longrightarrow> dir_view (dir_UnLock d p) = (dir_view d)(p := spec_unlock (dir_view d p)))"
  using dirlock.rlock_view [OF assms] dirlock.wlock_view [OF assms] dirlock.unlock_view [OF assms] by blast

theorem directory_lock_refines_rwlock_witness:
  "dir_wf Map.empty \<and> dir_rready Map.empty 0x1008 \<and>
   dir_view (snd (dir_RLock Map.empty 0x1008)) = (dir_view Map.empty)(0x1008 := Readers 1)"
proof -
  have "dir_rready Map.empty 0x1008"
    by (simp add: dir_rready_def dir_InTransition_ptr_def dir_GetState_ptr_def dir_view_def)
  with directory_lock_refines_rwlock [OF dir_wf_empty, of "0x1008"] show ?thesis
    by (simp add: dir_view_def spec_rlock_def)
qed

text \<open>
  C15: at the limit the reader count meets the tag of an exclusive lock. With 254 readers
  of an unshared block \<open>RLock\<close> still returns success, and leaves the address write
  locked, with nobody holding it for writing; only an \<open>epicAssert\<close> speaks about it.
\<close>

theorem directory_reader_overflow:
  assumes "dir_wf d" "d (TOBLOCK p) = Some e" "d_state e = DIR_UNSHARED" "dir_view d p = Readers 254"
  shows "fst (dir_RLock d p) = 0 \<and> dir_IsWLocked (snd (dir_RLock d p)) p"
proof -
  have key: "d_addr e = TOBLOCK p" using dir_wfD [OF assms(1,2)] by simp
  have v: "lock_view (d_locks e) p = Readers 254" using assms(2,4) by (simp add: dir_view_def)
  then have "\<not> dir_IsWLocked_entry (Some e) p" by (simp add: dir_wlocked_iff(1) [OF assms(1,2)])
  moreover have "map_of (locks_rlock (d_locks e) p) p = Some EXCLUSIVE_LOCK_TAG"
    using locks_rlock_at_limit [OF v] by (auto simp: lock_view_def split: option.splits if_splits)
  ultimately show ?thesis
    using assms(2,3) key
    by (simp add: dir_RLock_def dir_RLock_entry_def dir_GetEntry_def dir_IsWLocked_def
        dir_IsWLocked_entry_def put_entry_def Let_def)
qed

theorem directory_reader_overflow_witness:
  "\<exists>d e. dir_wf d \<and> d (TOBLOCK 0x1008) = Some e \<and> d_state e = DIR_UNSHARED \<and> dir_view d 0x1008 = Readers 254
     \<and> fst (dir_RLock d 0x1008) = 0 \<and> dir_IsWLocked (snd (dir_RLock d 0x1008)) 0x1008"
proof -
  let ?e = "new_DirEntry (TOBLOCK 0x1008) \<lparr> d_locks := [(0x1008, 254)] \<rparr>"
  let ?d = "put_entry ?e Map.empty"
  have 1: "dir_wf ?d" "dir_view ?d 0x1008 = Readers 254"
    using dir_lock_new(1,2) [OF dir_wf_empty, where p = "0x1008" and v = 254]
    by (simp_all add: EXCLUSIVE_LOCK_TAG_def)
  have 2: "?d (TOBLOCK 0x1008) = Some ?e" "d_state ?e = DIR_UNSHARED"
    by (simp_all add: put_entry_def new_DirEntry_def)
  from directory_reader_overflow [OF 1(1) 2 1(2)] 1 2 show ?thesis by blast
qed

end
