(* ===== verification/Work_Request.thy ===== *)
theory Work_Request
  imports GAddress "HOL-Library.Monad_Syntax"
begin

text \<open>
  Work requests (\<open>include/workrequest.h\<close>, \<open>src/workrequest.cc\<close>): the unit of work that
  application threads, workers and the master exchange, with its wire format
  (\<open>Ser\<close> and \<open>Deser\<close> over the integer encoding of \<open>include/chars.h\<close>). Pointers between
  requests are references into the worker's heap of requests. The build modelled is
  the shipped one: \<open>GFUNC_SUPPORT\<close>, without \<open>NOCACHE\<close>, \<open>SELECTIVE_CACHING\<close> and \<open>DHT\<close>.
\<close>

subsection \<open>Operation codes, status codes and flags\<close>

datatype Work =
    MALLOC | READ | FETCH_AND_SHARED | READ_FORWARD | WRITE | WRITE_PERMISSION_ONLY
  | FETCH_AND_INVALIDATE | INVALIDATE | INVALIDATE_FORWARD | WRITE_FORWARD
  | WRITE_PERMISSION_ONLY_FORWARD | ATOMIC | UPDATE_MEM_STATS | FETCH_MEM_STATS
  | BROADCAST_MEM_STATS | MFENCE | SFENCE | RLOCK | RLOCK_LEN | WLOCK | WLOCK_LEN
  | UNLOCK | UNLOCK_LEN | FREE | ACTIVE_INVALIDATE | WRITE_BACK | PENDING_INVALIDATE
  | PUT | GET | REPLY | MALLOC_REPLY | FETCH_MEM_STATS_REPLY | READ_REPLY | WRITE_REPLY
  | LOCK_REPLY | FREE_REPLY | GET_REPLY
  | Work_other "32 word"  \<comment> \<open>any other value of the underlying type\<close>

definition work_codes :: "(32 word \<times> Work) list" where
  "work_codes =
    [(1, MALLOC), (2, READ), (3, FETCH_AND_SHARED), (4, READ_FORWARD), (5, WRITE),
     (6, WRITE_PERMISSION_ONLY), (7, FETCH_AND_INVALIDATE), (8, INVALIDATE),
     (9, INVALIDATE_FORWARD), (10, WRITE_FORWARD), (11, WRITE_PERMISSION_ONLY_FORWARD),
     (12, ATOMIC), (13, UPDATE_MEM_STATS), (14, FETCH_MEM_STATS), (15, BROADCAST_MEM_STATS),
     (16, MFENCE), (17, SFENCE), (18, RLOCK), (19, RLOCK_LEN), (20, WLOCK), (21, WLOCK_LEN),
     (22, UNLOCK), (23, UNLOCK_LEN), (24, FREE), (25, ACTIVE_INVALIDATE), (26, WRITE_BACK),
     (27, PENDING_INVALIDATE), (28, PUT), (29, GET), (0x10000, REPLY), (0x10001, MALLOC_REPLY),
     (0x10002, FETCH_MEM_STATS_REPLY), (0x10003, READ_REPLY), (0x10004, WRITE_REPLY),
     (0x10005, LOCK_REPLY), (0x10006, FREE_REPLY), (0x10007, GET_REPLY)]"

fun work_code :: "Work \<Rightarrow> 32 word" where
  "work_code (Work_other c) = c"
| "work_code op = (case map_of (map (\<lambda>(c, w). (w, c)) work_codes) op of Some c \<Rightarrow> c | None \<Rightarrow> 0)"

definition work_of_code :: "32 word \<Rightarrow> Work" where
  "work_of_code c = (case map_of work_codes c of Some op \<Rightarrow> op | None \<Rightarrow> Work_other c)"

text \<open>\<open>op & REPLY\<close>\<close>

definition is_reply :: "Work \<Rightarrow> bool" where
  "is_reply op \<longleftrightarrow> bit (work_code op) 16"

abbreviation (input) SUCCESS :: "32 word" where "SUCCESS \<equiv> 0"
abbreviation (input) REMOTE_REQUEST :: "32 word" where "REMOTE_REQUEST \<equiv> 1"
abbreviation (input) IN_TRANSITION :: "32 word" where "IN_TRANSITION \<equiv> 2"
abbreviation (input) FENCE_PENDING :: "32 word" where "FENCE_PENDING \<equiv> 3"
abbreviation (input) READ_SUCCESS :: "32 word" where "READ_SUCCESS \<equiv> 4"
abbreviation (input) ERROR :: "32 word" where "ERROR \<equiv> 0x100"
abbreviation (input) ALLOC_ERROR :: "32 word" where "ALLOC_ERROR \<equiv> 0x101"
abbreviation (input) READ_ERROR :: "32 word" where "READ_ERROR \<equiv> 0x102"
abbreviation (input) WRITE_ERROR :: "32 word" where "WRITE_ERROR \<equiv> 0x103"
abbreviation (input) UNRECOGNIZED_OP :: "32 word" where "UNRECOGNIZED_OP \<equiv> 0x104"
abbreviation (input) LOCK_FAILED :: "32 word" where "LOCK_FAILED \<equiv> 0x105"
abbreviation (input) NOT_EXIST :: "32 word" where "NOT_EXIST \<equiv> 0x106"

text \<open>A flag \<open>1 << n\<close> is named by its position \<open>n\<close>.\<close>

abbreviation (input) REMOTE :: nat where "REMOTE \<equiv> 0"
abbreviation (input) RANDOM :: nat where "RANDOM \<equiv> 1"
abbreviation (input) CACHED :: nat where "CACHED \<equiv> 2"
abbreviation (input) ASYNC :: nat where "ASYNC \<equiv> 3"
abbreviation (input) REPEATED :: nat where "REPEATED \<equiv> 4"
abbreviation (input) REQUEST_DONE :: nat where "REQUEST_DONE \<equiv> 5"
abbreviation (input) LOCKED :: nat where "LOCKED \<equiv> 6"
abbreviation (input) TRY_LOCK :: nat where "TRY_LOCK \<equiv> 7"
abbreviation (input) TO_SERVE :: nat where "TO_SERVE \<equiv> 8"
abbreviation (input) ALIGNED :: nat where "ALIGNED \<equiv> 9"
abbreviation (input) COPY :: nat where "COPY \<equiv> 10"
abbreviation (input) LOCAL_REQUEST :: nat where "LOCAL_REQUEST \<equiv> 11"
abbreviation (input) FENCE :: nat where "FENCE \<equiv> 12"
abbreviation (input) NOT_CACHE :: nat where "NOT_CACHE \<equiv> 13"
abbreviation (input) GFUNC :: nat where "GFUNC \<equiv> 14"

subsection \<open>Registered functions\<close>

datatype GFunc = Incr | IncrDouble | GatherPagerank | ApplyPagerank | ScatterPagerank

definition gfuncs :: "GFunc list" where
  "gfuncs = [Incr, IncrDouble, GatherPagerank, ApplyPagerank, ScatterPagerank]"

fun index_from :: "32 word \<Rightarrow> 'a \<Rightarrow> 'a list \<Rightarrow> 32 word" where
  "index_from i g [] = -1"
| "index_from i g (f # fs) = (if f = g then i else index_from (i + 1) g fs)"

definition GetGFuncID :: "GFunc option \<Rightarrow> 32 word" where
  "GetGFuncID og = (case og of None \<Rightarrow> -1 | Some g \<Rightarrow> index_from 0 g gfuncs)"

text \<open>An id past the registered functions reads an empty slot of the table.\<close>

definition GetGFunc :: "32 word \<Rightarrow> GFunc option" where
  "GetGFunc gid =
     (if gid = -1 then None
      else if unat gid < length gfuncs then Some (gfuncs ! unat gid) else None)"

text \<open>\<open>Incr\<close> adds to the byte at the address; the other functions compute on doubles.\<close>

definition gf_Incr :: "ptr \<Rightarrow> 64 word \<Rightarrow> mem \<Rightarrow> mem" where
  "gf_Incr p arg m = m(p := (if arg = 0 then m p + 1 else m p + ucast arg))"

subsection \<open>The request\<close>

record WorkRequest =
  wr_id :: "32 word"
  wr_pid :: "32 word"
  wr_pwid :: "32 word"
  wr_op :: Work
  wr_addr :: "64 word"      \<comment> \<open>the union of \<open>key\<close>, \<open>addr\<close> and \<open>free\<close>\<close>
  wr_size :: "64 word"
  wr_status :: "32 word"
  wr_flag :: "32 word"
  wr_ptr :: ptr
  wr_fd :: int
  wr_notify_buf :: ptr
  wr_wid :: "32 word"
  wr_counter :: int
  wr_parent :: "nat option"
  wr_next :: "nat option"
  wr_dup :: "nat option"
  wr_is_cache_hit :: bool
  wr_gfunc :: "GFunc option"
  wr_arg :: "64 word"

definition new_WorkRequest :: WorkRequest where
  "new_WorkRequest =
     \<lparr> wr_id = 0, wr_pid = 0, wr_pwid = 0, wr_op = Work_other 0, wr_addr = 0, wr_size = 0,
       wr_status = 0, wr_flag = 0, wr_ptr = 0, wr_fd = 0, wr_notify_buf = 0, wr_wid = 0,
       wr_counter = 0, wr_parent = None, wr_next = None, wr_dup = None,
       wr_is_cache_hit = True, wr_gfunc = None, wr_arg = 0 \<rparr>"

definition flg :: "nat \<Rightarrow> WorkRequest \<Rightarrow> bool" where
  "flg n wr \<longleftrightarrow> bit (wr_flag wr) n"

definition set_flg :: "nat \<Rightarrow> WorkRequest \<Rightarrow> WorkRequest" where
  "set_flg n wr = wr \<lparr> wr_flag := set_bit n (wr_flag wr) \<rparr>"

text \<open>The copy constructor keeps everything but the flag \<open>LOCAL_REQUEST\<close>.\<close>

definition copy_WorkRequest :: "WorkRequest \<Rightarrow> WorkRequest" where
  "copy_WorkRequest wr = wr \<lparr> wr_flag := unset_bit LOCAL_REQUEST (wr_flag wr) \<rparr>"

definition eq_WorkRequest :: "WorkRequest \<Rightarrow> WorkRequest \<Rightarrow> bool" where
  "eq_WorkRequest a b \<longleftrightarrow>
     wr_addr a = wr_addr b \<and> wr_counter a = wr_counter b \<and> wr_fd a = wr_fd b \<and>
     wr_flag a = wr_flag b \<and> wr_id a = wr_id b \<and> wr_next a = wr_next b \<and> wr_op a = wr_op b \<and>
     wr_parent a = wr_parent b \<and> wr_pid a = wr_pid b \<and> wr_ptr a = wr_ptr b \<and>
     wr_pwid a = wr_pwid b \<and> wr_size a = wr_size b \<and> wr_status a = wr_status b \<and> wr_wid a = wr_wid b"

definition IsACopy :: "WorkRequest \<Rightarrow> bool" where
  "IsACopy wr \<longleftrightarrow> flg COPY wr \<and> wr_dup wr = None"

definition Reset :: "WorkRequest \<Rightarrow> WorkRequest" where
  "Reset wr = wr
     \<lparr> wr_id := 0, wr_pid := 0, wr_pwid := 0, wr_op := Work_other 0, wr_addr := 0, wr_size := 0,
       wr_status := 0, wr_flag := 0, wr_ptr := 0, wr_fd := 0, wr_notify_buf := 0, wr_wid := 0,
       wr_counter := 0, wr_parent := None, wr_next := None, wr_dup := None, wr_gfunc := None,
       wr_arg := 0, wr_is_cache_hit := True \<rparr>"

subsection \<open>Integers on the wire\<close>

datatype field = I32 "32 word" | I64 "64 word"

definition enc32 :: "32 word \<Rightarrow> byte list" where
  "enc32 w = [ucast w, ucast (drop_bit 8 w), ucast (drop_bit 16 w), ucast (drop_bit 24 w)]"

definition enc64 :: "64 word \<Rightarrow> byte list" where
  "enc64 w = enc32 (ucast w) @ enc32 (ucast (drop_bit 32 w))"

fun appendInteger :: "field list \<Rightarrow> byte list" where
  "appendInteger [] = []"
| "appendInteger (I32 w # fs) = enc32 w @ appendInteger fs"
| "appendInteger (I64 w # fs) = enc64 w @ appendInteger fs"

text \<open>Reading past the received bytes has no defined result: \<open>None\<close>.\<close>

definition join32 :: "byte \<Rightarrow> byte \<Rightarrow> byte \<Rightarrow> byte \<Rightarrow> 32 word" where
  "join32 a b c d = ucast a OR push_bit 8 (ucast b) OR push_bit 16 (ucast c) OR push_bit 24 (ucast d)"

fun read32 :: "byte list \<Rightarrow> (32 word \<times> byte list) option" where
  "read32 (a # b # c # d # bs) = Some (join32 a b c d, bs)"
| "read32 _ = None"

definition read64 :: "byte list \<Rightarrow> (64 word \<times> byte list) option" where
  "read64 bs = do { (lo, bs) \<leftarrow> read32 bs; (hi, bs) \<leftarrow> read32 bs; Some (ucast lo OR push_bit 32 (ucast hi), bs) }"

subsection \<open>Serialisation\<close>

text \<open>
  \<open>Ser wr data\<close> is the \<open>len\<close> bytes written to the buffer. \<open>data\<close> is what \<open>wr->ptr\<close> points at
  for the operations that send it: the string of \<open>FETCH_MEM_STATS_REPLY\<close> and
  \<open>BROADCAST_MEM_STATS\<close> without its final \<open>'\\0'\<close>, the \<open>size\<close> bytes of \<open>PUT\<close> and \<open>GET_REPLY\<close>.
\<close>

definition Ser :: "WorkRequest \<Rightarrow> byte list \<Rightarrow> byte list" where
  "Ser wr data =
     (let lop = I32 (work_code (wr_op wr)); i = I32 (wr_id wr); w = I32 (wr_wid wr);
          a = I64 (wr_addr wr); s = I64 (wr_size wr); p = I64 (wr_ptr wr); f = I32 (wr_flag wr);
          st = I32 (wr_status wr)
      in case wr_op wr of
        UPDATE_MEM_STATS \<Rightarrow> appendInteger [lop, w, s, a]
      | FETCH_MEM_STATS_REPLY \<Rightarrow> appendInteger [lop, s] @ data
      | BROADCAST_MEM_STATS \<Rightarrow> appendInteger [lop, s] @ data
      | GET \<Rightarrow> appendInteger [lop, i, w, a]
      | PUT \<Rightarrow> appendInteger [lop, i, w, a, s] @ data
      | GET_REPLY \<Rightarrow> appendInteger [lop, i, w, a, s] @ data
      | FETCH_MEM_STATS \<Rightarrow> appendInteger [lop, w]
      | MALLOC \<Rightarrow> appendInteger [lop, i, w, s, f]
      | MALLOC_REPLY \<Rightarrow> appendInteger [lop, i, w, a, st]
      | FREE \<Rightarrow> appendInteger [lop, i, w, a]
      | WRITE \<Rightarrow> appendInteger [lop, i, w, a, s, p, f, I32 (GetGFuncID (wr_gfunc wr)), I64 (wr_arg wr)]
      | WRITE_PERMISSION_ONLY \<Rightarrow>
          appendInteger [lop, i, w, a, s, p, f, I32 (GetGFuncID (wr_gfunc wr)), I64 (wr_arg wr)]
      | READ \<Rightarrow> appendInteger [lop, i, w, a, s, p, f]
      | FETCH_AND_SHARED \<Rightarrow> appendInteger [lop, i, w, a, s, p, f]
      | FETCH_AND_INVALIDATE \<Rightarrow> appendInteger [lop, i, w, a, s, p, f]
      | INVALIDATE \<Rightarrow> appendInteger [lop, i, w, a, s, p, f]
      | READ_FORWARD \<Rightarrow> appendInteger [lop, i, w, a, s, p, f, I32 (wr_pid wr), I32 (wr_pwid wr)]
      | WRITE_FORWARD \<Rightarrow> appendInteger [lop, i, w, a, s, p, f, I32 (wr_pid wr), I32 (wr_pwid wr)]
      | INVALIDATE_FORWARD \<Rightarrow> appendInteger [lop, i, w, a, s, p, f, I32 (wr_pid wr), I32 (wr_pwid wr)]
      | WRITE_PERMISSION_ONLY_FORWARD \<Rightarrow>
          appendInteger [lop, i, w, a, s, p, f, I32 (wr_pid wr), I32 (wr_pwid wr)]
      | READ_REPLY \<Rightarrow> appendInteger [lop, i, w, st]
      | WRITE_REPLY \<Rightarrow> appendInteger [lop, i, w, st, I32 (word_of_int (wr_counter wr))]
      | ACTIVE_INVALIDATE \<Rightarrow> appendInteger [lop, i, w, a, p]
      | WRITE_BACK \<Rightarrow> appendInteger [lop, i, w, a, p]
      | _ \<Rightarrow> [])"

text \<open>The reads that several operations share.\<close>

definition get_id_wid :: "WorkRequest \<Rightarrow> byte list \<Rightarrow> (WorkRequest \<times> byte list) option" where
  "get_id_wid wr bs = do {
     (i, bs) \<leftarrow> read32 bs; (w, bs) \<leftarrow> read32 bs; Some (wr \<lparr> wr_id := i, wr_wid := w \<rparr>, bs) }"

definition get_addr :: "WorkRequest \<Rightarrow> byte list \<Rightarrow> (WorkRequest \<times> byte list) option" where
  "get_addr wr bs = do { (a, bs) \<leftarrow> read64 bs; Some (wr \<lparr> wr_addr := a \<rparr>, bs) }"

definition get_size :: "WorkRequest \<Rightarrow> byte list \<Rightarrow> (WorkRequest \<times> byte list) option" where
  "get_size wr bs = do { (s, bs) \<leftarrow> read64 bs; Some (wr \<lparr> wr_size := s \<rparr>, bs) }"

definition get_ptr :: "WorkRequest \<Rightarrow> byte list \<Rightarrow> (WorkRequest \<times> byte list) option" where
  "get_ptr wr bs = do { (p, bs) \<leftarrow> read64 bs; Some (wr \<lparr> wr_ptr := p \<rparr>, bs) }"

definition get_flag :: "WorkRequest \<Rightarrow> byte list \<Rightarrow> (WorkRequest \<times> byte list) option" where
  "get_flag wr bs = do { (f, bs) \<leftarrow> read32 bs; Some (wr \<lparr> wr_flag := f \<rparr>, bs) }"

definition get_status :: "WorkRequest \<Rightarrow> byte list \<Rightarrow> (WorkRequest \<times> byte list) option" where
  "get_status wr bs = do { (s, bs) \<leftarrow> read32 bs; Some (wr \<lparr> wr_status := s \<rparr>, bs) }"

definition get_block_req :: "WorkRequest \<Rightarrow> byte list \<Rightarrow> (WorkRequest \<times> byte list) option" where
  "get_block_req wr bs = do {
     (wr, bs) \<leftarrow> get_id_wid wr bs; (wr, bs) \<leftarrow> get_addr wr bs; (wr, bs) \<leftarrow> get_size wr bs;
     (wr, bs) \<leftarrow> get_ptr wr bs; get_flag wr bs }"

definition get_gfunc_req :: "WorkRequest \<Rightarrow> byte list \<Rightarrow> (WorkRequest \<times> byte list) option" where
  "get_gfunc_req wr bs = do {
     (wr, bs) \<leftarrow> get_block_req wr bs; (g, bs) \<leftarrow> read32 bs; (x, bs) \<leftarrow> read64 bs;
     Some (wr \<lparr> wr_gfunc := GetGFunc g, wr_arg := x \<rparr>, bs) }"

definition get_forward_req :: "WorkRequest \<Rightarrow> byte list \<Rightarrow> (WorkRequest \<times> byte list) option" where
  "get_forward_req wr bs = do {
     (wr, bs) \<leftarrow> get_block_req wr bs; (p, bs) \<leftarrow> read32 bs; (w, bs) \<leftarrow> read32 bs;
     Some (wr \<lparr> wr_pid := p, wr_pwid := w \<rparr>, bs) }"

text \<open>
  \<open>Deser buf bs wr\<close> reads the bytes at address \<open>buf\<close> into \<open>wr\<close> and returns it with the number
  of bytes consumed. A payload is not copied: \<open>wr_ptr\<close> points at it in the buffer.
\<close>

definition payload_at :: "ptr \<Rightarrow> byte list \<Rightarrow> byte list \<Rightarrow> nat \<Rightarrow> WorkRequest \<Rightarrow> WorkRequest \<times> nat" where
  "payload_at buf bs rest len wr =
     (wr \<lparr> wr_ptr := buf + of_nat (length bs - length rest) \<rparr>, len + (length bs - length rest))"

definition Deser :: "ptr \<Rightarrow> byte list \<Rightarrow> WorkRequest \<Rightarrow> (WorkRequest \<times> nat) option" where
  "Deser buf bs wr0 = do {
     (lop, p) \<leftarrow> read32 bs;
     let wr = wr0 \<lparr> wr_op := work_of_code lop \<rparr>;
     let fin = (\<lambda>(wr, rest). Some (wr, length bs - length rest));
     case wr_op wr of
       UPDATE_MEM_STATS \<Rightarrow> do {
         (w, p) \<leftarrow> read32 p; (wr, p) \<leftarrow> get_size (wr \<lparr> wr_wid := w \<rparr>) p; r \<leftarrow> get_addr wr p; fin r }
     | FETCH_MEM_STATS_REPLY \<Rightarrow> do {
         (wr, p) \<leftarrow> get_size wr p; Some (payload_at buf bs p (length (takeWhile (\<lambda>b. b \<noteq> 0) p)) wr) }
     | BROADCAST_MEM_STATS \<Rightarrow> do {
         (wr, p) \<leftarrow> get_size wr p; Some (payload_at buf bs p (length (takeWhile (\<lambda>b. b \<noteq> 0) p)) wr) }
     | GET \<Rightarrow> do { (wr, p) \<leftarrow> get_id_wid wr p; r \<leftarrow> get_addr wr p; fin r }
     | PUT \<Rightarrow> do {
         (wr, p) \<leftarrow> get_id_wid wr p; (wr, p) \<leftarrow> get_addr wr p; (wr, p) \<leftarrow> get_size wr p;
         Some (payload_at buf bs p (unat (wr_size wr)) wr) }
     | GET_REPLY \<Rightarrow> do {
         (wr, p) \<leftarrow> get_id_wid wr p; (wr, p) \<leftarrow> get_addr wr p; (wr, p) \<leftarrow> get_size wr p;
         Some (payload_at buf bs p (unat (wr_size wr)) wr) }
     | FETCH_MEM_STATS \<Rightarrow> do { (w, p) \<leftarrow> read32 p; fin (wr \<lparr> wr_wid := w \<rparr>, p) }
     | MALLOC \<Rightarrow> do {
         (wr, p) \<leftarrow> get_id_wid wr p; (wr, p) \<leftarrow> get_size wr p; r \<leftarrow> get_flag wr p; fin r }
     | MALLOC_REPLY \<Rightarrow> do {
         (wr, p) \<leftarrow> get_id_wid wr p; (wr, p) \<leftarrow> get_addr wr p; r \<leftarrow> get_status wr p; fin r }
     | FREE \<Rightarrow> do { (wr, p) \<leftarrow> get_id_wid wr p; r \<leftarrow> get_addr wr p; fin r }
     | WRITE \<Rightarrow> do { r \<leftarrow> get_gfunc_req wr p; fin r }
     | WRITE_PERMISSION_ONLY \<Rightarrow> do { r \<leftarrow> get_gfunc_req wr p; fin r }
     | READ \<Rightarrow> do { r \<leftarrow> get_block_req wr p; fin r }
     | FETCH_AND_SHARED \<Rightarrow> do { r \<leftarrow> get_block_req wr p; fin r }
     | FETCH_AND_INVALIDATE \<Rightarrow> do { r \<leftarrow> get_block_req wr p; fin r }
     | INVALIDATE \<Rightarrow> do { r \<leftarrow> get_block_req wr p; fin r }
     | READ_FORWARD \<Rightarrow> do { r \<leftarrow> get_forward_req wr p; fin r }
     | WRITE_FORWARD \<Rightarrow> do { r \<leftarrow> get_forward_req wr p; fin r }
     | INVALIDATE_FORWARD \<Rightarrow> do { r \<leftarrow> get_forward_req wr p; fin r }
     | WRITE_PERMISSION_ONLY_FORWARD \<Rightarrow> do { r \<leftarrow> get_forward_req wr p; fin r }
     | READ_REPLY \<Rightarrow> do { (wr, p) \<leftarrow> get_id_wid wr p; r \<leftarrow> get_status wr p; fin r }
     | WRITE_REPLY \<Rightarrow> do {
         (wr, p) \<leftarrow> get_id_wid wr p; (wr, p) \<leftarrow> get_status wr p; (c, p) \<leftarrow> read32 p;
         fin (wr \<lparr> wr_counter := sint c \<rparr>, p) }
     | ACTIVE_INVALIDATE \<Rightarrow> do { (wr, p) \<leftarrow> get_id_wid wr p; (wr, p) \<leftarrow> get_addr wr p; r \<leftarrow> get_ptr wr p; fin r }
     | WRITE_BACK \<Rightarrow> do { (wr, p) \<leftarrow> get_id_wid wr p; (wr, p) \<leftarrow> get_addr wr p; r \<leftarrow> get_ptr wr p; fin r }
     | _ \<Rightarrow> fin (wr, p) }"

subsection \<open>What each message carries\<close>

datatype wr_field = FId | FWid | FAddr | FSize | FPtr | FFlag | FStatus | FCounter | FPid | FPwid | FGfunc

fun same_field :: "WorkRequest \<Rightarrow> WorkRequest \<Rightarrow> wr_field \<Rightarrow> bool" where
  "same_field a b FId = (wr_id a = wr_id b)"
| "same_field a b FWid = (wr_wid a = wr_wid b)"
| "same_field a b FAddr = (wr_addr a = wr_addr b)"
| "same_field a b FSize = (wr_size a = wr_size b)"
| "same_field a b FPtr = (wr_ptr a = wr_ptr b)"
| "same_field a b FFlag = (wr_flag a = wr_flag b)"
| "same_field a b FStatus = (wr_status a = wr_status b)"
| "same_field a b FCounter = (wr_counter a = wr_counter b)"
| "same_field a b FPid = (wr_pid a = wr_pid b)"
| "same_field a b FPwid = (wr_pwid a = wr_pwid b)"
| "same_field a b FGfunc = (wr_gfunc a = wr_gfunc b \<and> wr_arg a = wr_arg b)"

text \<open>The fields the receiver of each operation works with; \<open>None\<close> is no wire operation.\<close>

fun wire_fields :: "Work \<Rightarrow> wr_field list option" where
  "wire_fields READ = Some [FId, FWid, FAddr, FSize, FPtr, FFlag]"
| "wire_fields FETCH_AND_SHARED = Some [FId, FWid, FAddr, FSize, FPtr, FFlag]"
| "wire_fields FETCH_AND_INVALIDATE = Some [FId, FWid, FAddr, FSize, FPtr, FFlag]"
| "wire_fields INVALIDATE = Some [FId, FWid, FAddr, FSize, FPtr, FFlag]"
| "wire_fields WRITE = Some [FId, FWid, FAddr, FSize, FPtr, FFlag, FGfunc]"
| "wire_fields WRITE_PERMISSION_ONLY = Some [FId, FWid, FAddr, FSize, FPtr, FFlag, FGfunc]"
| "wire_fields READ_FORWARD = Some [FId, FWid, FAddr, FSize, FPtr, FFlag, FPid, FPwid]"
| "wire_fields WRITE_FORWARD = Some [FId, FWid, FAddr, FSize, FPtr, FFlag, FPid, FPwid]"
| "wire_fields INVALIDATE_FORWARD = Some [FId, FWid, FAddr, FSize, FPtr, FFlag, FPid, FPwid]"
| "wire_fields WRITE_PERMISSION_ONLY_FORWARD = Some [FId, FWid, FAddr, FSize, FPtr, FFlag, FPid, FPwid]"
| "wire_fields READ_REPLY = Some [FId, FWid, FStatus]"
| "wire_fields WRITE_REPLY = Some [FId, FWid, FStatus, FCounter]"
| "wire_fields ACTIVE_INVALIDATE = Some [FId, FWid, FAddr, FPtr]"
| "wire_fields WRITE_BACK = Some [FId, FWid, FAddr, FPtr]"
| "wire_fields MALLOC = Some [FId, FWid, FSize, FFlag]"
| "wire_fields MALLOC_REPLY = Some [FId, FWid, FAddr, FStatus]"
| "wire_fields FREE = Some [FId, FWid, FAddr]"
| "wire_fields GET = Some [FId, FWid, FAddr]"
| "wire_fields PUT = Some [FId, FWid, FAddr, FSize]"
| "wire_fields GET_REPLY = Some [FId, FWid, FAddr, FSize]"
| "wire_fields UPDATE_MEM_STATS = Some [FWid, FSize, FAddr]"
| "wire_fields FETCH_MEM_STATS = Some [FWid]"
| "wire_fields FETCH_MEM_STATS_REPLY = Some [FSize]"
| "wire_fields BROADCAST_MEM_STATS = Some [FSize]"
| "wire_fields _ = None"

text \<open>The payload a request sends: nothing, a C string, or \<open>size\<close> bytes.\<close>

definition data_ok :: "WorkRequest \<Rightarrow> byte list \<Rightarrow> bool" where
  "data_ok wr data =
     (case wr_op wr of
        PUT \<Rightarrow> length data = unat (wr_size wr)
      | GET_REPLY \<Rightarrow> length data = unat (wr_size wr)
      | FETCH_MEM_STATS_REPLY \<Rightarrow> 0 \<notin> set data
      | BROADCAST_MEM_STATS \<Rightarrow> 0 \<notin> set data
      | _ \<Rightarrow> data = [])"

subsection \<open>Reading back what was written\<close>

lemma join32_bytes: "join32 (ucast w) (ucast (drop_bit 8 w)) (ucast (drop_bit 16 w)) (ucast (drop_bit 24 w)) = w"
  (is "?l = w")
proof (rule bit_word_eqI)
  fix n assume "n < LENGTH(32)"
  then consider "n < 8" | "8 \<le> n" "n < 16" | "16 \<le> n" "n < 24" | "24 \<le> n" "n < 32" by fastforce
  then show "bit ?l n = bit w n"
    by cases (auto simp: join32_def bit_simps)
qed

lemma read32_enc32 [simp]: "read32 (enc32 w @ bs) = Some (w, bs)"
  by (simp add: enc32_def join32_bytes)

lemma read64_enc64 [simp]: "read64 (enc64 w @ bs) = Some (w, bs)"
proof -
  have "ucast (ucast w :: 32 word) OR push_bit 32 (ucast (ucast (drop_bit 32 w) :: 32 word)) = w"
    by (rule bit_word_eqI) (auto simp: bit_simps)
  then show ?thesis by (simp add: read64_def enc64_def)
qed

lemma length_enc [simp]: "length (enc32 w) = 4" "length (enc64 v) = 8"
  by (simp_all add: enc32_def enc64_def)

lemma read_enc_Nil [simp]: "read32 (enc32 w) = Some (w, [])" "read64 (enc64 v) = Some (v, [])"
  using read32_enc32 [of w "[]"] read64_enc64 [of v "[]"] by simp_all

lemma GetGFunc_GetGFuncID [simp]: "GetGFunc (GetGFuncID g) = g"
proof (cases g)
  case (Some f)
  then show ?thesis by (cases f) (simp_all add: GetGFunc_def GetGFuncID_def gfuncs_def)
qed (simp add: GetGFunc_def GetGFuncID_def)

lemma work_of_code_work_code [simp]: "wire_fields op \<noteq> None \<Longrightarrow> work_of_code (work_code op) = op"
  by (cases op) (simp_all add: work_of_code_def work_codes_def)

lemma sint_word_of_int_32: "- (2 ^ 31) \<le> c \<Longrightarrow> c < 2 ^ 31 \<Longrightarrow> sint (word_of_int c :: 32 word) = c"
  by (simp add: int_word_sint)

lemmas reader_defs =
  get_id_wid_def get_addr_def get_size_def get_ptr_def get_flag_def get_status_def
  get_block_req_def get_gfunc_req_def get_forward_req_def

definition has_payload :: "Work \<Rightarrow> bool" where
  "has_payload op \<longleftrightarrow> op \<in> {PUT, GET_REPLY, FETCH_MEM_STATS_REPLY, BROADCAST_MEM_STATS}"

lemma takeWhile_data [simp]: "0 \<notin> set data \<Longrightarrow> takeWhile (\<lambda>b. b \<noteq> 0) (data @ 0 # rest) = data"
  by (induction data) auto

lemma drop_enc [simp]:
  "drop (4 + n) (enc32 w @ bs) = drop n bs" "drop (8 + n) (enc64 v @ bs) = drop n bs"
  by simp_all

lemma deser_ser:
  assumes "wire_fields (wr_op wr) = Some fs" "data_ok wr data"
    and "- (2 ^ 31) \<le> wr_counter wr" "wr_counter wr < 2 ^ 31"
  shows "\<exists>wr'. Deser buf (Ser wr data @ 0 # rest) wr0 = Some (wr', length (Ser wr data)) \<and>
      wr_op wr' = wr_op wr \<and> (\<forall>f \<in> set fs. same_field wr' wr f) \<and>
      (has_payload (wr_op wr) \<longrightarrow>
         take (length data) (drop (unat (wr_ptr wr' - buf)) (Ser wr data @ 0 # rest)) = data)"
proof -
  have "sint (word_of_int (wr_counter wr) :: 32 word) = wr_counter wr"
    using assms(3,4) by (rule sint_word_of_int_32)
  moreover have "work_of_code (work_code (wr_op wr)) = wr_op wr"
    using assms(1) by simp
  ultimately show ?thesis
    using assms(1,2)
    by (cases "wr_op wr")
      (auto simp: Deser_def Ser_def reader_defs Let_def data_ok_def payload_at_def has_payload_def)
qed

subsection \<open>Properties\<close>

text \<open>
  C18: every message of the protocol survives the wire. For each operation that \<open>Ser\<close>
  knows, \<open>Deser\<close> of the bytes, whatever follows the terminating zero in the buffer,
  returns a request with the same operation and the same value in every field the
  receiver works with, consumes exactly the bytes written, and points at the
  payload. The counter is an \<open>int\<close>.
\<close>

theorem ser_deser_roundtrip:
  assumes "wire_fields (wr_op wr) = Some fs" "data_ok wr data"
    and "- (2 ^ 31) \<le> wr_counter wr" "wr_counter wr < 2 ^ 31"
  shows "\<exists>wr'. Deser buf (Ser wr data @ 0 # rest) new_WorkRequest = Some (wr', length (Ser wr data)) \<and>
      wr_op wr' = wr_op wr \<and> (\<forall>f \<in> set fs. same_field wr' wr f) \<and>
      (has_payload (wr_op wr) \<longrightarrow>
         take (length data) (drop (unat (wr_ptr wr' - buf)) (Ser wr data @ 0 # rest)) = data)"
  using assms by (rule deser_ser)

definition sample_write_reply :: WorkRequest where
  "sample_write_reply = new_WorkRequest
     \<lparr> wr_op := WRITE_REPLY, wr_id := 7, wr_wid := 3, wr_status := LOCK_FAILED, wr_counter := -1 \<rparr>"

theorem ser_deser_roundtrip_witness:
  "wire_fields (wr_op sample_write_reply) = Some [FId, FWid, FStatus, FCounter] \<and> data_ok sample_write_reply [] \<and>
   (\<exists>wr'. Deser 0x5000 (Ser sample_write_reply [] @ 0 # [1]) new_WorkRequest = Some (wr', length (Ser sample_write_reply [])) \<and>
      wr_op wr' = WRITE_REPLY \<and> (\<forall>f \<in> set [FId, FWid, FStatus, FCounter]. same_field wr' sample_write_reply f))"
proof -
  have 1: "wire_fields (wr_op sample_write_reply) = Some [FId, FWid, FStatus, FCounter]"
    and 2: "data_ok sample_write_reply []"
    and 3: "- (2 ^ 31) \<le> wr_counter sample_write_reply" "wr_counter sample_write_reply < 2 ^ 31"
    and 4: "wr_op sample_write_reply = WRITE_REPLY"
    by (simp_all add: sample_write_reply_def new_WorkRequest_def data_ok_def)
  from ser_deser_roundtrip [OF 1 2 3, of "0x5000" "[1]"] 1 2 show ?thesis unfolding 4 by blast
qed

end
