(* ===== verification/Linked_List.thy ===== *)
theory Linked_List
  imports Main
begin

text \<open>
  Doubly linked lists over a next and a previous function, as the LRU lists of the
  cache and the free lists of the slab allocator are built.
\<close>

definition hd_opt :: "'a list \<Rightarrow> 'a option" where
  "hd_opt xs = (case xs of [] \<Rightarrow> None | x # _ \<Rightarrow> Some x)"

definition last_opt :: "'a list \<Rightarrow> 'a option" where
  "last_opt xs = (if xs = [] then None else Some (last xs))"

text \<open>
  \<open>dll n p q xs r\<close>: following \<open>n\<close> from the first of \<open>xs\<close> visits \<open>xs\<close> and arrives at \<open>r\<close>,
  following \<open>p\<close> from the last visits it backwards and arrives at \<open>q\<close>.
\<close>

fun dll :: "('a \<Rightarrow> 'a option) \<Rightarrow> ('a \<Rightarrow> 'a option) \<Rightarrow> 'a option \<Rightarrow> 'a list \<Rightarrow> 'a option \<Rightarrow> bool" where
  "dll n p q [] r = True"
| "dll n p q (x # xs) r \<longleftrightarrow> p x = q \<and> n x = (case xs of [] \<Rightarrow> r | y # _ \<Rightarrow> Some y) \<and> dll n p (Some x) xs r"

lemma hd_opt_simps [simp]: "hd_opt [] = None" "hd_opt (x # xs) = Some x"
  by (simp_all add: hd_opt_def)

lemma last_opt_simps [simp]: "last_opt [] = None" "last_opt (x # xs) = Some (if xs = [] then x else last xs)"
  "last_opt (xs @ [y]) = Some y"
  by (simp_all add: last_opt_def)

lemma dll_cong:
  "(\<And>x. x \<in> set xs \<Longrightarrow> n x = n' x \<and> p x = p' x) \<Longrightarrow> dll n p q xs r = dll n' p' q xs r"
  by (induction xs arbitrary: q) auto

lemma dll_append:
  "dll n p q (xs @ ys) r \<longleftrightarrow>
     dll n p q xs (if ys = [] then r else hd_opt ys) \<and> dll n p (if xs = [] then q else last_opt xs) ys r"
proof (induction xs arbitrary: q)
  case (Cons x xs)
  then show ?case by (cases xs; cases ys) auto
qed simp

lemma dll_upd [simp]:
  "a \<notin> set xs \<Longrightarrow> dll (n(a := v)) p q xs r = dll n p q xs r"
  "a \<notin> set xs \<Longrightarrow> dll n (p(a := v)) q xs r = dll n p q xs r"
  by (rule dll_cong; auto)+

lemma dll_set_prev:
  "dll n p q xs r \<Longrightarrow> distinct xs \<Longrightarrow> xs \<noteq> [] \<Longrightarrow> dll n (p(hd xs := q')) q' xs r"
  by (cases xs) auto

lemma dll_set_next:
  assumes "dll n p q xs r" "distinct xs" "xs \<noteq> []"
  shows "dll (n(last xs := r')) p q xs r'"
proof -
  obtain ys z where xs: "xs = ys @ [z]" using assms(3) by (cases xs rule: rev_cases) auto
  with assms(1,2) show ?thesis by (auto simp: dll_append)
qed

text \<open>Cutting \<open>a\<close> out: its neighbours are joined.\<close>

lemma dll_remove:
  assumes "dll n p q (xs @ a # ys) r" "distinct (xs @ a # ys)"
  defines "n' \<equiv> (case last_opt xs of None \<Rightarrow> n | Some b \<Rightarrow> n(b := n a))"
    and "p' \<equiv> (case hd_opt ys of None \<Rightarrow> p | Some b \<Rightarrow> p(b := p a))"
  shows "dll n' p' q (xs @ ys) r"
    and "n a = (if ys = [] then r else hd_opt ys)" and "p a = (if xs = [] then q else last_opt xs)"
proof -
  have x: "dll n p q xs (Some a)" and pa: "p a = (if xs = [] then q else last_opt xs)"
    and na: "n a = (if ys = [] then r else hd_opt ys)" and y: "dll n p (Some a) ys r"
    using assms(1) by (auto simp: dll_append hd_opt_def split: list.splits)
  have d: "distinct xs" "distinct ys" "set xs \<inter> set ys = {}" using assms(2) by auto
  have x': "dll n' p' q xs (n a)"
  proof (cases xs rule: rev_cases)
    case (snoc zs z)
    with x d have "dll (n(z := n a)) p q xs (n a)" by (auto simp: dll_append)
    moreover have "hd_opt ys = Some b \<Longrightarrow> b \<notin> set xs" for b using d by (cases ys) auto
    ultimately show ?thesis using snoc by (auto simp: n'_def p'_def split: option.splits)
  qed simp
  have y': "dll n' p' (p a) ys r"
  proof (cases ys)
    case (Cons z zs)
    with y d have "dll n (p(z := p a)) (p a) ys r" by auto
    moreover have "last_opt xs = Some b \<Longrightarrow> b \<notin> set ys" for b
      using d by (cases xs rule: rev_cases) auto
    ultimately show ?thesis using Cons by (auto simp: n'_def p'_def split: option.splits)
  qed simp
  show "dll n' p' q (xs @ ys) r"
    unfolding dll_append using x' y' by (simp only: na pa)
  show "n a = (if ys = [] then r else hd_opt ys)" "p a = (if xs = [] then q else last_opt xs)"
    by (rule na, rule pa)
qed

end
