(* ===== verification/Cache_Line.thy ===== *)
theory Cache_Line
  imports GAddress Lock_Table Linked_List
begin

text \<open>
  The cache of remote blocks (\<open>include/cache.h\<close>, \<open>src/cache.cc\<close>): cache lines, their
  states and locks, and the LRU lists that eviction picks from. A \<open>CacheLine*\<close> is the line
  stored under its block address, so the \<open>next\<close> and \<open>prev\<close> pointers, \<open>heads\<close> and \<open>tails\<close>
  are block addresses. \<open>c_rand\<close> is the sequence of values \<open>rand_r\<close> returns and \<open>c_busy\<close> the
  LRU locks that other threads hold when \<open>try_lock\<close> is called.
\<close>

definition LRU_NUM :: nat where "LRU_NUM = 10"

datatype CacheState =
    CACHE_NOT_EXIST | CACHE_INVALID | CACHE_SHARED | CACHE_DIRTY
  | CACHE_TO_INVALID | CACHE_TO_SHARED | CACHE_TO_DIRTY

record CacheLine =
  c_line :: ptr
  c_addr :: gaddr
  c_state :: CacheState
  c_locks :: locks
  c_next :: "gaddr option"
  c_prev :: "gaddr option"
  c_pos :: int

record Cache =
  caches :: "gaddr \<rightharpoonup> CacheLine"
  used_bytes :: int
  to_evicted :: int
  num_evict :: int
  num_request_send :: int
  max_cache_mem :: int
  heads :: "nat \<Rightarrow> gaddr option"
  tails :: "nat \<Rightarrow> gaddr option"
  c_rand :: "nat \<Rightarrow> nat"
  c_rpos :: nat
  c_busy :: "nat \<Rightarrow> bool"

definition new_CacheLine :: CacheLine where
  "new_CacheLine = \<lparr> c_line = 0, c_addr = 0, c_state = CACHE_INVALID, c_locks = [],
                     c_next = None, c_prev = None, c_pos = -1 \<rparr>"

text \<open>An assignment through a \<open>CacheLine*\<close>.\<close>

definition upd_line :: "gaddr \<Rightarrow> (CacheLine \<Rightarrow> CacheLine) \<Rightarrow> Cache \<Rightarrow> Cache" where
  "upd_line a f c = c \<lparr> caches := (caches c)(a := map_option f (caches c a)) \<rparr>"

subsection \<open>Queries\<close>

definition cache_GetCLine :: "Cache \<Rightarrow> gaddr \<Rightarrow> CacheLine option" where
  "cache_GetCLine c addr = caches c (TOBLOCK addr)"

definition cache_GetLine :: "Cache \<Rightarrow> gaddr \<Rightarrow> ptr" where
  "cache_GetLine c addr = (case caches c (TOBLOCK addr) of None \<Rightarrow> 0 | Some cl \<Rightarrow> c_line cl)"

definition cache_GetState :: "Cache \<Rightarrow> gaddr \<Rightarrow> CacheState" where
  "cache_GetState c addr = (case caches c (TOBLOCK addr) of None \<Rightarrow> CACHE_NOT_EXIST | Some cl \<Rightarrow> c_state cl)"

definition cache_InTransition :: "CacheState \<Rightarrow> bool" where
  "cache_InTransition s \<longleftrightarrow> s = CACHE_TO_DIRTY \<or> s = CACHE_TO_INVALID \<or> s = CACHE_TO_SHARED"

definition cache_IsWLocked :: "CacheLine \<Rightarrow> gaddr \<Rightarrow> bool" where
  "cache_IsWLocked cl addr \<longleftrightarrow> map_of (c_locks cl) addr = Some EXCLUSIVE_LOCK_TAG"

definition cache_IsRLocked :: "CacheLine \<Rightarrow> gaddr \<Rightarrow> bool" where
  "cache_IsRLocked cl addr =
     (case map_of (c_locks cl) addr of None \<Rightarrow> False | Some n \<Rightarrow> n \<noteq> EXCLUSIVE_LOCK_TAG)"

definition cache_IsBlockLocked :: "CacheLine \<Rightarrow> bool" where
  "cache_IsBlockLocked cl \<longleftrightarrow> length (c_locks cl) > 0"

definition cache_IsBlockWLocked :: "CacheLine \<Rightarrow> bool" where
  "cache_IsBlockWLocked cl \<longleftrightarrow> locks_block_wlocked (c_locks cl)"

subsection \<open>Locks\<close>

definition cache_RLock_line :: "CacheLine \<Rightarrow> gaddr \<Rightarrow> Cache \<Rightarrow> int \<times> Cache" where
  "cache_RLock_line cl addr c =
     (if cache_IsWLocked cl addr then (-1, c)
      else (0, upd_line (c_addr cl) (\<lambda>l. l \<lparr> c_locks := locks_rlock (c_locks l) addr \<rparr>) c))"

definition cache_RLock :: "Cache \<Rightarrow> gaddr \<Rightarrow> int \<times> Cache" where
  "cache_RLock c addr =
     (case caches c (TOBLOCK addr) of None \<Rightarrow> (-1, c) | Some cl \<Rightarrow> cache_RLock_line cl addr c)"

definition cache_WLock_line :: "CacheLine \<Rightarrow> gaddr \<Rightarrow> Cache \<Rightarrow> int \<times> Cache" where
  "cache_WLock_line cl addr c =
     (if cache_IsWLocked cl addr \<or> cache_IsRLocked cl addr then (-1, c)
      else (0, upd_line (c_addr cl) (\<lambda>l. l \<lparr> c_locks := locks_wlock (c_locks l) addr \<rparr>) c))"

definition cache_WLock :: "Cache \<Rightarrow> gaddr \<Rightarrow> int \<times> Cache" where
  "cache_WLock c addr =
     (case caches c (TOBLOCK addr) of None \<Rightarrow> (-1, c) | Some cl \<Rightarrow> cache_WLock_line cl addr c)"

text \<open>\<open>locks.at(addr)\<close> of an address that is not locked throws, and is caught.\<close>

definition cache_UnLock :: "Cache \<Rightarrow> gaddr \<Rightarrow> Cache" where
  "cache_UnLock c addr =
     (case caches c (TOBLOCK addr) of
        None \<Rightarrow> c
      | Some cl \<Rightarrow>
          (case map_of (c_locks cl) addr of
             None \<Rightarrow> c
           | Some n \<Rightarrow>
               upd_line (c_addr cl)
                 (\<lambda>l. l \<lparr> c_locks := locks_put (c_locks l) addr (if n = EXCLUSIVE_LOCK_TAG then 0 else n - 1) \<rparr>) c))"

subsection \<open>LRU lists\<close>

text \<open>\<open>GetRandom(0, n)\<close>\<close>

definition GetRandom :: "nat \<Rightarrow> Cache \<Rightarrow> nat \<times> Cache" where
  "GetRandom n c = (c_rand c (c_rpos c) mod n, c \<lparr> c_rpos := Suc (c_rpos c) \<rparr>)"

text \<open>The insertion at the head of list \<open>i\<close> that \<open>LinkLRU\<close> spells out three times.\<close>

definition lru_push :: "gaddr \<Rightarrow> nat \<Rightarrow> Cache \<Rightarrow> Cache" where
  "lru_push a i c =
     (let nxt = heads c i;
          c1 = upd_line a (\<lambda>l. l \<lparr> c_pos := int i, c_prev := None, c_next := nxt \<rparr>) c;
          c2 = (case nxt of None \<Rightarrow> c1 | Some b \<Rightarrow> upd_line b (\<lambda>l. l \<lparr> c_prev := Some a \<rparr>) c1);
          c3 = c2 \<lparr> heads := (heads c2)(i := Some a) \<rparr>
      in if tails c3 i = None then c3 \<lparr> tails := (tails c3)(i := Some a) \<rparr> else c3)"

text \<open>The first loop: up to \<open>n\<close> random lists, until one whose lock is free.\<close>

fun link_random :: "nat \<Rightarrow> Cache \<Rightarrow> nat option \<times> Cache" where
  "link_random 0 c = (None, c)"
| "link_random (Suc n) c =
     (case GetRandom LRU_NUM c of
        (i, c) \<Rightarrow> if \<not> c_busy c i then (Some i, c) else link_random n c)"

definition LinkLRU :: "gaddr \<Rightarrow> Cache \<Rightarrow> Cache" where
  "LinkLRU a c =
     (case link_random LRU_NUM c of
        (Some i, c) \<Rightarrow> lru_push a i c
      | (None, c) \<Rightarrow>
          (case find (\<lambda>i. \<not> c_busy c i) [0 ..< LRU_NUM] of
             Some i \<Rightarrow> lru_push a i c
           | None \<Rightarrow> (case GetRandom LRU_NUM c of (i, c) \<Rightarrow> lru_push a i c)))"

definition UnLinkLRU_at :: "gaddr \<Rightarrow> nat \<Rightarrow> Cache \<Rightarrow> Cache" where
  "UnLinkLRU_at a i c =
     (case caches c a of
        None \<Rightarrow> c
      | Some cl \<Rightarrow>
          (let c1 = (if heads c i = Some a then c \<lparr> heads := (heads c)(i := c_next cl) \<rparr> else c);
               c2 = (if tails c1 i = Some a then c1 \<lparr> tails := (tails c1)(i := c_prev cl) \<rparr> else c1);
               c3 = (case c_next cl of None \<Rightarrow> c2 | Some b \<Rightarrow> upd_line b (\<lambda>l. l \<lparr> c_prev := c_prev cl \<rparr>) c2);
               c4 = (case c_prev cl of None \<Rightarrow> c3 | Some b \<Rightarrow> upd_line b (\<lambda>l. l \<lparr> c_next := c_next cl \<rparr>) c3)
           in upd_line a (\<lambda>l. l \<lparr> c_next := None, c_prev := None \<rparr>) c4))"

definition UnLinkLRU :: "gaddr \<Rightarrow> Cache \<Rightarrow> Cache" where
  "UnLinkLRU a c =
     (case caches c a of
        None \<Rightarrow> c
      | Some cl \<Rightarrow>
          if c_pos cl \<noteq> -1
          then UnLinkLRU_at a (nat (c_pos cl)) (upd_line a (\<lambda>l. l \<lparr> c_pos := -1 \<rparr>) c)
          else c)"

subsection \<open>State changes\<close>

definition set_cstate :: "CacheState \<Rightarrow> gaddr \<Rightarrow> Cache \<Rightarrow> Cache" where
  "set_cstate s a c = upd_line a (\<lambda>l. l \<lparr> c_state := s \<rparr>) c"

definition cache_ToShared :: "gaddr \<Rightarrow> Cache \<Rightarrow> Cache" where
  "cache_ToShared a c =
     (case caches c a of
        None \<Rightarrow> c
      | Some cl \<Rightarrow> set_cstate CACHE_SHARED a (if c_state cl = CACHE_TO_SHARED then LinkLRU a c else c))"

definition cache_ToDirty :: "gaddr \<Rightarrow> Cache \<Rightarrow> Cache" where
  "cache_ToDirty a c =
     (case caches c a of None \<Rightarrow> c | Some cl \<Rightarrow> LinkLRU a (set_cstate CACHE_DIRTY a c))"

definition cache_ToToInvalid :: "gaddr \<Rightarrow> Cache \<Rightarrow> Cache" where
  "cache_ToToInvalid a c =
     (case caches c a of
        None \<Rightarrow> c
      | Some cl \<Rightarrow> (set_cstate CACHE_TO_INVALID a c) \<lparr> to_evicted := to_evicted c + 1 \<rparr>)"

definition cache_ToToShared :: "gaddr \<Rightarrow> Cache \<Rightarrow> Cache" where
  "cache_ToToShared a c = set_cstate CACHE_TO_SHARED a c"

definition cache_ToToDirty :: "gaddr \<Rightarrow> Cache \<Rightarrow> Cache" where
  "cache_ToToDirty a c = set_cstate CACHE_TO_DIRTY a c"

definition cache_UndoShared :: "gaddr \<Rightarrow> Cache \<Rightarrow> Cache" where
  "cache_UndoShared a c = set_cstate CACHE_SHARED a c"

text \<open>
  The cache's part of \<open>SetCLine(addr)\<close> for a block that is not cached, given the memory
  \<open>ptr\<close> the allocator returned, and of \<open>ToInvalid(cline)\<close>, whose memory goes back to it.
\<close>

definition cache_add :: "gaddr \<Rightarrow> ptr \<Rightarrow> Cache \<Rightarrow> Cache" where
  "cache_add a p c = c
     \<lparr> used_bytes := used_bytes c + uint BLOCK_SIZE,
       caches := (caches c)(a \<mapsto> new_CacheLine \<lparr> c_line := p, c_addr := a \<rparr>) \<rparr>"

definition cache_drop :: "gaddr \<Rightarrow> Cache \<Rightarrow> Cache" where
  "cache_drop a c =
     (case caches c a of
        None \<Rightarrow> c
      | Some cl \<Rightarrow>
          (let c1 = c \<lparr> used_bytes := used_bytes c - uint BLOCK_SIZE \<rparr>;
               c2 = (if c_state cl = CACHE_TO_INVALID then c1 \<lparr> to_evicted := to_evicted c1 - 1 \<rparr> else c1);
               c3 = UnLinkLRU a c2
           in c3 \<lparr> caches := (caches c3)(c_addr cl := None) \<rparr>))"

subsection \<open>The LRU lists as lists\<close>

definition nxt :: "Cache \<Rightarrow> gaddr \<Rightarrow> gaddr option" where
  "nxt c a = (case caches c a of None \<Rightarrow> None | Some l \<Rightarrow> c_next l)"

definition prv :: "Cache \<Rightarrow> gaddr \<Rightarrow> gaddr option" where
  "prv c a = (case caches c a of None \<Rightarrow> None | Some l \<Rightarrow> c_prev l)"

definition lpos :: "Cache \<Rightarrow> gaddr \<Rightarrow> int option" where
  "lpos c a = map_option c_pos (caches c a)"

definition lru_mem :: "gaddr \<Rightarrow> (nat \<Rightarrow> gaddr list) \<Rightarrow> bool" where
  "lru_mem a L \<longleftrightarrow> (\<exists>i. a \<in> set (L i))"

text \<open>
  The LRU structure of a cache represents the lists \<open>L\<close>: each is doubly linked from its
  head to its tail, \<open>pos\<close> of a linked line names its list, and a line outside every
  list has no neighbours.
\<close>

definition lru_wf :: "(nat \<Rightarrow> gaddr list) \<Rightarrow> Cache \<Rightarrow> bool" where
  "lru_wf L c \<longleftrightarrow>
     (\<forall>i. distinct (L i) \<and> dll (nxt c) (prv c) None (L i) None
        \<and> heads c i = hd_opt (L i) \<and> tails c i = last_opt (L i)
        \<and> (\<forall>a \<in> set (L i). i < LRU_NUM \<and> lpos c a = Some (int i)))
     \<and> (\<forall>a p. lpos c a = Some p \<longrightarrow> -1 \<le> p \<and> p < int LRU_NUM)
     \<and> (\<forall>a. \<not> lru_mem a L \<longrightarrow> nxt c a = None \<and> prv c a = None)"

text \<open>The lists without \<open>a\<close>, and with \<open>a\<close> at the head of list \<open>i\<close>.\<close>

definition lru_drop :: "gaddr \<Rightarrow> (nat \<Rightarrow> gaddr list) \<Rightarrow> nat \<Rightarrow> gaddr list" where
  "lru_drop a L = (\<lambda>i. removeAll a (L i))"

definition lru_cons :: "gaddr \<Rightarrow> nat \<Rightarrow> (nat \<Rightarrow> gaddr list) \<Rightarrow> nat \<Rightarrow> gaddr list" where
  "lru_cons a i L = L(i := a # L i)"

subsection \<open>Linking and unlinking refine the lists\<close>

lemma upd_line_simps [simp]:
  "caches (upd_line a f c) = (caches c)(a := map_option f (caches c a))"
  "heads (upd_line a f c) = heads c" "tails (upd_line a f c) = tails c"
  "used_bytes (upd_line a f c) = used_bytes c" "to_evicted (upd_line a f c) = to_evicted c"
  "c_busy (upd_line a f c) = c_busy c" "c_rand (upd_line a f c) = c_rand c" "c_rpos (upd_line a f c) = c_rpos c"
  "max_cache_mem (upd_line a f c) = max_cache_mem c" "num_evict (upd_line a f c) = num_evict c"
  "num_request_send (upd_line a f c) = num_request_send c"
  by (simp_all add: upd_line_def)

text \<open>Everything in a cache but the LRU lists and the random sequence.\<close>

definition strip :: "CacheLine \<Rightarrow> ptr \<times> gaddr \<times> CacheState \<times> locks" where
  "strip l = (c_line l, c_addr l, c_state l, c_locks l)"

definition cache_core :: "Cache \<Rightarrow> (gaddr \<rightharpoonup> ptr \<times> gaddr \<times> CacheState \<times> locks) \<times> int \<times> int \<times> int \<times> int \<times> int" where
  "cache_core c = (\<lambda>a. map_option strip (caches c a), used_bytes c, to_evicted c, max_cache_mem c,
     num_evict c, num_request_send c)"

lemma cache_core_upd: "(\<And>l. strip (f l) = strip l) \<Longrightarrow> cache_core (upd_line a f c) = cache_core c"
  by (auto simp: cache_core_def fun_eq_iff option.map_comp comp_def)

lemma cache_core_SomeD:
  assumes "cache_core c' = cache_core c" "caches c a = Some l"
  shows "\<exists>l'. caches c' a = Some l' \<and> strip l' = strip l"
proof -
  have "map_option strip (caches c' a) = map_option strip (caches c a)"
    using assms(1) by (simp add: cache_core_def fun_eq_iff)
  with assms(2) show ?thesis by auto
qed

lemma cache_core_NoneD: "cache_core c' = cache_core c \<Longrightarrow> caches c a = None \<longleftrightarrow> caches c' a = None"
  unfolding cache_core_def fun_eq_iff prod.inject by (metis map_option_is_None)

lemma cache_core_lru [simp]:
  "cache_core (c \<lparr> heads := h \<rparr>) = cache_core c" "cache_core (c \<lparr> tails := t \<rparr>) = cache_core c"
  "cache_core (c \<lparr> c_rpos := r \<rparr>) = cache_core c"
  by (simp_all add: cache_core_def)

lemma lru_push_effect:
  assumes "caches c a = Some cl" "heads c i \<noteq> Some a"
  shows "nxt (lru_push a i c) = (nxt c)(a := heads c i)"
    and "heads c i = None \<Longrightarrow> prv (lru_push a i c) = (prv c)(a := None)"
    and "heads c i = Some b \<Longrightarrow> caches c b \<noteq> None \<Longrightarrow> prv (lru_push a i c) = (prv c)(a := None, b := Some a)"
    and "heads (lru_push a i c) = (heads c)(i := Some a)"
    and "tails (lru_push a i c) = (if tails c i = None then (tails c)(i := Some a) else tails c)"
    and "lpos (lru_push a i c) = (lpos c)(a := Some (int i))"
    and "cache_core (lru_push a i c) = cache_core c"
proof -
  show "nxt (lru_push a i c) = (nxt c)(a := heads c i)"
    using assms by (auto simp: lru_push_def Let_def nxt_def fun_eq_iff split: option.splits)
  show "heads c i = None \<Longrightarrow> prv (lru_push a i c) = (prv c)(a := None)"
    using assms by (auto simp: lru_push_def Let_def prv_def fun_eq_iff split: option.splits)
  show "heads c i = Some b \<Longrightarrow> caches c b \<noteq> None \<Longrightarrow> prv (lru_push a i c) = (prv c)(a := None, b := Some a)"
    using assms by (auto simp: lru_push_def Let_def prv_def fun_eq_iff split: option.splits)
  show "heads (lru_push a i c) = (heads c)(i := Some a)"
    by (simp add: lru_push_def Let_def split: option.split)
  show "tails (lru_push a i c) = (if tails c i = None then (tails c)(i := Some a) else tails c)"
    by (auto simp: lru_push_def Let_def split: option.splits)
  show "lpos (lru_push a i c) = (lpos c)(a := Some (int i))"
    using assms by (auto simp: lru_push_def Let_def lpos_def fun_eq_iff option.map_comp comp_def split: option.splits)
  show "cache_core (lru_push a i c) = cache_core c"
    by (simp add: lru_push_def Let_def cache_core_upd strip_def split: option.split)
qed

lemma lru_wfD:
  assumes "lru_wf L c"
  shows "distinct (L i)" "dll (nxt c) (prv c) None (L i) None" "heads c i = hd_opt (L i)" "tails c i = last_opt (L i)"
    and "a \<in> set (L i) \<Longrightarrow> i < LRU_NUM \<and> lpos c a = Some (int i)"
    and "lpos c a = Some p \<Longrightarrow> -1 \<le> p \<and> p < int LRU_NUM"
    and "\<not> lru_mem a L \<Longrightarrow> nxt c a = None \<and> prv c a = None"
  using assms by (auto simp: lru_wf_def)

lemma lru_wf_unique:
  assumes "lru_wf L c" "a \<in> set (L i)" "a \<in> set (L j)" shows "i = j"
  using lru_wfD(5) [OF assms(1,2)] lru_wfD(5) [OF assms(1,3)] by auto

lemma lru_push_pointers:
  assumes wf: "lru_wf L c" and cl: "caches c a = Some cl" and new: "\<not> lru_mem a L"
  shows "heads c i \<noteq> Some a" and "nxt (lru_push a i c) = (nxt c)(a := hd_opt (L i))"
    and "prv (lru_push a i c) = (case L i of [] \<Rightarrow> (prv c)(a := None) | b # _ \<Rightarrow> (prv c)(a := None, b := Some a))"
proof -
  have "a \<notin> set (L i)" using new by (simp add: lru_mem_def)
  then show hne: "heads c i \<noteq> Some a"
    using lru_wfD(3) [OF wf, of i] by (cases "L i") auto
  note eff = lru_push_effect [OF cl hne]
  show "nxt (lru_push a i c) = (nxt c)(a := hd_opt (L i))" using eff(1) lru_wfD(3) [OF wf] by simp
  show "prv (lru_push a i c) = (case L i of [] \<Rightarrow> (prv c)(a := None) | b # _ \<Rightarrow> (prv c)(a := None, b := Some a))"
  proof (cases "L i")
    case (Cons b bs)
    then have "caches c b \<noteq> None" "heads c i = Some b"
      using lru_wfD(5) [OF wf, of b i] lru_wfD(3) [OF wf, of i] by (auto simp: lpos_def)
    then show ?thesis using eff(3) Cons by simp
  qed (use eff(2) lru_wfD(3) [OF wf, of i] in simp)
qed

lemma lru_push_wf:
  assumes wf: "lru_wf L c" and cl: "caches c a = Some cl" and new: "\<not> lru_mem a L" and i: "i < LRU_NUM"
  shows "lru_wf (lru_cons a i L) (lru_push a i c)"
proof -
  have notin: "a \<notin> set (L j)" for j using new by (simp add: lru_mem_def)
  note np = lru_push_pointers [OF wf cl new]
  note eff = lru_push_effect [OF cl np(1)]
  have other: "b \<notin> set (L j)" if "b \<in> set (L i)" "j \<noteq> i" for b j using lru_wf_unique [OF wf that(1)] that(2) by blast
  have d: "dll (nxt (lru_push a i c)) (prv (lru_push a i c)) None (lru_cons a i L j) None" for j
    using lru_wfD(1,2) [OF wf, of i] lru_wfD(2) [OF wf, of j] notin [of j] notin [of i] other [of _ j]
    by (cases "L i"; cases "j = i") (auto simp: lru_cons_def np)
  have out: "nxt (lru_push a i c) x = None \<and> prv (lru_push a i c) x = None" if "\<not> lru_mem x (lru_cons a i L)" for x
  proof -
    have "x \<notin> set (L i)" "x \<noteq> a" "\<not> lru_mem x L"
      using that by (auto simp: lru_mem_def lru_cons_def split: if_splits)
    then show ?thesis using lru_wfD(7) [OF wf, of x] by (cases "L i") (auto simp: np)
  qed
  show ?thesis
    unfolding lru_wf_def
  proof (intro conjI allI impI ballI)
    fix j
    show "distinct (lru_cons a i L j)" "heads (lru_push a i c) j = hd_opt (lru_cons a i L j)"
      "tails (lru_push a i c) j = last_opt (lru_cons a i L j)"
      using lru_wfD(1,3,4) [OF wf, of j] notin [of j]
      by (auto simp: lru_cons_def eff(4,5) last_opt_def split: if_splits)
  qed (use d out i notin lru_wfD(5,6) [OF wf] in \<open>auto simp: lru_cons_def eff(6) split: if_splits\<close>)
qed

lemma UnLinkLRU_at_effect:
  assumes "caches c a = Some cl"
    and "\<And>b. nxt c a = Some b \<Longrightarrow> b \<noteq> a \<and> caches c b \<noteq> None" "\<And>b. prv c a = Some b \<Longrightarrow> b \<noteq> a \<and> caches c b \<noteq> None"
  shows "nxt (UnLinkLRU_at a i c) = (case prv c a of None \<Rightarrow> nxt c | Some b \<Rightarrow> (nxt c)(b := nxt c a))(a := None)"
    and "prv (UnLinkLRU_at a i c) = (case nxt c a of None \<Rightarrow> prv c | Some b \<Rightarrow> (prv c)(b := prv c a))(a := None)"
    and "heads (UnLinkLRU_at a i c) = (if heads c i = Some a then (heads c)(i := nxt c a) else heads c)"
    and "tails (UnLinkLRU_at a i c) = (if tails c i = Some a then (tails c)(i := prv c a) else tails c)"
    and "lpos (UnLinkLRU_at a i c) = lpos c"
    and "cache_core (UnLinkLRU_at a i c) = cache_core c"
proof -
  have n: "nxt c a = c_next cl" "prv c a = c_prev cl" using assms(1) by (simp_all add: nxt_def prv_def)
  note ass = assms [unfolded n]
  show "nxt (UnLinkLRU_at a i c) = (case prv c a of None \<Rightarrow> nxt c | Some b \<Rightarrow> (nxt c)(b := nxt c a))(a := None)"
    "prv (UnLinkLRU_at a i c) = (case nxt c a of None \<Rightarrow> prv c | Some b \<Rightarrow> (prv c)(b := prv c a))(a := None)"
    "lpos (UnLinkLRU_at a i c) = lpos c"
    using ass unfolding n
    by (auto simp: UnLinkLRU_at_def Let_def nxt_def prv_def lpos_def fun_eq_iff option.map_comp comp_def split: option.splits)
  show "heads (UnLinkLRU_at a i c) = (if heads c i = Some a then (heads c)(i := nxt c a) else heads c)"
    "tails (UnLinkLRU_at a i c) = (if tails c i = Some a then (tails c)(i := prv c a) else tails c)"
    using ass unfolding n by (auto simp: UnLinkLRU_at_def Let_def split: option.split)
  show "cache_core (UnLinkLRU_at a i c) = cache_core c"
    by (simp add: UnLinkLRU_at_def assms(1) Let_def cache_core_upd strip_def split: option.split)
qed

text \<open>The neighbours of a linked line are linked lines of the same list.\<close>

lemma lru_neighbours:
  assumes "lru_wf L c" "L i = xs @ a # ys"
  shows "nxt c a = hd_opt ys" "prv c a = last_opt xs"
    "\<And>b. nxt c a = Some b \<Longrightarrow> b \<noteq> a \<and> caches c b \<noteq> None" "\<And>b. prv c a = Some b \<Longrightarrow> b \<noteq> a \<and> caches c b \<noteq> None"
proof -
  note d = lru_wfD(1,2) [OF assms(1), of i, unfolded assms(2)]
  show n: "nxt c a = hd_opt ys" and p: "prv c a = last_opt xs"
    using dll_remove(2,3) [OF d(2,1)] by (auto simp: last_opt_def)
  have cached: "caches c b \<noteq> None" if "b \<in> set (L i)" for b
    using lru_wfD(5) [OF assms(1) that] by (auto simp: lpos_def)
  show "b \<noteq> a \<and> caches c b \<noteq> None" if "nxt c a = Some b" for b
    using that d(1) cached [of b] assms(2) unfolding n by (cases ys) auto
  show "b \<noteq> a \<and> caches c b \<noteq> None" if "prv c a = Some b" for b
    using that d(1) cached [of b] assms(2) unfolding p by (cases xs rule: rev_cases) auto
qed

lemma UnLinkLRU_at_linked:
  assumes wf: "lru_wf L c" and li: "L i = xs @ a # ys" and cl: "caches c a = Some cl"
  shows "nxt (UnLinkLRU_at a i c) = (case last_opt xs of None \<Rightarrow> nxt c | Some b \<Rightarrow> (nxt c)(b := hd_opt ys))(a := None)"
    and "prv (UnLinkLRU_at a i c) = (case hd_opt ys of None \<Rightarrow> prv c | Some b \<Rightarrow> (prv c)(b := last_opt xs))(a := None)"
    and "heads (UnLinkLRU_at a i c) = (if heads c i = Some a then (heads c)(i := hd_opt ys) else heads c)"
    and "tails (UnLinkLRU_at a i c) = (if tails c i = Some a then (tails c)(i := last_opt xs) else tails c)"
    and "lpos (UnLinkLRU_at a i c) = lpos c"
proof -
  note nb = lru_neighbours [OF wf li]
  have n: "\<forall>b. nxt c a = Some b \<longrightarrow> b \<noteq> a \<and> caches c b \<noteq> None" and p: "\<forall>b. prv c a = Some b \<longrightarrow> b \<noteq> a \<and> caches c b \<noteq> None"
    using nb(3,4) by blast+
  note eff = UnLinkLRU_at_effect [OF cl n [rule_format] p [rule_format], of i]
  show "nxt (UnLinkLRU_at a i c) = (case last_opt xs of None \<Rightarrow> nxt c | Some b \<Rightarrow> (nxt c)(b := hd_opt ys))(a := None)"
    "prv (UnLinkLRU_at a i c) = (case hd_opt ys of None \<Rightarrow> prv c | Some b \<Rightarrow> (prv c)(b := last_opt xs))(a := None)"
    "heads (UnLinkLRU_at a i c) = (if heads c i = Some a then (heads c)(i := hd_opt ys) else heads c)"
    "tails (UnLinkLRU_at a i c) = (if tails c i = Some a then (tails c)(i := last_opt xs) else tails c)"
    "lpos (UnLinkLRU_at a i c) = lpos c"
    using eff(1-5) nb(1,2) by (simp_all only: simp_thms)
qed

lemma UnLinkLRU_at_wf:
  assumes wf: "lru_wf L c" and li: "L i = xs @ a # ys" and cl: "caches c a = Some cl"
  shows "lru_wf (lru_drop a L) (UnLinkLRU_at a i c)"
proof -
  note nb = lru_neighbours [OF wf li]
  note eff = UnLinkLRU_at_linked [OF wf li cl]
  note d = lru_wfD(1,2) [OF wf, of i, unfolded li]
  have Li: "lru_drop a L i = xs @ ys" using d(1) by (simp add: lru_drop_def li)
  have Lj: "lru_drop a L j = L j" if "j \<noteq> i" for j
    using lru_wf_unique [OF wf, of a i j] that li by (auto simp: lru_drop_def intro!: removeAll_id)
  have hd_in: "hd_opt ys = Some b \<Longrightarrow> b \<in> set (L i)" "last_opt xs = Some b \<Longrightarrow> b \<in> set (L i)" for b
    by (auto simp: li hd_opt_def last_opt_def split: list.splits if_splits)
  have "dll (nxt (UnLinkLRU_at a i c)) (prv (UnLinkLRU_at a i c)) None (lru_drop a L j) None" for j
  proof (cases "j = i")
    case True
    with dll_remove(1) [OF d(2,1), unfolded nb(1,2)] d(1) show ?thesis by (simp add: Li eff(1,2))
  next
    case False
    have "b \<notin> set (L j)" if "b \<in> set (L i)" for b using lru_wf_unique [OF wf that] False by blast
    then have "a \<notin> set (L j)" "\<And>b. hd_opt ys = Some b \<Longrightarrow> b \<notin> set (L j)" "\<And>b. last_opt xs = Some b \<Longrightarrow> b \<notin> set (L j)"
      using hd_in li by auto
    with lru_wfD(2) [OF wf, of j] show ?thesis
      by (auto simp: Lj [OF False] eff(1,2) split: option.split)
  qed
  moreover have "distinct (lru_drop a L j)" for j
    using lru_wfD(1) [OF wf, of j] by (simp add: lru_drop_def distinct_removeAll)
  moreover have "heads (UnLinkLRU_at a i c) j = hd_opt (lru_drop a L j)" for j
  proof (cases "j = i")
    case True
    have "heads c i = hd_opt (xs @ a # ys)" using lru_wfD(3) [OF wf, of i] li by simp
    then show ?thesis using True d(1) by (cases xs) (auto simp: Li eff(3))
  qed (simp add: Lj eff(3) lru_wfD(3) [OF wf])
  moreover have "tails (UnLinkLRU_at a i c) j = last_opt (lru_drop a L j)" for j
  proof (cases "j = i")
    case True
    have "tails c i = last_opt (xs @ a # ys)" using lru_wfD(4) [OF wf, of i] li by simp
    then show ?thesis using True d(1) by (cases ys rule: rev_cases) (auto simp: Li eff(4) last_opt_def)
  qed (simp add: Lj eff(4) lru_wfD(4) [OF wf])
  moreover have "nxt (UnLinkLRU_at a i c) x = None \<and> prv (UnLinkLRU_at a i c) x = None"
    if "\<not> lru_mem x (lru_drop a L)" for x
  proof (cases "x = a")
    case False
    with that have x: "\<not> lru_mem x L" by (auto simp: lru_mem_def lru_drop_def)
    then have "hd_opt ys \<noteq> Some x" "last_opt xs \<noteq> Some x" using hd_in by (auto simp: lru_mem_def)
    with False lru_wfD(7) [OF wf x] show ?thesis by (auto simp: eff(1,2) split: option.split)
  qed (simp add: eff(1,2))
  moreover have "x \<in> set (lru_drop a L j) \<Longrightarrow> x \<in> set (L j)" for x j
    by (simp add: lru_drop_def)
  ultimately show ?thesis
    using lru_wfD(5,6) [OF wf] unfolding lru_wf_def eff(5) by blast
qed

lemma lru_drop_id: "\<not> lru_mem a L \<Longrightarrow> lru_drop a L = L"
  by (auto simp: lru_drop_def lru_mem_def fun_eq_iff)

lemma not_lru_mem_drop [simp]: "\<not> lru_mem a (lru_drop a L)"
  by (simp add: lru_mem_def lru_drop_def)

lemma lru_wf_cong:
  assumes "lru_wf L c" "nxt c' = nxt c" "prv c' = prv c" "heads c' = heads c" "tails c' = tails c" "lpos c' = lpos c"
  shows "lru_wf L c'"
  using assms unfolding lru_wf_def by simp

text \<open>
  Cutting a line out of list \<open>i\<close>, whether it is in that list or, as after an
  eviction that left \<open>pos\<close> behind, in no list any more.
\<close>

lemma lru_links:
  assumes wf: "lru_wf L c"
  shows "\<forall>b. nxt c a = Some b \<longrightarrow> b \<noteq> a \<and> caches c b \<noteq> None" "\<forall>b. prv c a = Some b \<longrightarrow> b \<noteq> a \<and> caches c b \<noteq> None"
proof (atomize (full), cases "lru_mem a L")
  case True
  then obtain i xs ys where "L i = xs @ a # ys" unfolding lru_mem_def by (meson in_set_conv_decomp)
  with lru_neighbours(3,4) [OF wf this]
  show "(\<forall>b. nxt c a = Some b \<longrightarrow> b \<noteq> a \<and> caches c b \<noteq> None) \<and> (\<forall>b. prv c a = Some b \<longrightarrow> b \<noteq> a \<and> caches c b \<noteq> None)"
    by blast
qed (use lru_wfD(7) [OF wf] in auto)

lemma UnLinkLRU_at_any:
  assumes wf: "lru_wf L c" and cl: "caches c a = Some cl" and mem: "lru_mem a L \<Longrightarrow> a \<in> set (L i)"
  shows "lru_wf (lru_drop a L) (UnLinkLRU_at a i c)" "cache_core (UnLinkLRU_at a i c) = cache_core c"
    "lpos (UnLinkLRU_at a i c) = lpos c" "caches (UnLinkLRU_at a i c) a \<noteq> None"
proof -
  note eff = UnLinkLRU_at_effect [OF cl lru_links(1) [OF wf, rule_format] lru_links(2) [OF wf, rule_format], of i]
  show core: "cache_core (UnLinkLRU_at a i c) = cache_core c" by (rule eff(6))
  show "lpos (UnLinkLRU_at a i c) = lpos c" by (rule eff(5))
  show "caches (UnLinkLRU_at a i c) a \<noteq> None" using cache_core_NoneD [OF core, of a] cl by simp
  show "lru_wf (lru_drop a L) (UnLinkLRU_at a i c)"
  proof (cases "lru_mem a L")
    case True
    with mem obtain xs ys where "L i = xs @ a # ys" by (auto simp: in_set_conv_decomp)
    from UnLinkLRU_at_wf [OF wf this cl] show ?thesis .
  next
    case False
    then have "a \<notin> set (L i)" by (simp add: lru_mem_def)
    with False have out: "nxt c a = None" "prv c a = None" "heads c i \<noteq> Some a" "tails c i \<noteq> Some a"
      using lru_wfD(3,4) [OF wf, of i] lru_wfD(7) [OF wf False]
      by (auto simp: hd_opt_def last_opt_def split: list.splits if_splits)
    have "nxt (UnLinkLRU_at a i c) = nxt c" "prv (UnLinkLRU_at a i c) = prv c"
      "heads (UnLinkLRU_at a i c) = heads c" "tails (UnLinkLRU_at a i c) = tails c"
      using eff(1-4) out by (simp_all add: fun_upd_idem)
    from lru_wf_cong [OF wf this eff(5)] show ?thesis unfolding lru_drop_id [OF False] .
  qed
qed

lemma lru_wf_unset_pos:
  assumes "lru_wf L c" "\<not> lru_mem a L" "nxt c' = nxt c" "prv c' = prv c" "heads c' = heads c" "tails c' = tails c"
    and "lpos c' = (lpos c)(a := Some (-1))"
  shows "lru_wf L c'"
proof -
  have "x \<noteq> a" if "x \<in> set (L i)" for x i using that assms(2) by (auto simp: lru_mem_def)
  with assms show ?thesis unfolding lru_wf_def by auto
qed

lemma UnLinkLRU_at_unset:
  assumes cl: "caches c a = Some cl"
    and "\<forall>b. nxt c a = Some b \<longrightarrow> b \<noteq> a \<and> caches c b \<noteq> None" "\<forall>b. prv c a = Some b \<longrightarrow> b \<noteq> a \<and> caches c b \<noteq> None"
  defines "c1 \<equiv> upd_line a (\<lambda>l. l \<lparr> c_pos := -1 \<rparr>) c"
  shows "nxt (UnLinkLRU_at a i c1) = nxt (UnLinkLRU_at a i c)" "prv (UnLinkLRU_at a i c1) = prv (UnLinkLRU_at a i c)"
    "heads (UnLinkLRU_at a i c1) = heads (UnLinkLRU_at a i c)" "tails (UnLinkLRU_at a i c1) = tails (UnLinkLRU_at a i c)"
    "lpos (UnLinkLRU_at a i c1) = (lpos (UnLinkLRU_at a i c))(a := Some (-1))"
    "cache_core (UnLinkLRU_at a i c1) = cache_core c"
proof -
  have c1: "caches c1 a = Some (cl \<lparr> c_pos := -1 \<rparr>)" "nxt c1 = nxt c" "prv c1 = prv c" "heads c1 = heads c"
    "tails c1 = tails c" "lpos c1 = (lpos c)(a := Some (-1))" "cache_core c1 = cache_core c"
    "\<And>b. caches c1 b = None \<longleftrightarrow> caches c b = None"
    using cl by (auto simp: c1_def nxt_def prv_def lpos_def fun_eq_iff cache_core_upd strip_def)
  have nb: "\<forall>b. nxt c1 a = Some b \<longrightarrow> b \<noteq> a \<and> caches c1 b \<noteq> None" "\<forall>b. prv c1 a = Some b \<longrightarrow> b \<noteq> a \<and> caches c1 b \<noteq> None"
    using assms(2,3) by (simp_all only: c1)
  note e1 = UnLinkLRU_at_effect [OF c1(1) nb(1) [rule_format] nb(2) [rule_format], of i]
  note e = UnLinkLRU_at_effect [OF cl assms(2) [rule_format] assms(3) [rule_format], of i]
  show "nxt (UnLinkLRU_at a i c1) = nxt (UnLinkLRU_at a i c)" "prv (UnLinkLRU_at a i c1) = prv (UnLinkLRU_at a i c)"
    "heads (UnLinkLRU_at a i c1) = heads (UnLinkLRU_at a i c)" "tails (UnLinkLRU_at a i c1) = tails (UnLinkLRU_at a i c)"
    "lpos (UnLinkLRU_at a i c1) = (lpos (UnLinkLRU_at a i c))(a := Some (-1))"
    "cache_core (UnLinkLRU_at a i c1) = cache_core c"
    using e1 e c1(2-7) by (simp_all only:)
qed

text \<open>\<open>UnLinkLRU\<close> clears \<open>pos\<close> and cuts the line out of the list it was in, if any.\<close>

lemma UnLinkLRU_wf:
  assumes wf: "lru_wf L c"
  shows "lru_wf (lru_drop a L) (UnLinkLRU a c)" "cache_core (UnLinkLRU a c) = cache_core c"
proof (atomize (full), cases "caches c a")
  case None
  then have "\<not> lru_mem a L" using lru_wfD(5) [OF wf, of a] by (auto simp: lru_mem_def lpos_def)
  with None wf show "lru_wf (lru_drop a L) (UnLinkLRU a c) \<and> cache_core (UnLinkLRU a c) = cache_core c"
    by (simp add: UnLinkLRU_def lru_drop_id)
next
  case (Some cl)
  have lp: "lpos c a = Some (c_pos cl)" using Some by (simp add: lpos_def)
  have pos: "int i = c_pos cl" if "a \<in> set (L i)" for i using lru_wfD(5) [OF wf that] lp by simp
  show "lru_wf (lru_drop a L) (UnLinkLRU a c) \<and> cache_core (UnLinkLRU a c) = cache_core c"
  proof (cases "c_pos cl = -1")
    case True
    then have "\<not> lru_mem a L" using pos by (auto simp: lru_mem_def)
    with Some True wf show ?thesis by (simp add: UnLinkLRU_def lru_drop_id)
  next
    case False
    let ?i = "nat (c_pos cl)" and ?c = "upd_line a (\<lambda>l. l \<lparr> c_pos := -1 \<rparr>) c"
    have mem: "lru_mem a L \<Longrightarrow> a \<in> set (L ?i)" using pos unfolding lru_mem_def by (metis nat_int)
    note u = UnLinkLRU_at_any [OF wf Some mem]
    have e: "nxt (UnLinkLRU_at a ?i ?c) = nxt (UnLinkLRU_at a ?i c)" "prv (UnLinkLRU_at a ?i ?c) = prv (UnLinkLRU_at a ?i c)"
      "heads (UnLinkLRU_at a ?i ?c) = heads (UnLinkLRU_at a ?i c)" "tails (UnLinkLRU_at a ?i ?c) = tails (UnLinkLRU_at a ?i c)"
      "lpos (UnLinkLRU_at a ?i ?c) = (lpos (UnLinkLRU_at a ?i c))(a := Some (-1))"
      "cache_core (UnLinkLRU_at a ?i ?c) = cache_core c"
      using UnLinkLRU_at_unset [OF Some lru_links(1) [OF wf] lru_links(2) [OF wf]] by blast+
    have "lru_wf (lru_drop a L) (UnLinkLRU_at a ?i ?c)"
      by (rule lru_wf_unset_pos [OF u(1) not_lru_mem_drop e(1-5)])
    with e(6) show ?thesis using Some False by (simp add: UnLinkLRU_def)
  qed
qed

lemma link_random_spec:
  "link_random n c = (r, c') \<Longrightarrow> (\<exists>k. c' = c \<lparr> c_rpos := k \<rparr>) \<and> (\<forall>i. r = Some i \<longrightarrow> i < LRU_NUM)"
proof (induction n arbitrary: c)
  case 0
  then show ?case by (auto intro!: exI [of _ "c_rpos c"])
next
  case (Suc n)
  show ?case
  proof (cases "c_busy c (c_rand c (c_rpos c) mod LRU_NUM)")
    case True
    then have "link_random n (c \<lparr> c_rpos := Suc (c_rpos c) \<rparr>) = (r, c')"
      using Suc.prems by (simp add: GetRandom_def)
    from Suc.IH [OF this] show ?thesis by auto
  qed (use Suc.prems in \<open>auto simp: GetRandom_def LRU_NUM_def\<close>)
qed

lemma lru_wf_rpos [simp]: "lru_wf L (c \<lparr> c_rpos := r \<rparr>) = lru_wf L c"
  by (simp add: lru_wf_def nxt_def [abs_def] prv_def [abs_def] lpos_def [abs_def])

text \<open>Whatever the random numbers and whichever locks are busy, the line is linked.\<close>

lemma LinkLRU_push: "\<exists>i r. i < LRU_NUM \<and> LinkLRU a c = lru_push a i (c \<lparr> c_rpos := r \<rparr>)"
proof -
  obtain o1 c1 where l: "link_random LRU_NUM c = (o1, c1)" by fastforce
  from link_random_spec [OF this] obtain k where
    c1: "c1 = c \<lparr> c_rpos := k \<rparr>" and o1: "\<forall>i. o1 = Some i \<longrightarrow> i < LRU_NUM" by blast
  have r: "c_rand c1 (c_rpos c1) mod LRU_NUM < LRU_NUM" by (simp add: LRU_NUM_def)
  show ?thesis
    unfolding LinkLRU_def l
    using c1 o1 r
    by (auto simp: GetRandom_def find_Some_iff split: option.split) blast+
qed

lemma LinkLRU_wf:
  assumes "lru_wf L c" "caches c a = Some cl" "\<not> lru_mem a L"
  shows "\<exists>i < LRU_NUM. lru_wf (lru_cons a i L) (LinkLRU a c)" "cache_core (LinkLRU a c) = cache_core c"
proof -
  obtain i r where i: "i < LRU_NUM" "LinkLRU a c = lru_push a i (c \<lparr> c_rpos := r \<rparr>)"
    using LinkLRU_push by blast
  have wf: "lru_wf L (c \<lparr> c_rpos := r \<rparr>)" and cl: "caches (c \<lparr> c_rpos := r \<rparr>) a = Some cl"
    using assms by simp_all
  show "\<exists>i < LRU_NUM. lru_wf (lru_cons a i L) (LinkLRU a c)"
    using lru_push_wf [OF wf cl assms(3) i(1)] i by auto
  show "cache_core (LinkLRU a c) = cache_core c"
    using lru_push_effect(7) [OF cl lru_push_pointers(1) [OF wf cl assms(3)]] i(2) by simp
qed

end
