(* ===== verification/Cache_Invariant.thy ===== *)
theory Cache_Invariant
  imports Cache_Line
begin

text \<open>
  What the cache (\<open>src/cache.cc\<close>) keeps true: one line per block, exact counters of bytes
  in use and of lines being evicted, well-formed LRU lists and sound lock tables. The lock
  operations of cache lines provide the readers-writer interface of \<open>Lock_Table\<close>.
\<close>

subsection \<open>Invariant of the cache\<close>

definition evicting :: "Cache \<Rightarrow> gaddr set" where
  "evicting c = {a. \<exists>cl. caches c a = Some cl \<and> c_state cl = CACHE_TO_INVALID}"

definition line_wf :: "gaddr \<Rightarrow> CacheLine \<Rightarrow> bool" where
  "line_wf a cl \<longleftrightarrow> c_addr cl = a \<and> BLOCK_ALIGNED a \<and> locks_wf (c_locks cl) \<and> locks_in TOBLOCK a (c_locks cl)"

text \<open>
  Every line sits under its own block address with a sound lock table; the byte and
  eviction counters are exact; the LRU structure represents \<open>L\<close>; a line that waits
  for its data is in no list.
\<close>

definition cache_wf :: "(nat \<Rightarrow> gaddr list) \<Rightarrow> Cache \<Rightarrow> bool" where
  "cache_wf L c \<longleftrightarrow>
     (\<forall>a cl. caches c a = Some cl \<longrightarrow> line_wf a cl) \<and> finite (dom (caches c)) \<and>
     used_bytes c = 4096 * int (card (dom (caches c))) \<and> to_evicted c = int (card (evicting c)) \<and>
     lru_wf L c \<and>
     (\<forall>a cl. caches c a = Some cl \<longrightarrow> c_state cl \<in> {CACHE_INVALID, CACHE_TO_SHARED, CACHE_TO_DIRTY} \<longrightarrow> \<not> lru_mem a L)"

definition cache_view :: "Cache \<Rightarrow> gaddr \<Rightarrow> rwlock" where
  "cache_view c p = (case caches c (TOBLOCK p) of None \<Rightarrow> Free | Some cl \<Rightarrow> lock_view (c_locks cl) p)"

lemma cache_wfD:
  assumes "cache_wf L c"
  shows "caches c a = Some cl \<Longrightarrow> line_wf a cl" "finite (dom (caches c))"
    "used_bytes c = 4096 * int (card (dom (caches c)))" "to_evicted c = int (card (evicting c))" "lru_wf L c"
    "caches c a = Some cl \<Longrightarrow> c_state cl \<in> {CACHE_INVALID, CACHE_TO_SHARED, CACHE_TO_DIRTY} \<Longrightarrow> \<not> lru_mem a L"
  using assms unfolding cache_wf_def by blast+

lemma BLOCK_SIZE_int [simp]: "uint BLOCK_SIZE = 4096"
  by (simp add: BLOCK_SIZE_eq)





subsection \<open>Linking and unlinking\<close>




subsection \<open>Changing the state of a line\<close>

lemma lru_wf_upd_line:
  assumes "lru_wf L c" "\<And>l. c_next (f l) = c_next l \<and> c_prev (f l) = c_prev l \<and> c_pos (f l) = c_pos l"
  shows "lru_wf L (upd_line a f c)"
  by (rule lru_wf_cong [OF assms(1)])
    (auto simp: nxt_def prv_def lpos_def fun_eq_iff assms(2) option.map_comp comp_def split: option.split)

lemma set_cstate_simps [simp]:
  "caches (set_cstate s a c) = (caches c)(a := map_option (\<lambda>l. l \<lparr> c_state := s \<rparr>) (caches c a))"
  "used_bytes (set_cstate s a c) = used_bytes c" "to_evicted (set_cstate s a c) = to_evicted c"
  by (simp_all add: set_cstate_def)






subsection \<open>Adding and dropping lines\<close>

lemma cache_add_wf:
  assumes "cache_wf L c" "caches c a = None" "BLOCK_ALIGNED a"
  shows "cache_wf L (cache_add a p c)"
proof -
  note w = cache_wfD [OF assms(1)]
  let ?c = "cache_add a p c"
  have unlinked: "\<not> lru_mem a L"
    using lru_wfD(5) [OF w(5), of a] assms(2) by (auto simp: lru_mem_def lpos_def)
  have cs: "caches ?c = (caches c)(a \<mapsto> new_CacheLine \<lparr> c_line := p, c_addr := a \<rparr>)" by (simp add: cache_add_def)
  have ptrs: "nxt ?c = nxt c" "prv ?c = prv c" "lpos ?c = (lpos c)(a := Some (-1))"
    using assms(2) by (auto simp: cs nxt_def prv_def lpos_def new_CacheLine_def fun_eq_iff)
  have "lru_wf L ?c"
    by (rule lru_wf_unset_pos [OF w(5) unlinked ptrs(1,2) _ _ ptrs(3)]) (simp_all add: cache_add_def)
  moreover have "evicting ?c = evicting c" using assms(2) by (auto simp: evicting_def cs new_CacheLine_def)
  moreover have "a \<notin> dom (caches c)" using assms(2) by blast
  ultimately show ?thesis
    using w unlinked assms(3)
    by (auto simp: cache_wf_def cs line_wf_def new_CacheLine_def) (simp_all add: cache_add_def)
qed




subsection \<open>Locks of cache lines\<close>

definition cache_lready :: "Cache \<Rightarrow> gaddr \<Rightarrow> bool" where
  "cache_lready c p \<longleftrightarrow> caches c (TOBLOCK p) \<noteq> None"

definition cache_rready :: "Cache \<Rightarrow> gaddr \<Rightarrow> bool" where
  "cache_rready c p \<longleftrightarrow> cache_lready c p \<and> cache_view c p \<noteq> Readers 254"

lemma upd_locks_wf:
  assumes "cache_wf L c" "caches c a = Some cl" "locks_wf (f (c_locks cl))" "locks_in TOBLOCK a (f (c_locks cl))"
  shows "cache_wf L (upd_line a (\<lambda>l. l \<lparr> c_locks := f (c_locks l) \<rparr>) c)"
proof -
  note w = cache_wfD [OF assms(1)]
  let ?c = "upd_line a (\<lambda>l. l \<lparr> c_locks := f (c_locks l) \<rparr>) c"
  have "lru_wf L ?c" by (rule lru_wf_upd_line [OF w(5)]) simp
  moreover have "dom (caches ?c) = dom (caches c)" "evicting ?c = evicting c"
    using assms(2) by (auto simp: evicting_def)
  ultimately show ?thesis using w assms by (auto simp: cache_wf_def line_wf_def)
qed

lemma cache_view_upd:
  assumes "caches c (TOBLOCK p) = Some cl" "cache_wf L c"
    and "lock_view (f (c_locks cl)) = (lock_view (c_locks cl))(p := v)"
  shows "cache_view (upd_line (TOBLOCK p) (\<lambda>l. l \<lparr> c_locks := f (c_locks l) \<rparr>) c) = (cache_view c)(p := v)"
  using assms by (auto simp: cache_view_def fun_eq_iff)

lemma cache_lock_tests:
  assumes "line_wf (TOBLOCK p) cl"
  shows "cache_IsWLocked cl p \<longleftrightarrow> lock_view (c_locks cl) p = Writer"
    "cache_IsRLocked cl p \<longleftrightarrow> (\<exists>n. lock_view (c_locks cl) p = Readers n)"
    "locks_wlocked (c_locks cl) p \<longleftrightarrow> cache_IsWLocked cl p"
  by (auto simp: cache_IsWLocked_def cache_IsRLocked_def locks_wlocked_def lock_view_def split: option.split)

lemma cache_RLock_ok:
  assumes wf: "cache_wf L c" and r: "cache_rready c p"
  shows "cache_wf L (snd (cache_RLock c p)) \<and> fst (cache_RLock c p) = fst (spec_rlock (cache_view c p)) \<and>
    cache_view (snd (cache_RLock c p)) = (cache_view c)(p := snd (spec_rlock (cache_view c p)))"
proof -
  obtain cl where cl: "caches c (TOBLOCK p) = Some cl" using r by (auto simp: cache_rready_def cache_lready_def)
  note lw = cache_wfD(1) [OF wf cl]
  have v: "cache_view c p = lock_view (c_locks cl) p" using cl by (simp add: cache_view_def)
  show ?thesis
  proof (cases "cache_IsWLocked cl p")
    case True
    with lw v cl wf show ?thesis
      by (simp add: cache_RLock_def cache_RLock_line_def cache_lock_tests(1) [OF lw] spec_rlock_def fun_upd_idem)
  next
    case False
    have t: "locks_wf (c_locks cl)" "locks_in TOBLOCK (TOBLOCK p) (c_locks cl)" "c_addr cl = TOBLOCK p"
      using lw by (simp_all add: line_wf_def)
    have nw: "\<not> locks_wlocked (c_locks cl) p" "lock_view (c_locks cl) p \<noteq> Readers 254"
      using False r v by (simp_all add: cache_lock_tests(3) [OF lw] cache_rready_def)
    note lv = locks_rlock_view [OF t(1) nw]
    have fst: "fst (spec_rlock (lock_view (c_locks cl) p)) = 0"
      using False by (cases "lock_view (c_locks cl) p") (simp_all add: spec_rlock_def cache_lock_tests(1) [OF lw])
    have e: "cache_RLock c p = (0, upd_line (TOBLOCK p) (\<lambda>l. l \<lparr> c_locks := locks_rlock (c_locks l) p \<rparr>) c)"
      using cl False t(3) by (simp add: cache_RLock_def cache_RLock_line_def)
    show ?thesis
      using upd_locks_wf [OF wf cl, where f = "\<lambda>l. locks_rlock l p"] locks_in_ops(1) [OF t(2), of p] lv(1)
        cache_view_upd [OF cl wf, where f = "\<lambda>l. locks_rlock l p"] lv(2) fst v
      by (simp add: e)
  qed
qed

lemma cache_WLock_ok:
  assumes wf: "cache_wf L c" and r: "cache_lready c p"
  shows "cache_wf L (snd (cache_WLock c p)) \<and> fst (cache_WLock c p) = fst (spec_wlock (cache_view c p)) \<and>
    cache_view (snd (cache_WLock c p)) = (cache_view c)(p := snd (spec_wlock (cache_view c p)))"
proof -
  obtain cl where cl: "caches c (TOBLOCK p) = Some cl" using r by (auto simp: cache_lready_def)
  note lw = cache_wfD(1) [OF wf cl]
  have t: "locks_wf (c_locks cl)" "locks_in TOBLOCK (TOBLOCK p) (c_locks cl)" "c_addr cl = TOBLOCK p"
    using lw by (simp_all add: line_wf_def)
  have v: "cache_view c p = lock_view (c_locks cl) p" using cl by (simp add: cache_view_def)
  note lv = locks_wlock_view [OF t(1), of p]
  show ?thesis
  proof (cases "lock_view (c_locks cl) p")
    case Free
    then have e: "cache_WLock c p = (0, upd_line (TOBLOCK p) (\<lambda>l. l \<lparr> c_locks := locks_wlock (c_locks l) p \<rparr>) c)"
      using cl t(3) by (simp add: cache_WLock_def cache_WLock_line_def cache_lock_tests(1,2) [OF lw])
    show ?thesis
      using upd_locks_wf [OF wf cl, where f = "\<lambda>l. locks_wlock l p"] locks_in_ops(2) [OF t(2), of p] lv(1)
        cache_view_upd [OF cl wf, where f = "\<lambda>l. locks_wlock l p"] lv(2) v Free
      by (simp add: e spec_wlock_def)
  qed (use cl v wf in \<open>auto simp: cache_WLock_def cache_WLock_line_def cache_lock_tests(1,2) [OF lw] spec_wlock_def fun_upd_idem\<close>)
qed

lemma cache_UnLock_ok:
  assumes wf: "cache_wf L c" and r: "cache_lready c p"
  shows "cache_wf L (cache_UnLock c p) \<and> cache_view (cache_UnLock c p) = (cache_view c)(p := spec_unlock (cache_view c p))"
proof -
  obtain cl where cl: "caches c (TOBLOCK p) = Some cl" using r by (auto simp: cache_lready_def)
  have t: "locks_wf (c_locks cl)" "locks_in TOBLOCK (TOBLOCK p) (c_locks cl)" "c_addr cl = TOBLOCK p"
    using cache_wfD(1) [OF wf cl] by (simp_all add: line_wf_def)
  have v: "cache_view c p = lock_view (c_locks cl) p" using cl by (simp add: cache_view_def)
  show ?thesis
  proof (cases "map_of (c_locks cl) p")
    case None
    with cl wf v show ?thesis by (simp add: cache_UnLock_def lock_view_def spec_unlock_def fun_upd_idem)
  next
    case (Some n)
    define f where "f = (\<lambda>l. locks_put l p (if n = EXCLUSIVE_LOCK_TAG then 0 else n - 1))"
    have e: "cache_UnLock c p = upd_line (TOBLOCK p) (\<lambda>l. l \<lparr> c_locks := f (c_locks l) \<rparr>) c"
      using cl Some t(3) by (simp add: cache_UnLock_def f_def)
    note lv = locks_release_view [OF t(1) Some, folded f_def]
    have "locks_in TOBLOCK (TOBLOCK p) (f (c_locks cl))" unfolding f_def by (rule locks_in_ops(3) [OF t(2)]) simp
    with upd_locks_wf [OF wf cl, where f = f] cache_view_upd [OF cl wf, where f = f] lv v show ?thesis
      by (simp add: e f_def)
  qed
qed

interpretation cachelock: rw_lock "cache_wf L" cache_view cache_rready cache_lready cache_lready cache_RLock cache_WLock cache_UnLock
  for L
  by unfold_locales (use cache_RLock_ok cache_WLock_ok cache_UnLock_ok in blast)+

subsection \<open>The operations of the worker on the cache\<close>














definition cache_empty :: "int \<Rightarrow> Cache" where
  "cache_empty n = \<lparr> caches = Map.empty, used_bytes = 0, to_evicted = 0, num_evict = 0, num_request_send = 0,
     max_cache_mem = n, heads = (\<lambda>_. None), tails = (\<lambda>_. None), c_rand = (\<lambda>_. 0), c_rpos = 0, c_busy = (\<lambda>_. False) \<rparr>"

lemma cache_empty_wf: "cache_wf (\<lambda>_. []) (cache_empty n)"
  by (simp add: cache_wf_def cache_empty_def evicting_def lru_wf_def nxt_def prv_def lpos_def)

subsection \<open>Properties\<close>



text \<open>
  C19: linking and unlinking refine operations on lists, whatever the random numbers and
  whichever LRU locks are busy: \<open>LinkLRU\<close> puts an unlinked line at the head of exactly one of the
  \<open>LRU_NUM\<close> lists, \<open>UnLinkLRU\<close> removes the line from the one it is in, a second \<open>UnLinkLRU\<close> changes
  nothing more, and neither touches the data, state, locks or counters of any line.
\<close>

theorem lru_operations_refine_lists:
  assumes "lru_wf L c" "caches c a = Some cl"
  shows "lru_wf (lru_drop a L) (UnLinkLRU a c) \<and> lru_wf (lru_drop a L) (UnLinkLRU a (UnLinkLRU a c)) \<and>
     cache_core (UnLinkLRU a c) = cache_core c \<and>
     (\<exists>i < LRU_NUM. lru_wf (lru_cons a i (lru_drop a L)) (LinkLRU a (UnLinkLRU a c))) \<and>
     cache_core (LinkLRU a (UnLinkLRU a c)) = cache_core c"
proof -
  note u = UnLinkLRU_wf [OF assms(1), of a]
  have d: "lru_drop a (lru_drop a L) = lru_drop a L" by (rule lru_drop_id) simp
  obtain cl' where "caches (UnLinkLRU a c) a = Some cl'" using cache_core_SomeD [OF u(2) assms(2)] by blast
  from LinkLRU_wf [OF u(1) this] UnLinkLRU_wf [OF u(1), of a] u d show ?thesis by auto
qed

theorem lru_operations_refine_lists_witness:
  "\<exists>L. lru_wf L (cache_add 0x1000 64 (cache_empty 0)) \<and>
     (\<exists>i < LRU_NUM. lru_wf (lru_cons 0x1000 i (lru_drop 0x1000 L)) (LinkLRU 0x1000 (UnLinkLRU 0x1000 (cache_add 0x1000 64 (cache_empty 0)))))"
proof -
  have 1: "lru_wf (\<lambda>_. []) (cache_add 0x1000 64 (cache_empty 0))"
    using cache_wfD(5) [OF cache_add_wf [OF cache_empty_wf, of 0 "0x1000" 64]]
    by (simp add: cache_empty_def BLOCK_ALIGNED_def BLOCK_MASK_def)
  have "caches (cache_add 0x1000 64 (cache_empty 0)) 0x1000 = Some (new_CacheLine \<lparr> c_line := 64, c_addr := 0x1000 \<rparr>)"
    by (simp add: cache_add_def)
  from lru_operations_refine_lists [OF 1 this] 1 show ?thesis by blast
qed

text \<open>
  C20: the lock operations on cached blocks behave as an abstract readers-writer lock per
  address, like those of the directory: \<open>RLock\<close> fails exactly against a writer, \<open>WLock\<close> exactly
  against anybody, \<open>UnLock\<close> undoes one acquisition, and locks on other addresses are untouched.
\<close>

theorem cache_lock_refines_rwlock:
  assumes "cache_wf L c" "cache_rready c p"
  shows "fst (cache_RLock c p) = fst (spec_rlock (cache_view c p)) \<and>
      cache_view (snd (cache_RLock c p)) = (cache_view c)(p := snd (spec_rlock (cache_view c p))) \<and>
      fst (cache_WLock c p) = fst (spec_wlock (cache_view c p)) \<and>
      cache_view (snd (cache_WLock c p)) = (cache_view c)(p := snd (spec_wlock (cache_view c p))) \<and>
      cache_view (cache_UnLock c p) = (cache_view c)(p := spec_unlock (cache_view c p))"
  using cachelock.rlock_view [OF assms] cachelock.wlock_view [OF assms(1)] cachelock.unlock_view [OF assms(1)] assms(2)
  by (simp add: cache_rready_def)

theorem cache_lock_refines_rwlock_witness:
  "\<exists>L c. cache_wf L c \<and> cache_rready c 0x1008 \<and> fst (cache_RLock c 0x1008) = 0 \<and>
     cache_view (snd (cache_RLock c 0x1008)) 0x1008 = Readers 1"
proof -
  let ?c = "cache_add 0x1000 64 (cache_empty 0)"
  have 1: "cache_wf (\<lambda>_. []) ?c"
    using cache_add_wf [OF cache_empty_wf, of 0 "0x1000" 64] by (simp add: cache_empty_def BLOCK_ALIGNED_def BLOCK_MASK_def)
  have v: "cache_view ?c 0x1008 = Free" and 2: "cache_rready ?c 0x1008"
    by (simp_all add: cache_rready_def cache_lready_def cache_view_def cache_add_def new_CacheLine_def lock_view_def
        TOBLOCK_def BLOCK_MASK_def)
  from cache_lock_refines_rwlock [OF 1 2] 1 2 v show ?thesis
    by (intro exI [of _ "\<lambda>_. []"] exI [of _ ?c]) (simp add: spec_rlock_def)
qed

end
