(* ===== verification/Slabs.thy ===== *)
theory Slabs
  imports GAM_Prelude Linked_List "HOL-Library.Monad_Syntax"
begin

text \<open>
  The slab allocator (\<open>include/slabs.h\<close>, \<open>src/slabs.cc\<close>) that hands out the registered memory of a
  worker. Sizes and counters of type \<open>size_t\<close> and \<open>unsigned\<close> are naturals or integers: the invariant
  bounds them. An \<open>item\<close> is identified by the memory it describes, the key of \<open>stats_map\<close>, so
  the free list of a class is linked through these addresses. \<open>None\<close> is a call that does
  not return: the lock is held, a null item is read, the class table is indexed out of range,
  or \<open>exit\<close> is called. The growth factor of
  the classes is the rational \<open>num/den\<close>; \<open>mmap\<close> and the environment are arguments.
\<close>

subsection \<open>Definitions\<close>

definition ITEM_SIZE_MAX :: nat where "ITEM_SIZE_MAX = 512 * 1024"
definition POWER_SMALLEST :: nat where "POWER_SMALLEST = 1"
definition POWER_LARGEST :: nat where "POWER_LARGEST = 200"
definition CHUNK_ALIGN_BYTES :: nat where "CHUNK_ALIGN_BYTES = 8"
definition SB_PREFIX_SIZE :: nat where "SB_PREFIX_SIZE = 0"
definition SB_CHUNK_SIZE :: nat where "SB_CHUNK_SIZE = 48"
definition SB_BLOCK :: nat where "SB_BLOCK = 4096"

record item =
  it_next :: "ptr option"
  it_prev :: "ptr option"
  it_size :: nat
  it_slabbed :: bool
  it_clsid :: nat
  it_data :: ptr

record slabclass_t =
  sc_size :: nat
  sc_perslab :: nat
  sc_slots :: "ptr option"
  sc_curr :: nat
  sc_slabs :: nat
  sc_list :: "ptr list"
  sc_list_size :: nat
  sc_requested :: int

record SlabAllocator =
  slabclass :: "nat \<Rightarrow> slabclass_t"
  mem_limit :: nat
  mem_malloced :: nat
  power_largest :: nat
  mem_base :: ptr
  mem_current :: ptr
  mem_avail :: nat
  mem_free :: int
  stats_map :: "ptr \<rightharpoonup> item"
  sb_locked :: bool

definition new_slabclass :: slabclass_t where
  "new_slabclass = \<lparr> sc_size = 0, sc_perslab = 0, sc_slots = None, sc_curr = 0, sc_slabs = 0,
     sc_list = [], sc_list_size = 0, sc_requested = 0 \<rparr>"

definition new_SlabAllocator :: SlabAllocator where
  "new_SlabAllocator = \<lparr> slabclass = (\<lambda>_. new_slabclass), mem_limit = 0, mem_malloced = 0, power_largest = 0,
     mem_base = 0, mem_current = 0, mem_avail = 0, mem_free = 0, stats_map = Map.empty, sb_locked = False \<rparr>"

definition new_item :: item where
  "new_item = \<lparr> it_next = None, it_prev = None, it_size = 0, it_slabbed = False, it_clsid = 0, it_data = 0 \<rparr>"

text \<open>Assignments through \<open>slabclass_t*\<close> and \<open>item*\<close>.\<close>

definition upd_class :: "nat \<Rightarrow> (slabclass_t \<Rightarrow> slabclass_t) \<Rightarrow> SlabAllocator \<Rightarrow> SlabAllocator" where
  "upd_class cid f s = s \<lparr> slabclass := (slabclass s)(cid := f (slabclass s cid)) \<rparr>"

definition upd_item :: "ptr \<Rightarrow> (item \<Rightarrow> item) \<Rightarrow> SlabAllocator \<Rightarrow> SlabAllocator" where
  "upd_item p f s = s \<lparr> stats_map := (stats_map s)(p := map_option f (stats_map s p)) \<rparr>"

definition upd_item_opt :: "ptr option \<Rightarrow> (item \<Rightarrow> item) \<Rightarrow> SlabAllocator \<Rightarrow> SlabAllocator" where
  "upd_item_opt q f s = (case q of None \<Rightarrow> s | Some p \<Rightarrow> upd_item p f s)"

text \<open>\<open>ALIGN(x, a)\<close> for \<open>a\<close> a power of two\<close>

definition ALIGN :: "nat \<Rightarrow> nat \<Rightarrow> nat" where
  "ALIGN x a = (x + (a - 1)) div a * a"

definition slabs_clsid :: "SlabAllocator \<Rightarrow> nat \<Rightarrow> nat" where
  "slabs_clsid s sz =
     (if sz = 0 then 0
      else case find (\<lambda>res. \<not> sz > sc_size (slabclass s res)) [POWER_SMALLEST ..< Suc (power_largest s)] of
             Some res \<Rightarrow> res | None \<Rightarrow> 0)"

definition mmap_malloc :: "ptr option \<Rightarrow> ptr" where
  "mmap_malloc mapped =
     (case mapped of
        None \<Rightarrow> 0
      | Some ret \<Rightarrow> if unat ret mod SB_BLOCK \<noteq> 0 then ret + of_nat (SB_BLOCK - unat ret mod SB_BLOCK) else ret)"

definition memory_allocate :: "nat \<Rightarrow> SlabAllocator \<Rightarrow> ptr \<times> SlabAllocator" where
  "memory_allocate sz s =
     (if mem_base s = 0 then (0, s)
      else if sz > mem_avail s then (0, s)
      else let asz = (if sz mod CHUNK_ALIGN_BYTES \<noteq> 0 then sz + (CHUNK_ALIGN_BYTES - sz mod CHUNK_ALIGN_BYTES) else sz)
           in (mem_current s,
               s \<lparr> mem_current := mem_current s + of_nat asz,
                   mem_avail := (if asz < mem_avail s then mem_avail s - asz else 0) \<rparr>))"

definition grow_slab_list :: "nat \<Rightarrow> SlabAllocator \<Rightarrow> SlabAllocator" where
  "grow_slab_list cid s =
     (let p = slabclass s cid
      in if sc_slabs p = sc_list_size p
         then upd_class cid (\<lambda>p. p \<lparr> sc_list_size := (if sc_list_size p \<noteq> 0 then sc_list_size p * 2 else 16) \<rparr>) s
         else s)"

definition do_slabs_free :: "ptr \<Rightarrow> nat \<Rightarrow> nat \<Rightarrow> SlabAllocator \<Rightarrow> SlabAllocator" where
  "do_slabs_free p sz cid s =
     (if cid < POWER_SMALLEST \<or> cid > power_largest s then s
      else let s1 = (if stats_map s p \<noteq> None then s else s \<lparr> stats_map := (stats_map s)(p \<mapsto> new_item) \<rparr>);
               nxt = sc_slots (slabclass s1 cid);
               s2 = upd_item p (\<lambda>it. it \<lparr> it_data := p, it_slabbed := True, it_prev := None, it_next := nxt \<rparr>) s1;
               s3 = upd_item_opt nxt (\<lambda>it. it \<lparr> it_prev := Some p \<rparr>) s2;
               s4 = upd_class cid (\<lambda>c. c \<lparr> sc_slots := Some p, sc_curr := sc_curr c + 1,
                                        sc_requested := sc_requested c - int sz \<rparr>) s3
           in if sz \<noteq> 0 then s4 \<lparr> mem_free := mem_free s4 + int (sc_size (slabclass s4 cid)) \<rparr> else s4)"

fun split_slab_page_into_freelist :: "nat \<Rightarrow> ptr \<Rightarrow> nat \<Rightarrow> SlabAllocator \<Rightarrow> SlabAllocator" where
  "split_slab_page_into_freelist 0 p cid s = s"
| "split_slab_page_into_freelist (Suc n) p cid s =
     split_slab_page_into_freelist n (p + of_nat (sc_size (slabclass s cid))) cid (do_slabs_free p 0 cid s)"

definition do_slabs_newslab :: "nat \<Rightarrow> SlabAllocator \<Rightarrow> bool \<times> SlabAllocator" where
  "do_slabs_newslab cid s =
     (let len = ITEM_SIZE_MAX
      in if mem_limit s \<noteq> 0 \<and> mem_malloced s + len > mem_limit s \<and> sc_slabs (slabclass s cid) > 0 then (False, s)
         else let s1 = grow_slab_list cid s
              in case memory_allocate len s1 of
                   (p, s2) \<Rightarrow>
                     if p = 0 then (False, s2)
                     else let s3 = split_slab_page_into_freelist (sc_perslab (slabclass s2 cid)) p cid s2;
                              s4 = upd_class cid (\<lambda>c. c \<lparr> sc_list := sc_list c @ [p], sc_slabs := sc_slabs c + 1 \<rparr>) s3
                          in (True, s4 \<lparr> mem_malloced := mem_malloced s4 + len \<rparr>))"

definition do_slabs_alloc :: "nat \<Rightarrow> nat \<Rightarrow> SlabAllocator \<Rightarrow> (ptr \<times> SlabAllocator) option" where
  "do_slabs_alloc sz cid s =
     (if cid < POWER_SMALLEST \<or> cid > power_largest s then Some (0, s)
      else let (ok, s1) = (if sc_curr (slabclass s cid) \<noteq> 0 then (True, s) else do_slabs_newslab cid s)
           in if \<not> ok \<or> sc_curr (slabclass s1 cid) = 0 then Some (0, s1)
              else do {
                p \<leftarrow> sc_slots (slabclass s1 cid);
                it \<leftarrow> stats_map s1 p;
                let s2 = upd_item_opt (it_next it) (\<lambda>i. i \<lparr> it_prev := None \<rparr>) s1;
                    s3 = upd_item p (\<lambda>i. i \<lparr> it_size := sz, it_clsid := cid \<rparr>) s2;
                    s4 = upd_class cid (\<lambda>c. c \<lparr> sc_slots := it_next it, sc_curr := sc_curr c - 1 \<rparr>) s3;
                    ret = it_data it
                in if ret \<noteq> 0
                   then Some (ret, (upd_class cid (\<lambda>c. c \<lparr> sc_requested := sc_requested c + int sz \<rparr>) s4)
                               \<lparr> mem_free := mem_free s4 - int (sc_size (slabclass s4 cid)) \<rparr>)
                   else Some (0, s4) })"

subsection \<open>The public operations\<close>

text \<open>\<open>lock()\<close> waits until the allocator is free; nobody else releases it within a call.\<close>

definition sb_lock :: "SlabAllocator \<Rightarrow> SlabAllocator option" where
  "sb_lock s = (if sb_locked s then None else Some (s \<lparr> sb_locked := True \<rparr>))"

definition sb_unlock :: "SlabAllocator \<Rightarrow> SlabAllocator" where
  "sb_unlock s = s \<lparr> sb_locked := False \<rparr>"

definition sb_malloc :: "nat \<Rightarrow> SlabAllocator \<Rightarrow> (ptr \<times> SlabAllocator) option" where
  "sb_malloc sz s = do {
     s \<leftarrow> sb_lock s;
     if mem_limit s = 0 then Some (0, s)
     else let newsize = sz + SB_PREFIX_SIZE in do {
       (ret, s) \<leftarrow> do_slabs_alloc newsize (slabs_clsid s newsize) s;
       Some (ret, sb_unlock s) } }"

definition sb_aligned_malloc :: "nat \<Rightarrow> nat \<Rightarrow> SlabAllocator \<Rightarrow> (ptr \<times> SlabAllocator) option" where
  "sb_aligned_malloc sz block s = do {
     s \<leftarrow> sb_lock s;
     if mem_limit s = 0 then Some (0, s)
     else let newsize = ALIGN (sz + SB_PREFIX_SIZE) block in do {
       (ret, s) \<leftarrow> do_slabs_alloc newsize (slabs_clsid s newsize) s;
       Some (ret, sb_unlock s) } }"

definition sb_calloc :: "nat \<Rightarrow> nat \<Rightarrow> SlabAllocator \<Rightarrow> mem \<Rightarrow> (ptr \<times> SlabAllocator \<times> mem) option" where
  "sb_calloc count sz s m =
     (if mem_limit s = 0 then Some (0, s, m)
      else do {
        (p, s) \<leftarrow> sb_malloc (count * sz) s;
        Some (p, s, if p \<noteq> 0 then memset0 p sz m else m) })"

definition sb_aligned_calloc :: "nat \<Rightarrow> nat \<Rightarrow> nat \<Rightarrow> SlabAllocator \<Rightarrow> mem \<Rightarrow> (ptr \<times> SlabAllocator \<times> mem) option" where
  "sb_aligned_calloc count sz block s m =
     (if mem_limit s = 0 then Some (0, s, m)
      else do {
        (p, s) \<leftarrow> sb_aligned_malloc (count * sz) block s;
        Some (p, s, if p \<noteq> 0 then memset0 p sz m else m) })"

definition slabs_adjust_mem_requested :: "nat \<Rightarrow> nat \<Rightarrow> nat \<Rightarrow> SlabAllocator \<Rightarrow> SlabAllocator option" where
  "slabs_adjust_mem_requested cid old ntotal s =
     (if cid < POWER_SMALLEST \<or> cid > power_largest s then None
      else Some (upd_class cid (\<lambda>c. c \<lparr> sc_requested := sc_requested c - int old + int ntotal \<rparr>) s))"

text \<open>
  In the branch that moves the data the inner \<open>ptr\<close> shadows the argument: the copy is
  from the new memory to itself.
\<close>

definition sb_realloc :: "ptr \<Rightarrow> nat \<Rightarrow> SlabAllocator \<Rightarrow> mem \<Rightarrow> (ptr \<times> SlabAllocator \<times> mem) option" where
  "sb_realloc p sz s m =
     (if mem_limit s = 0 then Some (0, s, m)
      else if p = 0 then do { (q, s) \<leftarrow> sb_malloc sz s; Some (q, s, m) }
      else do {
        s \<leftarrow> sb_lock s;
        it1 \<leftarrow> stats_map s p;
        let cid1 = it_clsid it1; size1 = it_size it1;
            size2 = sz + SB_PREFIX_SIZE; cid2 = slabs_clsid s size2
        in if cid1 = cid2 then do {
             s \<leftarrow> slabs_adjust_mem_requested cid1 size1 size2 (upd_item p (\<lambda>i. i \<lparr> it_size := size2 \<rparr>) s);
             Some (p, sb_unlock s, m) }
           else do {
             (q, s) \<leftarrow> do_slabs_alloc size2 cid2 s;
             it2 \<leftarrow> stats_map s q;
             let m = memcpy (it_data it2) q (if size2 < size1 then sz else size1 - SB_PREFIX_SIZE) m;
                 s = upd_item p (\<lambda>i. i \<lparr> it_clsid := 0 \<rparr>) s;
                 s = do_slabs_free (it_data it1) size1 cid1 s
             in Some (it_data it2, sb_unlock s, m) } })"

definition sb_is_free :: "ptr \<Rightarrow> SlabAllocator \<Rightarrow> (bool \<times> SlabAllocator) option" where
  "sb_is_free p s = do {
     s \<leftarrow> sb_lock s;
     it \<leftarrow> stats_map s p;
     Some (it_clsid it = 0, sb_unlock s) }"

text \<open>\<open>stats_map[ptr]\<close> of an unknown address is a null item.\<close>

definition sb_get_size :: "ptr \<Rightarrow> SlabAllocator \<Rightarrow> nat option" where
  "sb_get_size p s = map_option it_size (stats_map s p)"

definition sb_free :: "ptr \<Rightarrow> SlabAllocator \<Rightarrow> mem \<Rightarrow> (nat \<times> SlabAllocator \<times> mem) option" where
  "sb_free p s m = do {
     s \<leftarrow> sb_lock s;
     if mem_limit s = 0 then Some (0, s, m)
     else do {
       it \<leftarrow> stats_map s p;
       let cid = it_clsid it; sz = it_size it;
           s = upd_item p (\<lambda>i. i \<lparr> it_clsid := 0, it_size := 0 \<rparr>) s;
           m = memset0 (it_data it) sz m;
           s = do_slabs_free (it_data it) sz cid s
       in Some (sz, sb_unlock s, m) } }"

subsection \<open>Initialisation\<close>

definition set_class_size :: "nat \<Rightarrow> nat \<Rightarrow> SlabAllocator \<Rightarrow> SlabAllocator" where
  "set_class_size i sz s = upd_class i (\<lambda>c. c \<lparr> sc_size := sz, sc_perslab := ITEM_SIZE_MAX div sz \<rparr>) s"

text \<open>The loop over the classes; \<open>i\<close> has been incremented. It returns the index it stops at.\<close>

function init_classes :: "nat \<Rightarrow> nat \<Rightarrow> nat \<Rightarrow> nat \<Rightarrow> nat \<Rightarrow> SlabAllocator \<Rightarrow> nat \<times> SlabAllocator" where
  "init_classes num den i sz pre_size s =
     (if i < POWER_LARGEST \<and> sz * num \<le> ITEM_SIZE_MAX * den
      then let sz = (if sz mod CHUNK_ALIGN_BYTES \<noteq> 0 then sz + (CHUNK_ALIGN_BYTES - sz mod CHUNK_ALIGN_BYTES) else sz);
               cut = pre_size div SB_BLOCK < sz div SB_BLOCK \<and> sz mod SB_BLOCK \<noteq> 0;
               s1 = (if cut then set_class_size i (sz div SB_BLOCK * SB_BLOCK) s else s);
               j = (if cut then i + 1 else i)
           in init_classes num den (j + 1) (sz * num div den) sz (set_class_size j sz s1)
      else (i, s))"
  by pat_completeness auto
termination
  by (relation "measure (\<lambda>(num, den, i, sz, pre_size, s). POWER_LARGEST - i)") (auto simp: Let_def)

declare init_classes.simps [simp del]

fun slabs_preallocate :: "nat list \<Rightarrow> nat \<Rightarrow> nat \<Rightarrow> SlabAllocator \<Rightarrow> SlabAllocator option" where
  "slabs_preallocate [] prealloc maxslabs s = Some s"
| "slabs_preallocate (i # is) prealloc maxslabs s =
     (if prealloc + 1 > maxslabs then Some s
      else case do_slabs_newslab i s of
             (ok, s) \<Rightarrow> if \<not> ok then None else slabs_preallocate is (prealloc + 1) maxslabs s)"

definition slabs_init :: "nat \<Rightarrow> nat \<Rightarrow> nat \<Rightarrow> bool \<Rightarrow> ptr option \<Rightarrow> nat option \<Rightarrow> SlabAllocator \<Rightarrow> (ptr \<times> SlabAllocator) option" where
  "slabs_init limit num den prealloc mapped initial s =
     (let s1 = s \<lparr> mem_limit := limit, mem_free := int limit \<rparr>;
          base = mmap_malloc mapped;
          s2 = (if prealloc
                then if base \<noteq> 0 then s1 \<lparr> mem_base := base, mem_current := base, mem_avail := limit \<rparr>
                     else s1 \<lparr> mem_base := base \<rparr>
                else s1);
          s3 = s2 \<lparr> slabclass := (\<lambda>_. new_slabclass) \<rparr>;
          sz = SB_PREFIX_SIZE + SB_CHUNK_SIZE
      in case init_classes num den POWER_SMALLEST sz sz s3 of
           (i, s4) \<Rightarrow>
             if i > POWER_LARGEST then None
             else let s5 = upd_class i (\<lambda>c. c \<lparr> sc_size := ITEM_SIZE_MAX, sc_perslab := 1 \<rparr>) (s4 \<lparr> power_largest := i \<rparr>);
                 s6 = (case initial of None \<Rightarrow> s5 | Some n \<Rightarrow> s5 \<lparr> mem_malloced := n \<rparr>)
             in do {
               s7 \<leftarrow> (if prealloc then slabs_preallocate [POWER_SMALLEST ..< Suc POWER_LARGEST] 0 i s6 else Some s6);
               Some (mem_base s7, s7) })"

end
