(* ===== verification/Slabs_Correct.thy ===== *)
theory Slabs_Correct
  imports Slabs
begin

text \<open>
  Correctness of the slab allocator: the free lists are well-formed linked lists, live chunks lie
  apart from each other inside the registered memory, the byte counter is exact, aligned
  requests get aligned memory; and two calls that do not do what they mean to.
\<close>

subsection \<open>Free lists\<close>

definition inx :: "SlabAllocator \<Rightarrow> ptr \<Rightarrow> ptr option" where
  "inx s p = (case stats_map s p of None \<Rightarrow> None | Some it \<Rightarrow> it_next it)"

definition ipv :: "SlabAllocator \<Rightarrow> ptr \<Rightarrow> ptr option" where
  "ipv s p = (case stats_map s p of None \<Rightarrow> None | Some it \<Rightarrow> it_prev it)"

definition fl_wf :: "(nat \<Rightarrow> ptr list) \<Rightarrow> SlabAllocator \<Rightarrow> bool" where
  "fl_wf S s \<longleftrightarrow>
     (\<forall>i. distinct (S i) \<and> dll (inx s) (ipv s) None (S i) None \<and>
          sc_slots (slabclass s i) = hd_opt (S i) \<and> sc_curr (slabclass s i) = length (S i)) \<and>
     (\<forall>i j p. p \<in> set (S i) \<longrightarrow> stats_map s p \<noteq> None \<and> (p \<in> set (S j) \<longrightarrow> i = j))"

text \<open>What the list operations leave alone of an item and of a class.\<close>

definition istrip :: "item \<Rightarrow> nat \<times> nat \<times> ptr" where
  "istrip it = (it_size it, it_clsid it, it_data it)"

definition items :: "SlabAllocator \<Rightarrow> ptr \<rightharpoonup> nat \<times> nat \<times> ptr" where
  "items s p = map_option istrip (stats_map s p)"

definition cls_size :: "SlabAllocator \<Rightarrow> nat \<Rightarrow> nat" where
  "cls_size s i = sc_size (slabclass s i)"

definition cls_ok :: "SlabAllocator \<Rightarrow> nat \<Rightarrow> bool" where
  "cls_ok s i \<longleftrightarrow> 1 \<le> i \<and> i \<le> power_largest s"

definition cls_table :: "SlabAllocator \<Rightarrow> (nat \<Rightarrow> nat) \<times> (nat \<Rightarrow> nat) \<times> nat \<times> nat \<times> ptr \<times> bool" where
  "cls_table s = (cls_size s, \<lambda>i. sc_perslab (slabclass s i), power_largest s, mem_limit s, mem_base s, sb_locked s)"

lemma items_None [simp]: "items s p = None \<longleftrightarrow> stats_map s p = None"
  by (simp add: items_def)

lemma fl_wfD:
  assumes "fl_wf S s"
  shows "distinct (S i)" "dll (inx s) (ipv s) None (S i) None" "sc_slots (slabclass s i) = hd_opt (S i)"
    "sc_curr (slabclass s i) = length (S i)" "p \<in> set (S i) \<Longrightarrow> stats_map s p \<noteq> None" "p \<in> set (S i) \<Longrightarrow> p \<in> set (S j) \<Longrightarrow> i = j"
  using assms unfolding fl_wf_def by blast+

lemma upd_simps [simp]:
  "slabclass (upd_class i f s) = (slabclass s)(i := f (slabclass s i))" "stats_map (upd_class i f s) = stats_map s"
  "mem_limit (upd_class i f s) = mem_limit s" "mem_malloced (upd_class i f s) = mem_malloced s"
  "power_largest (upd_class i f s) = power_largest s" "mem_base (upd_class i f s) = mem_base s"
  "mem_current (upd_class i f s) = mem_current s" "mem_avail (upd_class i f s) = mem_avail s"
  "mem_free (upd_class i f s) = mem_free s" "sb_locked (upd_class i f s) = sb_locked s"
  "stats_map (upd_item p g s) = (stats_map s)(p := map_option g (stats_map s p))" "slabclass (upd_item p g s) = slabclass s"
  "mem_limit (upd_item p g s) = mem_limit s" "mem_malloced (upd_item p g s) = mem_malloced s"
  "power_largest (upd_item p g s) = power_largest s" "mem_base (upd_item p g s) = mem_base s"
  "mem_current (upd_item p g s) = mem_current s" "mem_avail (upd_item p g s) = mem_avail s"
  "mem_free (upd_item p g s) = mem_free s" "sb_locked (upd_item p g s) = sb_locked s"
  by (simp_all add: upd_class_def upd_item_def)

lemma do_slabs_free_effect:
  fixes n :: nat
  assumes ok: "cls_ok s i" and new: "p \<notin> set (S i)" and wf: "fl_wf S s"
  defines "s' \<equiv> do_slabs_free p n i s"
  shows "inx s' = (inx s)(p := hd_opt (S i))"
    and "ipv s' = (case S i of [] \<Rightarrow> (ipv s)(p := None) | q # _ \<Rightarrow> (ipv s)(p := None, q := Some p))"
    and "sc_slots (slabclass s' j) = (if j = i then Some p else sc_slots (slabclass s j))"
    and "sc_curr (slabclass s' j) = (if j = i then Suc (sc_curr (slabclass s j)) else sc_curr (slabclass s j))"
    and "items s' = (items s)(p \<mapsto> (case items s p of None \<Rightarrow> (0, 0, p) | Some (a, b, _) \<Rightarrow> (a, b, p)))"
    and "cls_table s' = cls_table s"
    and "mem_free s' = mem_free s + (if n \<noteq> 0 then int (cls_size s i) else 0)"
    and "mem_current s' = mem_current s" "mem_avail s' = mem_avail s" "mem_malloced s' = mem_malloced s"
proof -
  have r: "\<not> (i < POWER_SMALLEST \<or> i > power_largest s)" using ok by (auto simp: cls_ok_def POWER_SMALLEST_def)
  have hd: "sc_slots (slabclass s i) = hd_opt (S i)" using fl_wfD(3) [OF wf] .
  have q: "q \<noteq> p \<and> stats_map s q \<noteq> None" if "hd_opt (S i) = Some q" for q
    using that new fl_wfD(5) [OF wf, of q i] by (cases "S i") auto
  note d = s'_def do_slabs_free_def Let_def upd_item_opt_def
  show "inx s' = (inx s)(p := hd_opt (S i))"
    using r q by (auto simp: d hd inx_def fun_eq_iff new_item_def split: option.splits)
  show "ipv s' = (case S i of [] \<Rightarrow> (ipv s)(p := None) | q # _ \<Rightarrow> (ipv s)(p := None, q := Some p))"
    using r q by (cases "S i") (auto simp: d hd ipv_def fun_eq_iff new_item_def split: option.splits)
  show "sc_slots (slabclass s' j) = (if j = i then Some p else sc_slots (slabclass s j))"
    "sc_curr (slabclass s' j) = (if j = i then Suc (sc_curr (slabclass s j)) else sc_curr (slabclass s j))"
    "mem_free s' = mem_free s + (if n \<noteq> 0 then int (cls_size s i) else 0)"
    "mem_current s' = mem_current s" "mem_avail s' = mem_avail s" "mem_malloced s' = mem_malloced s"
    "cls_table s' = cls_table s"
    using r by (auto simp: d cls_size_def cls_table_def fun_eq_iff split: option.splits)
  show "items s' = (items s)(p \<mapsto> (case items s p of None \<Rightarrow> (0, 0, p) | Some (a, b, _) \<Rightarrow> (a, b, p)))"
    using r q by (auto simp: d hd items_def istrip_def new_item_def fun_eq_iff split: option.splits)
qed

lemma do_slabs_free_fl:
  assumes ok: "cls_ok s i" and new: "\<forall>j. p \<notin> set (S j)" and wf: "fl_wf S s"
  shows "fl_wf (S(i := p # S i)) (do_slabs_free p n i s)"
proof -
  note e = do_slabs_free_effect [OF ok new [rule_format] wf, where n = n]
  let ?s = "do_slabs_free p n i s" and ?S = "S(i := p # S i)"
  have apart: "q \<notin> set (S j)" if "q \<in> set (S i)" "j \<noteq> i" for q j using fl_wfD(6) [OF wf that(1)] that(2) by blast
  have "dll (inx ?s) (ipv ?s) None (?S j) None" for j
    using fl_wfD(1,2) [OF wf, of i] fl_wfD(2) [OF wf, of j] new [rule_format, of i] new [rule_format, of j] apart [of _ j]
    by (cases "S i"; cases "j = i") (auto simp: e(1,2))
  moreover have "stats_map ?s q \<noteq> None" if "q \<in> set (?S j)" for q j
    using that fl_wfD(5) [OF wf, of q j] e(5) items_None [of ?s q] by (auto simp: items_def split: if_splits)
  ultimately show ?thesis
    using fl_wfD(1,3,4,6) [OF wf] new unfolding fl_wf_def by (auto simp: e(3,4) split: if_splits)
qed

text \<open>Taking the first chunk off a free list.\<close>

definition take_chunk :: "nat \<Rightarrow> nat \<Rightarrow> SlabAllocator \<Rightarrow> (ptr \<times> SlabAllocator) option" where
  "take_chunk n i s = do {
     p \<leftarrow> sc_slots (slabclass s i);
     it \<leftarrow> stats_map s p;
     let s2 = upd_item_opt (it_next it) (\<lambda>i. i \<lparr> it_prev := None \<rparr>) s;
         s3 = upd_item p (\<lambda>j. j \<lparr> it_size := n, it_clsid := i \<rparr>) s2;
         s4 = upd_class i (\<lambda>c. c \<lparr> sc_slots := it_next it, sc_curr := sc_curr c - 1 \<rparr>) s3;
         ret = it_data it
     in if ret \<noteq> 0
        then Some (ret, (upd_class i (\<lambda>c. c \<lparr> sc_requested := sc_requested c + int n \<rparr>) s4)
                    \<lparr> mem_free := mem_free s4 - int (sc_size (slabclass s4 i)) \<rparr>)
        else Some (0, s4) }"

lemma do_slabs_alloc_alt:
  assumes "cls_ok s i"
  shows "do_slabs_alloc n i s =
    (let (ok, s1) = (if sc_curr (slabclass s i) \<noteq> 0 then (True, s) else do_slabs_newslab i s)
     in if \<not> ok \<or> sc_curr (slabclass s1 i) = 0 then Some (0, s1) else take_chunk n i s1)"
  using assms unfolding do_slabs_alloc_def take_chunk_def cls_ok_def POWER_SMALLEST_def Let_def by simp

lemma take_chunk_effect:
  assumes wf: "fl_wf S s" and li: "S i = p # ps" and p: "items s p = Some (k, c, p)" "p \<noteq> 0"
  shows "\<exists>s'. take_chunk n i s = Some (p, s') \<and> fl_wf (S(i := ps)) s' \<and> items s' = (items s)(p \<mapsto> (n, i, p)) \<and>
    cls_table s' = cls_table s \<and> mem_free s' = mem_free s - int (cls_size s i) \<and>
    mem_current s' = mem_current s \<and> mem_avail s' = mem_avail s \<and> mem_malloced s' = mem_malloced s"
proof -
  have "sc_slots (slabclass s i) = Some p" using fl_wfD(3) [OF wf, of i] li by simp
  moreover obtain it where it: "stats_map s p = Some it" "it_data it = p"
    using p by (auto simp: items_def istrip_def)
  moreover have dl: "dll (inx s) (ipv s) None (p # ps) None" "distinct (p # ps)"
    using fl_wfD(1,2) [OF wf, of i] li by simp_all
  then have nx: "it_next it = hd_opt ps" using it by (cases ps) (auto simp: inx_def)
  ultimately obtain s' where s': "take_chunk n i s = Some (p, s')"
    and d: "s' = (upd_class i (\<lambda>c. c \<lparr> sc_requested := sc_requested c + int n \<rparr>)
      (upd_class i (\<lambda>c. c \<lparr> sc_slots := hd_opt ps, sc_curr := sc_curr c - 1 \<rparr>)
        (upd_item p (\<lambda>j. j \<lparr> it_size := n, it_clsid := i \<rparr>) (upd_item_opt (hd_opt ps) (\<lambda>i. i \<lparr> it_prev := None \<rparr>) s))))
      \<lparr> mem_free := mem_free s - int (cls_size s i) \<rparr>"
    using p(2) by (cases ps) (simp_all add: take_chunk_def Let_def cls_size_def upd_item_opt_def)
  have q: "q \<noteq> p \<and> stats_map s q \<noteq> None" if "hd_opt ps = Some q" for q
    using that dl(2) fl_wfD(5) [OF wf, of q i] li by (cases ps) auto
  have e: "inx s' = inx s" "ipv s' = (case ps of [] \<Rightarrow> ipv s | q # _ \<Rightarrow> (ipv s)(q := None))"
    using q it(1) by (cases ps; auto simp: d upd_item_opt_def inx_def ipv_def fun_eq_iff split: option.splits)+
  have slots: "sc_slots (slabclass s' j) = (if j = i then hd_opt ps else sc_slots (slabclass s j))"
    "sc_curr (slabclass s' j) = (if j = i then sc_curr (slabclass s j) - 1 else sc_curr (slabclass s j))" for j
    by (cases ps; simp add: d upd_item_opt_def)+
  have its: "items s' = (items s)(p \<mapsto> (n, i, p))"
    using q it by (cases ps) (auto simp: d upd_item_opt_def items_def istrip_def fun_eq_iff split: option.splits)
  have apart: "q \<notin> set (S j)" if "q \<in> set (S i)" "j \<noteq> i" for q j using fl_wfD(6) [OF wf that(1)] that(2) by blast
  have "dll (inx s') (ipv s') None ((S(i := ps)) j) None" for j
  proof (cases "j = i")
    case True
    show ?thesis using dl dll_set_prev [of "inx s" "ipv s" "Some p" ps None None] True by (cases ps) (auto simp: e)
  next
    case False
    then show ?thesis using fl_wfD(2) [OF wf, of j] apart [of _ j] li by (cases ps) (auto simp: e)
  qed
  moreover have "stats_map s' q \<noteq> None" if "q \<in> set ((S(i := ps)) j)" for q j
    using fl_wfD(5) [OF wf, of q j] that li items_None [of s' q] items_None [of s q]
    unfolding its by (auto split: if_splits)
  ultimately have "fl_wf (S(i := ps)) s'"
    using fl_wfD(1,3,4,6) [OF wf] dl(2) li unfolding fl_wf_def
    by (auto simp: slots split: if_splits)
  moreover have "cls_table s' = cls_table s" "mem_current s' = mem_current s" "mem_avail s' = mem_avail s"
    "mem_malloced s' = mem_malloced s" "mem_free s' = mem_free s - int (cls_size s i)"
    by (cases ps; auto simp: d cls_table_def cls_size_def upd_item_opt_def fun_eq_iff)+
  ultimately show ?thesis using s' its by auto
qed

subsection \<open>Invariant\<close>

definition live :: "SlabAllocator \<Rightarrow> ptr \<Rightarrow> bool" where
  "live s p \<longleftrightarrow> (\<exists>n c d. items s p = Some (n, c, d) \<and> c \<noteq> 0)"

text \<open>
  Chunks \<open>D\<close>, each of the size of its class: inside the memory handed out so far, apart from each other,
  and on a block boundary if their size is a multiple of the block size.
\<close>

definition chunks_ok :: "ptr set \<Rightarrow> (ptr \<Rightarrow> nat) \<Rightarrow> nat \<Rightarrow> nat \<Rightarrow> bool" where
  "chunks_ok D len base lim \<longleftrightarrow>
     (\<forall>p \<in> D. base \<le> unat p \<and> unat p + len p \<le> lim \<and> (len p mod SB_BLOCK = 0 \<longrightarrow> unat p mod SB_BLOCK = 0)) \<and>
     (\<forall>p \<in> D. \<forall>q \<in> D. p \<noteq> q \<longrightarrow> unat p + len p \<le> unat q \<or> unat q + len q \<le> unat p)"

definition table_ok :: "SlabAllocator \<Rightarrow> bool" where
  "table_ok s \<longleftrightarrow> mem_limit s \<noteq> 0 \<and> mem_base s \<noteq> 0 \<and>
     (\<forall>i. cls_ok s i \<longrightarrow> 0 < cls_size s i \<and> cls_size s i * sc_perslab (slabclass s i) \<le> ITEM_SIZE_MAX)"

definition area_ok :: "SlabAllocator \<Rightarrow> bool" where
  "area_ok s \<longleftrightarrow> unat (mem_base s) \<le> unat (mem_current s) \<and> unat (mem_current s) + mem_avail s < 2 ^ 64 \<and>
     unat (mem_current s) mod SB_BLOCK = 0"

text \<open>
  \<open>S\<close> is the free list of each class and \<open>H\<close> the class each chunk belongs to. A chunk is free, and then on
  the list of its class, or live, and then marked with its class and big enough. The
  free bytes are those of the limit that no live chunk occupies.
\<close>

definition items_ok :: "(nat \<Rightarrow> ptr list) \<Rightarrow> (ptr \<Rightarrow> nat) \<Rightarrow> SlabAllocator \<Rightarrow> bool" where
  "items_ok S H s \<longleftrightarrow>
     (\<forall>p n c d. items s p = Some (n, c, d) \<longrightarrow> d = p \<and> cls_ok s (H p) \<and>
        (if c = 0 then p \<in> set (S (H p)) else c = H p \<and> 0 < n \<and> n \<le> cls_size s c)) \<and>
     (\<forall>i p. p \<in> set (S i) \<longrightarrow> (\<exists>n. items s p = Some (n, 0, p)) \<and> H p = i)"

definition sb_inv :: "(nat \<Rightarrow> ptr list) \<Rightarrow> (ptr \<Rightarrow> nat) \<Rightarrow> SlabAllocator \<Rightarrow> bool" where
  "sb_inv S H s \<longleftrightarrow>
     table_ok s \<and> area_ok s \<and> fl_wf S s \<and> items_ok S H s \<and> finite (dom (items s)) \<and>
     chunks_ok (dom (items s)) (\<lambda>p. cls_size s (H p)) (unat (mem_base s)) (unat (mem_current s)) \<and>
     mem_free s = int (mem_limit s) - (\<Sum>p | live s p. int (cls_size s (H p)))"

lemma sb_invD:
  assumes "sb_inv S H s"
  shows "table_ok s" "area_ok s" "fl_wf S s" "items_ok S H s" "finite (dom (items s))"
    "chunks_ok (dom (items s)) (\<lambda>p. cls_size s (H p)) (unat (mem_base s)) (unat (mem_current s))"
    "mem_free s = int (mem_limit s) - (\<Sum>p | live s p. int (cls_size s (H p)))"
  using assms by (simp_all add: sb_inv_def)

lemma cls_tableD:
  assumes "cls_table s' = cls_table s"
  shows "cls_size s' = cls_size s" "\<And>i. sc_perslab (slabclass s' i) = sc_perslab (slabclass s i)"
    "power_largest s' = power_largest s" "mem_limit s' = mem_limit s" "mem_base s' = mem_base s" "cls_ok s' = cls_ok s"
    "table_ok s' = table_ok s" "sb_locked s' = sb_locked s"
  using assms unfolding cls_table_def table_ok_def cls_ok_def [abs_def] by (auto simp: fun_eq_iff)

lemma items_okD:
  assumes "items_ok S H s"
  shows "items s p = Some (n, c, d) \<Longrightarrow> d = p \<and> cls_ok s (H p) \<and> (c = 0 \<longrightarrow> p \<in> set (S (H p))) \<and>
      (c \<noteq> 0 \<longrightarrow> c = H p \<and> 0 < n \<and> n \<le> cls_size s c)"
    and "p \<in> set (S i) \<Longrightarrow> (\<exists>n. items s p = Some (n, 0, p)) \<and> H p = i"
  using assms unfolding items_ok_def by (auto split: if_splits)

lemma chunks_okD:
  assumes "chunks_ok D len base l" "p \<in> D"
  shows "base \<le> unat p" "unat p + len p \<le> l" "len p mod SB_BLOCK = 0 \<longrightarrow> unat p mod SB_BLOCK = 0"
  using assms unfolding chunks_ok_def by auto

lemma chunks_ok_mono: "chunks_ok D len base l \<Longrightarrow> l \<le> l' \<Longrightarrow> chunks_ok D len base l'"
  unfolding chunks_ok_def by (meson order_trans)

lemma chunks_ok_insert:
  assumes "chunks_ok D len base lim" "\<forall>q \<in> D. unat q + len q \<le> unat p" "base \<le> unat p" "unat p + n \<le> lim" "p \<notin> D"
    and "n mod SB_BLOCK = 0 \<longrightarrow> unat p mod SB_BLOCK = 0"
  shows "chunks_ok (insert p D) (len(p := n)) base lim"
  using assms unfolding chunks_ok_def by auto

text \<open>A fresh chunk above all others goes onto the list of its class.\<close>

lemma add_chunk:
  assumes inv: "sb_inv S H s" and ok: "cls_ok s i" and new: "\<forall>q \<in> dom (items s). unat q + cls_size s (H q) \<le> unat p"
    and area: "unat (mem_base s) \<le> unat p" "unat p + cls_size s i \<le> unat (mem_current s)"
    and al: "cls_size s i mod SB_BLOCK = 0 \<longrightarrow> unat p mod SB_BLOCK = 0"
  shows "sb_inv (S(i := p # S i)) (H(p := i)) (do_slabs_free p 0 i s)"
    "items (do_slabs_free p 0 i s) = (items s)(p \<mapsto> (0, 0, p))" "cls_table (do_slabs_free p 0 i s) = cls_table s"
    "mem_current (do_slabs_free p 0 i s) = mem_current s" "mem_avail (do_slabs_free p 0 i s) = mem_avail s"
    "mem_malloced (do_slabs_free p 0 i s) = mem_malloced s"
proof -
  note w = sb_invD [OF inv]
  have pos: "0 < cls_size s j" if "cls_ok s j" for j using w(1) that by (simp add: table_ok_def)
  have hp: "cls_ok s (H q)" if "q \<in> dom (items s)" for q using w(4) that unfolding items_ok_def by auto
  have fresh: "p \<notin> dom (items s)"
  proof
    assume "p \<in> dom (items s)"
    with new [rule_format, OF this] pos [OF hp [OF this]] show False by linarith
  qed
  then have nl: "\<forall>j. p \<notin> set (S j)" and it: "items s p = None"
    using w(4) unfolding items_ok_def by blast+
  note e = do_slabs_free_effect [OF ok nl [rule_format] w(3), of 0]
  show its: "items (do_slabs_free p 0 i s) = (items s)(p \<mapsto> (0, 0, p))" using e(5) it by simp
  show tb: "cls_table (do_slabs_free p 0 i s) = cls_table s" by (rule e(6))
  note t = cls_tableD [OF tb]
  show cur: "mem_current (do_slabs_free p 0 i s) = mem_current s" "mem_avail (do_slabs_free p 0 i s) = mem_avail s"
    "mem_malloced (do_slabs_free p 0 i s) = mem_malloced s" by (rule e(8-10))+
  have lv: "live (do_slabs_free p 0 i s) = live s" using it by (auto simp: live_def its fun_eq_iff simp del: items_None)
  have "items_ok (S(i := p # S i)) (H(p := i)) (do_slabs_free p 0 i s)"
    unfolding items_ok_def its t
  proof (intro conjI allI impI)
    fix q n c d assume "((items s)(p \<mapsto> (0, 0, p))) q = Some (n, c, d)"
    then show "d = q" "cls_ok s ((H(p := i)) q)"
      "if c = 0 then q \<in> set ((S(i := p # S i)) ((H(p := i)) q)) else c = (H(p := i)) q \<and> 0 < n \<and> n \<le> cls_size s c"
      using items_okD(1) [OF w(4), of q n c d] ok by (auto split: if_splits)
  next
    fix j q assume "q \<in> set ((S(i := p # S i)) j)"
    then have "q = p \<and> j = i \<or> q \<noteq> p \<and> q \<in> set (S j)" using nl by (auto split: if_splits)
    then show "\<exists>n. ((items s)(p \<mapsto> (0, 0, p))) q = Some (n, 0, q)" "(H(p := i)) q = j"
      using items_okD(2) [OF w(4), of q j] by auto
  qed
  moreover have "(\<Sum>q | live s q. int (cls_size s ((H(p := i)) q))) = (\<Sum>q | live s q. int (cls_size s (H q)))"
    by (rule sum.cong) (use fresh in \<open>auto simp: live_def\<close>)
  moreover have "chunks_ok (insert p (dom (items s))) (\<lambda>q. cls_size s ((H(p := i)) q)) (unat (mem_base s)) (unat (mem_current s))"
    using chunks_ok_insert [OF w(6) new area fresh al] by (simp add: fun_upd_def if_distrib [of "cls_size s"] cong: if_cong)
  ultimately show "sb_inv (S(i := p # S i)) (H(p := i)) (do_slabs_free p 0 i s)"
    using w(1,2,5,7) do_slabs_free_fl [OF ok nl w(3), of 0]
    unfolding sb_inv_def t lv area_ok_def cur by (simp add: its e(7))
qed

subsection \<open>New slabs\<close>

text \<open>What a step that only adds free chunks keeps.\<close>

definition extends :: "(ptr \<Rightarrow> nat) \<Rightarrow> SlabAllocator \<Rightarrow> (ptr \<Rightarrow> nat) \<Rightarrow> SlabAllocator \<Rightarrow> bool" where
  "extends H s H' s' \<longleftrightarrow> cls_table s' = cls_table s \<and> live s' = live s \<and>
     (\<forall>q \<in> dom (items s). items s' q = items s q \<and> H' q = H q)"

lemma extends_refl [simp]: "extends H s H s"
  by (simp add: extends_def)

lemma extends_trans [trans]: "extends H s H' s' \<Longrightarrow> extends H' s' H'' s'' \<Longrightarrow> extends H s H'' s''"
  unfolding extends_def by (metis domIff)

lemma split_slab_inv:
  assumes "sb_inv S H s" "cls_ok s i" "\<forall>q \<in> dom (items s). unat q + cls_size s (H q) \<le> unat p"
    and "unat (mem_base s) \<le> unat p" "unat p + n * cls_size s i \<le> unat (mem_current s)"
    and "cls_size s i mod SB_BLOCK = 0 \<longrightarrow> unat p mod SB_BLOCK = 0"
  shows "\<exists>S' H'. sb_inv S' H' (split_slab_page_into_freelist n p i s) \<and> extends H s H' (split_slab_page_into_freelist n p i s) \<and>
    length (S' i) = length (S i) + n"
  using assms
proof (induction n arbitrary: p S H s)
  case 0
  then show ?case by (intro exI [of _ S] exI [of _ H]) simp
next
  case (Suc n)
  let ?s = "do_slabs_free p 0 i s" and ?H = "H(p := i)" and ?S = "S(i := p # S i)"
  let ?p = "p + of_nat (cls_size s i)"
  have room: "unat p + cls_size s i \<le> unat (mem_current s)" using Suc.prems(5) by simp
  note a = add_chunk [OF Suc.prems(1-4) room Suc.prems(6)]
  note t = cls_tableD [OF a(3)]
  have "unat p + cls_size s i < 2 ^ 64" using room sb_invD(2) [OF Suc.prems(1)] by (simp add: area_ok_def)
  then have up: "unat ?p = unat p + cls_size s i" by (simp add: unat_word_ariths unat_of_nat)
  have "p \<notin> dom (items s)"
  proof
    assume q: "p \<in> dom (items s)"
    then have "cls_ok s (H p)" using sb_invD(4) [OF Suc.prems(1)] by (auto simp: items_ok_def)
    with sb_invD(1) [OF Suc.prems(1)] have "0 < cls_size s (H p)" by (simp add: table_ok_def)
    with Suc.prems(3) [rule_format, OF q] show False by linarith
  qed
  then have ext: "extends H s ?H ?s" using a(2,3) by (auto simp: extends_def live_def fun_eq_iff)
  have 1: "\<forall>q \<in> dom (items ?s). unat q + cls_size ?s (?H q) \<le> unat ?p"
  proof
    fix q assume "q \<in> dom (items ?s)"
    then have "q = p \<or> q \<noteq> p \<and> unat q + cls_size s (H q) \<le> unat p" using Suc.prems(3) by (auto simp: a(2))
    then show "unat q + cls_size ?s (?H q) \<le> unat ?p" using up by (auto simp: t)
  qed
  have 2: "cls_size ?s i mod SB_BLOCK = 0 \<longrightarrow> unat ?p mod SB_BLOCK = 0"
    using Suc.prems(6) unfolding t up by (auto simp: mod_add_eq dvd_eq_mod_eq_0 [symmetric])
  have 3: "unat (mem_base ?s) \<le> unat ?p" "unat ?p + n * cls_size ?s i \<le> unat (mem_current ?s)"
    using Suc.prems(4,5) up by (simp_all add: t a(4))
  have ok: "cls_ok ?s i" using Suc.prems(2) by (simp add: t)
  from Suc.IH [OF a(1) ok 1 3 2] obtain S' H' where "sb_inv S' H' (split_slab_page_into_freelist n ?p i ?s)"
    "extends ?H ?s H' (split_slab_page_into_freelist n ?p i ?s)" "length (S' i) = length (?S i) + n" by blast
  with extends_trans [OF ext] show ?case by (auto simp: cls_size_def)
qed

text \<open>Steps that touch neither chunks nor lists.\<close>

lemma sb_inv_cong:
  assumes "sb_inv S H s" "cls_table s' = cls_table s" "stats_map s' = stats_map s" "mem_free s' = mem_free s"
    and "\<And>i. sc_slots (slabclass s' i) = sc_slots (slabclass s i) \<and> sc_curr (slabclass s' i) = sc_curr (slabclass s i)"
    and "mem_current s' = mem_current s" "mem_avail s' = mem_avail s"
  shows "sb_inv S H s'" "extends H s H s'"
proof -
  note t = cls_tableD [OF assms(2)]
  have its: "items s' = items s" "live s' = live s" "inx s' = inx s" "ipv s' = ipv s"
    using assms(3) by (simp_all add: items_def live_def inx_def ipv_def fun_eq_iff)
  show "sb_inv S H s'"
    using assms(1) unfolding sb_inv_def fl_wf_def items_ok_def area_ok_def t its assms(3,4,6,7)
      assms(5) [THEN conjunct1] assms(5) [THEN conjunct2] .
  show "extends H s H s'" using assms(2) its by (simp add: extends_def)
qed

lemma grow_inv:
  assumes "sb_inv S H s" shows "sb_inv S H (grow_slab_list i s)" "extends H s H (grow_slab_list i s)"
    "mem_current (grow_slab_list i s) = mem_current s" "mem_avail (grow_slab_list i s) = mem_avail s"
proof -
  have "sb_inv S H (grow_slab_list i s) \<and> extends H s H (grow_slab_list i s)"
    by (intro conjI sb_inv_cong [OF assms]) (auto simp: grow_slab_list_def Let_def cls_table_def cls_size_def fun_eq_iff)
  then show "sb_inv S H (grow_slab_list i s)" "extends H s H (grow_slab_list i s)" by auto
  show "mem_current (grow_slab_list i s) = mem_current s" "mem_avail (grow_slab_list i s) = mem_avail s"
    by (simp_all add: grow_slab_list_def Let_def)
qed

text \<open>Memory is taken from the end of the area, in whole blocks.\<close>

lemma memory_allocate_inv:
  assumes inv: "sb_inv S H s" and n: "n mod SB_BLOCK = 0" "0 < n" and r: "memory_allocate n s = (p, s')" "p \<noteq> 0"
  shows "sb_inv S H s'" "extends H s H s'" "p = mem_current s" "unat (mem_current s') = unat p + n"
proof -
  note w = sb_invD [OF inv]
  have "8 dvd n" using n(1) dvd_trans [of 8 SB_BLOCK n] by (simp add: SB_BLOCK_def mod_eq_0_iff_dvd)
  then have d: "p = mem_current s" "n \<le> mem_avail s"
    "s' = s \<lparr> mem_current := mem_current s + of_nat n, mem_avail := (if n < mem_avail s then mem_avail s - n else 0) \<rparr>"
    using r by (auto simp: memory_allocate_def Let_def CHUNK_ALIGN_BYTES_def dvd_eq_mod_eq_0 split: if_splits)
  have "unat (mem_current s) + n < 2 ^ 64" using w(2) d(2) by (simp add: area_ok_def)
  then have up: "unat (mem_current s') = unat (mem_current s) + n"
    by (simp add: d(3) unat_word_ariths unat_of_nat)
  then show "unat (mem_current s') = unat p + n" by (simp add: d(1))
  show "p = mem_current s" by (rule d(1))
  have ar: "area_ok s'"
    using w(2) d(2) n(1) unfolding area_ok_def up by (auto simp: d(3))
  have same: "cls_table s' = cls_table s" "stats_map s' = stats_map s" "mem_free s' = mem_free s" "slabclass s' = slabclass s"
    by (simp_all add: d(3) cls_table_def cls_size_def fun_eq_iff)
  note t = cls_tableD [OF same(1)]
  have its: "items s' = items s" "live s' = live s" "inx s' = inx s" "ipv s' = ipv s"
    using same(2) by (simp_all add: items_def live_def inx_def ipv_def fun_eq_iff)
  show "extends H s H s'" using same(1) its by (simp add: extends_def)
  have "chunks_ok (dom (items s)) (\<lambda>p. cls_size s (H p)) (unat (mem_base s)) (unat (mem_current s'))"
    by (rule chunks_ok_mono [OF w(6)]) (simp add: up)
  with w ar show "sb_inv S H s'"
    unfolding sb_inv_def t its same fl_wf_def items_ok_def by blast
qed

lemma newslab_inv:
  assumes inv: "sb_inv S H s" and ok: "cls_ok s i"
  shows "\<exists>S' H'. sb_inv S' H' (snd (do_slabs_newslab i s)) \<and> extends H s H' (snd (do_slabs_newslab i s))"
proof (cases "mem_limit s \<noteq> 0 \<and> mem_malloced s + ITEM_SIZE_MAX > mem_limit s \<and> sc_slabs (slabclass s i) > 0")
  case True
  with inv show ?thesis by (auto simp: do_slabs_newslab_def Let_def intro!: exI [of _ S] exI [of _ H])
next
  case False
  note g = grow_inv [OF inv, of i]
  obtain p s2 where m: "memory_allocate ITEM_SIZE_MAX (grow_slab_list i s) = (p, s2)" by fastforce
  show ?thesis
  proof (cases "p = 0")
    case True
    have "mem_current (grow_slab_list i s) \<noteq> 0"
      using sb_invD(1,2) [OF g(1)] by (auto simp: area_ok_def table_ok_def unat_eq_0)
    then have "s2 = grow_slab_list i s"
      using m True by (auto simp: memory_allocate_def Let_def split: if_splits)
    with True m False g show ?thesis by (auto simp: do_slabs_newslab_def Let_def intro!: exI [of _ S] exI [of _ H])
  next
    case pn: False
    have "ITEM_SIZE_MAX mod SB_BLOCK = 0" "0 < ITEM_SIZE_MAX" by (simp_all add: ITEM_SIZE_MAX_def SB_BLOCK_def)
    note a = memory_allocate_inv [OF g(1) this m pn]
    have ext: "extends H s H s2" by (rule extends_trans [OF g(2) a(2)])
    note t = cls_tableD [OF ext [unfolded extends_def, THEN conjunct1]]
    note w = sb_invD [OF g(1)]
    have 1: "sb_inv S H s2" "cls_ok s2 i" using a(1) ok by (simp_all add: t)
    have 2: "\<forall>q \<in> dom (items s2). unat q + cls_size s2 (H q) \<le> unat p"
    proof -
      have "items s2 = items (grow_slab_list i s)" "cls_size s2 = cls_size (grow_slab_list i s)"
        using m pn by (auto simp: memory_allocate_def Let_def items_def cls_size_def fun_eq_iff split: if_splits)
      with w(6) show ?thesis unfolding chunks_ok_def a(3) by auto
    qed
    have 3: "unat (mem_base s2) \<le> unat p" using w(2) cls_tableD(5) [of s2 "grow_slab_list i s"] a(2,3)
      unfolding area_ok_def extends_def by auto
    have "sc_perslab (slabclass s2 i) * cls_size s2 i \<le> ITEM_SIZE_MAX"
      using sb_invD(1) [OF a(1)] ok t(6) by (auto simp: table_ok_def mult.commute)
    then have 4: "unat p + sc_perslab (slabclass s2 i) * cls_size s2 i \<le> unat (mem_current s2)" by (simp add: a(4))
    have 5: "cls_size s2 i mod SB_BLOCK = 0 \<longrightarrow> unat p mod SB_BLOCK = 0" using w(2) by (simp add: area_ok_def a(3))
    from split_slab_inv [OF 1 2 3 4 5] obtain S' H' where s: "sb_inv S' H' (split_slab_page_into_freelist (sc_perslab (slabclass s2 i)) p i s2)"
      "extends H s2 H' (split_slab_page_into_freelist (sc_perslab (slabclass s2 i)) p i s2)" by blast
    let ?s3 = "split_slab_page_into_freelist (sc_perslab (slabclass s2 i)) p i s2"
    have r: "snd (do_slabs_newslab i s) =
        (upd_class i (\<lambda>c. c \<lparr> sc_list := sc_list c @ [p], sc_slabs := sc_slabs c + 1 \<rparr>) ?s3)
           \<lparr> mem_malloced := mem_malloced ?s3 + ITEM_SIZE_MAX \<rparr>"
      using False m pn by (auto simp: do_slabs_newslab_def Let_def)
    have "sb_inv S' H' (snd (do_slabs_newslab i s)) \<and> extends H' ?s3 H' (snd (do_slabs_newslab i s))"
      unfolding r by (intro conjI sb_inv_cong [OF s(1)]) (auto simp: cls_table_def cls_size_def fun_eq_iff)
    with extends_trans [OF extends_trans [OF ext s(2)]] show ?thesis by blast
  qed
qed

subsection \<open>Allocation\<close>

lemma finite_live: "finite (dom (items s)) \<Longrightarrow> finite {p. live s p}"
  by (rule finite_subset [rotated]) (auto simp: live_def)

lemma sb_inv_nonnull:
  assumes "sb_inv S H s" "p \<in> dom (items s)" shows "p \<noteq> 0"
proof -
  have "unat (mem_base s) \<le> unat p" using sb_invD(6) [OF assms(1)] assms(2) unfolding chunks_ok_def by blast
  moreover have "mem_base s \<noteq> 0" using sb_invD(1) [OF assms(1)] by (simp add: table_ok_def)
  ultimately show ?thesis by (auto simp: unat_eq_0)
qed

text \<open>The outcome of an allocation of \<open>n\<close> bytes from class \<open>i\<close>, as the caller sees it.\<close>

definition allocated :: "nat \<Rightarrow> nat \<Rightarrow> SlabAllocator \<Rightarrow> ptr \<Rightarrow> SlabAllocator \<Rightarrow> bool" where
  "allocated n i s p s' \<longleftrightarrow> (\<forall>q. live s q \<longrightarrow> items s' q = items s q) \<and>
     (if p = 0 then live s' = live s else \<not> live s p \<and> live s' = (live s)(p := True) \<and> items s' p = Some (n, i, p))"

lemma take_chunk_inv:
  assumes inv: "sb_inv S H s" and ok: "cls_ok s i" "0 < n" "n \<le> cls_size s i" and cur: "sc_curr (slabclass s i) \<noteq> 0"
  shows "\<exists>p s' S'. take_chunk n i s = Some (p, s') \<and> p \<noteq> 0 \<and> sb_inv S' H s' \<and> cls_table s' = cls_table s \<and> allocated n i s p s'"
proof -
  note w = sb_invD [OF inv]
  obtain p ps where li: "S i = p # ps" using cur fl_wfD(4) [OF w(3), of i] by (cases "S i") auto
  then have hp: "H p = i" and ex: "\<exists>k. items s p = Some (k, 0, p)" using items_okD(2) [OF w(4), of p i] by auto
  then obtain k where ip: "items s p = Some (k, 0, p)" by blast
  have p0: "p \<noteq> 0" using sb_inv_nonnull [OF inv] ip by blast
  have nl: "\<not> live s p" using ip by (simp add: live_def)
  from take_chunk_effect [OF w(3) li ip p0] obtain s' where
    t: "take_chunk n i s = Some (p, s')" and fl: "fl_wf (S(i := ps)) s'" and its: "items s' = (items s)(p \<mapsto> (n, i, p))"
    and tb: "cls_table s' = cls_table s" and fr: "mem_free s' = mem_free s - int (cls_size s i)"
    and m: "mem_current s' = mem_current s" "mem_avail s' = mem_avail s" by blast
  note tt = cls_tableD [OF tb]
  have i0: "i \<noteq> 0" using ok(1) by (simp add: cls_ok_def)
  have lv: "live s' = (live s)(p := True)" using i0 by (auto simp: live_def its fun_eq_iff)
  then have set: "{q. live s' q} = insert p {q. live s q}" by auto
  have dp: "p \<notin> set ps" using fl_wfD(1) [OF w(3), of i] li by simp
  have "items_ok (S(i := ps)) H s'"
    unfolding items_ok_def its tt
  proof (intro conjI allI impI)
    fix q a c d assume q: "((items s)(p \<mapsto> (n, i, p))) q = Some (a, c, d)"
    show "d = q" "cls_ok s (H q)" "if c = 0 then q \<in> set ((S(i := ps)) (H q)) else c = H q \<and> 0 < a \<and> a \<le> cls_size s c"
      using q items_okD(1) [OF w(4), of q a c d] ok hp li i0 by (auto split: if_splits)
  next
    fix j q assume q: "q \<in> set ((S(i := ps)) j)"
    have "q \<in> set (S j) \<and> q \<noteq> p" using q li dp fl_wfD(6) [OF w(3), of p i j] by (auto split: if_splits)
    then show "\<exists>a. ((items s)(p \<mapsto> (n, i, p))) q = Some (a, 0, q)" "H q = j"
      using items_okD(2) [OF w(4), of q j] by auto
  qed
  moreover have "dom (items s') = dom (items s)" using ip by (auto simp: its)
  moreover have "mem_free s' = int (mem_limit s) - (\<Sum>q | live s' q. int (cls_size s (H q)))"
    unfolding set using nl finite_live [OF w(5)] w(7) fr hp by simp
  ultimately have "sb_inv (S(i := ps)) H s'"
    using w(1,2,5,6) fl unfolding sb_inv_def tt area_ok_def m by simp
  moreover have "allocated n i s p s'" using nl lv its p0 by (auto simp: allocated_def)
  ultimately show ?thesis using t p0 tb by blast
qed

lemma do_slabs_alloc_inv:
  assumes inv: "sb_inv S H s" and ok: "cls_ok s i" "0 < n" "n \<le> cls_size s i"
  shows "\<exists>p s' S' H'. do_slabs_alloc n i s = Some (p, s') \<and> sb_inv S' H' s' \<and> cls_table s' = cls_table s \<and> allocated n i s p s'"
proof (cases "sc_curr (slabclass s i) = 0")
  case False
  with take_chunk_inv [OF inv ok False] do_slabs_alloc_alt [OF ok(1), of n] show ?thesis by auto
next
  case True
  obtain b s1 where n: "do_slabs_newslab i s = (b, s1)" by fastforce
  from newslab_inv [OF inv ok(1)] n obtain S1 H1 where s1: "sb_inv S1 H1 s1" and ext: "extends H s H1 s1" by auto
  then have tb: "cls_table s1 = cls_table s" and lv: "live s1 = live s"
    and same: "\<And>q. live s q \<Longrightarrow> items s1 q = items s q" by (auto simp: extends_def live_def)
  note t = cls_tableD [OF tb]
  show ?thesis
  proof (cases "\<not> b \<or> sc_curr (slabclass s1 i) = 0")
    case stop: True
    then have "do_slabs_alloc n i s = Some (0, s1)" using True n do_slabs_alloc_alt [OF ok(1), of n] by auto
    with s1 tb lv same show ?thesis by (auto simp: allocated_def)
  next
    case go: False
    then have "do_slabs_alloc n i s = take_chunk n i s1" using True n do_slabs_alloc_alt [OF ok(1), of n] by auto
    moreover obtain p s' S' where "take_chunk n i s1 = Some (p, s')" "sb_inv S' H1 s'" "cls_table s' = cls_table s1" "allocated n i s1 p s'"
      using take_chunk_inv [OF s1, of i n] ok go by (auto simp: t)
    ultimately show ?thesis using tb lv same by (auto simp: allocated_def)
  qed
qed

subsection \<open>Release\<close>

lemma unlock_simps [simp]:
  "inx (sb_unlock s) = inx s" "ipv (sb_unlock s) = ipv s" "items (sb_unlock s) = items s" "live (sb_unlock s) = live s"
  "slabclass (sb_unlock s) = slabclass s" "stats_map (sb_unlock s) = stats_map s" "mem_free (sb_unlock s) = mem_free s"
  "mem_current (sb_unlock s) = mem_current s" "mem_avail (sb_unlock s) = mem_avail s" "mem_limit (sb_unlock s) = mem_limit s"
  by (simp_all add: sb_unlock_def inx_def ipv_def items_def live_def fun_eq_iff)

lemma fl_wf_unlock [simp]: "fl_wf S (sb_unlock s) = fl_wf S s"
  by (simp add: fl_wf_def)

lemma sb_free_inv:
  assumes inv: "sb_inv S H s" and ul: "\<not> sb_locked s" and ip: "items s p = Some (n, i, p)" "i \<noteq> 0"
  shows "\<exists>s' S'. sb_free p s m = Some (n, s', memset0 p n m) \<and> sb_inv S' H s' \<and> cls_table s' = cls_table s \<and>
    live s' = (live s)(p := False) \<and> (\<forall>q. q \<noteq> p \<longrightarrow> items s' q = items s q) \<and> hd_opt (S' i) = Some p"
proof -
  note w = sb_invD [OF inv]
  have hp: "H p = i" "cls_ok s i" "0 < n" using items_okD(1) [OF w(4) ip(1)] ip(2) by auto
  have nl: "\<forall>j. p \<notin> set (S j)" using items_okD(2) [OF w(4), of p] ip by (metis fst_conv option.inject snd_conv)
  let ?s1 = "upd_item p (\<lambda>i. i \<lparr> it_clsid := 0, it_size := 0 \<rparr>) (s \<lparr> sb_locked := True \<rparr>)"
  let ?s2 = "do_slabs_free p n i ?s1" and ?S = "S(i := p # S i)"
  obtain it where it: "stats_map s p = Some it" "istrip it = (n, i, p)" using ip(1) by (auto simp: items_def)
  have s1: "inx ?s1 = inx s" "ipv ?s1 = ipv s" "items ?s1 = (items s)(p \<mapsto> (0, 0, p))" "slabclass ?s1 = slabclass s"
    "\<And>q. stats_map ?s1 q = None \<longleftrightarrow> stats_map s q = None"
    using it by (auto simp: inx_def ipv_def items_def istrip_def fun_eq_iff)
  have ok1: "cls_ok ?s1 i" using hp(2) by (simp add: cls_ok_def)
  have fl1: "fl_wf S ?s1" using w(3) unfolding fl_wf_def s1 .
  note e = do_slabs_free_effect [OF ok1 nl [rule_format] fl1, where n = n]
  let ?s = "sb_unlock ?s2"
  have r: "sb_free p s m = Some (n, ?s, memset0 p n m)"
    using ul it w(1) by (simp add: sb_free_def sb_lock_def istrip_def Let_def table_ok_def)
  have tb: "cls_table ?s = cls_table s" using e(6) ul by (simp add: cls_table_def sb_unlock_def cls_size_def fun_eq_iff)
  note t = cls_tableD [OF tb]
  have its: "items ?s = (items s)(p \<mapsto> (0, 0, p))" using e(5) s1(3) by simp
  have "live ?s q = ((live s)(p := False)) q" for q unfolding live_def [of ?s] its by (auto simp: live_def)
  then have lv: "live ?s = (live s)(p := False)" by blast
  then have set: "{q. live ?s q} = {q. live s q} - {p}" by auto
  have lp: "live s p" using ip by (simp add: live_def)
  have "fl_wf ?S ?s" using do_slabs_free_fl [OF ok1 nl fl1, of n] by simp
  moreover have "items_ok ?S H ?s"
    unfolding items_ok_def its t
  proof (intro conjI allI impI)
    fix q a c d assume q: "((items s)(p \<mapsto> (0, 0, p))) q = Some (a, c, d)"
    show "d = q" "cls_ok s (H q)" "if c = 0 then q \<in> set (?S (H q)) else c = H q \<and> 0 < a \<and> a \<le> cls_size s c"
      using q items_okD(1) [OF w(4), of q a c d] hp by (auto split: if_splits)
  next
    fix j q assume q: "q \<in> set (?S j)"
    then have "q = p \<and> j = i \<or> q \<noteq> p \<and> q \<in> set (S j)" using nl by (auto split: if_splits)
    then show "\<exists>a. ((items s)(p \<mapsto> (0, 0, p))) q = Some (a, 0, q)" "H q = j"
      using items_okD(2) [OF w(4), of q j] hp by auto
  qed
  moreover have "dom (items ?s) = dom (items s)" using ip unfolding its by auto
  moreover have "mem_free ?s = int (mem_limit s) - (\<Sum>q | live ?s q. int (cls_size s (H q)))"
    unfolding set using lp finite_live [OF w(5)] w(7) e(7) hp s1(4)
    by (simp add: sum_diff1 cls_size_def)
  moreover have "mem_current ?s = mem_current s" "mem_avail ?s = mem_avail s" using e(8,9) by simp_all
  ultimately have "sb_inv ?S H ?s"
    using w(1,2,5,6) unfolding sb_inv_def t area_ok_def by simp
  with r tb lv its show ?thesis by (intro exI [of _ ?s] exI [of _ ?S]) auto
qed

subsection \<open>The class table\<close>

text \<open>
  A class of the table: not empty, a slab holds its chunks, and its size is either a multiple of
  the block size or within the same block as the size of the class before it.
\<close>

definition good_class :: "SlabAllocator \<Rightarrow> nat \<Rightarrow> bool" where
  "good_class s k \<longleftrightarrow> 0 < cls_size s k \<and> cls_size s k * sc_perslab (slabclass s k) \<le> ITEM_SIZE_MAX \<and>
     (cls_size s k mod SB_BLOCK = 0 \<or> cls_size s k div SB_BLOCK = (if k = 1 then 0 else cls_size s (k - 1) div SB_BLOCK))"

text \<open>Everything the loop does not touch, and the lists of every class.\<close>

definition frame :: "SlabAllocator \<Rightarrow> (nat \<Rightarrow> slabclass_t) \<times> SlabAllocator" where
  "frame s = (\<lambda>i. (slabclass s i) \<lparr> sc_size := 0, sc_perslab := 0 \<rparr>, s \<lparr> slabclass := \<lambda>_. new_slabclass \<rparr>)"

lemma frame_set_class [simp]: "frame (set_class_size i n s) = frame s"
  by (auto simp: frame_def set_class_size_def upd_class_def fun_eq_iff)

lemma set_class_size_simps [simp]:
  "cls_size (set_class_size i n s) = (cls_size s)(i := n)"
  "sc_perslab (slabclass (set_class_size i n s) k) = (if k = i then ITEM_SIZE_MAX div n else sc_perslab (slabclass s k))"
  by (auto simp: set_class_size_def cls_size_def fun_eq_iff)

lemma good_class_cong:
  assumes "cls_size s' k = cls_size s k" "cls_size s' (k - 1) = cls_size s (k - 1)"
    "sc_perslab (slabclass s' k) = sc_perslab (slabclass s k)"
  shows "good_class s' k = good_class s k"
  using assms by (simp add: good_class_def)

lemma init_classes_good:
  assumes "init_classes num den i n pre s = (j, s')" "0 < den" "den \<le> num" "1 \<le> i" "0 < pre" "pre \<le> n"
    and "pre div SB_BLOCK = (if i = 1 then 0 else cls_size s (i - 1) div SB_BLOCK)"
  shows "i \<le> j \<and> (\<forall>k < i. cls_size s' k = cls_size s k \<and> sc_perslab (slabclass s' k) = sc_perslab (slabclass s k)) \<and>
    (\<forall>k. i \<le> k \<longrightarrow> k < j \<longrightarrow> good_class s' k) \<and> frame s' = frame s"
  using assms
proof (induction num den i n pre s rule: init_classes.induct)
  case (1 num den i n pre s)
  show ?case
  proof (cases "i < POWER_LARGEST \<and> n * num \<le> ITEM_SIZE_MAX * den")
    case False
    with "1.prems"(1) show ?thesis by (simp add: init_classes.simps [of num den i n])
  next
    case True
    define m where "m = (if n mod CHUNK_ALIGN_BYTES \<noteq> 0 then n + (CHUNK_ALIGN_BYTES - n mod CHUNK_ALIGN_BYTES) else n)"
    define cut where "cut \<longleftrightarrow> pre div SB_BLOCK < m div SB_BLOCK \<and> m mod SB_BLOCK \<noteq> 0"
    define s1 where "s1 = (if cut then set_class_size i (m div SB_BLOCK * SB_BLOCK) s else s)"
    define h where "h = (if cut then i + 1 else i)"
    let ?s = "set_class_size h m s1"
    have r: "init_classes num den (h + 1) (m * num div den) m ?s = (j, s')"
      using "1.prems"(1) unfolding init_classes.simps [of num den i n] if_P [OF True] Let_def s1_def h_def cut_def m_def .
    have m: "n \<le> m" "0 < m" "pre \<le> m" using "1.prems"(5,6) by (auto simp: m_def)
    have "m * den \<le> m * num" using "1.prems"(3) by simp
    then have grow: "m \<le> m * num div den" using "1.prems"(2) by (simp add: less_eq_div_iff_mult_less_eq)
    have h1: "1 \<le> h + 1" and pd: "m div SB_BLOCK = (if h + 1 = 1 then 0 else cls_size ?s (h + 1 - 1) div SB_BLOCK)"
      using "1.prems"(4) by (auto simp: h_def)
    note ih = "1.IH" [OF True m_def cut_def s1_def h_def, OF r "1.prems"(2,3) h1 m(2) grow pd]
    then have IH: "h + 1 \<le> j" "\<And>k. k < h + 1 \<Longrightarrow> cls_size s' k = cls_size ?s k \<and> sc_perslab (slabclass s' k) = sc_perslab (slabclass ?s k)"
      "\<And>k. h + 1 \<le> k \<Longrightarrow> k < j \<Longrightarrow> good_class s' k" "frame s' = frame ?s" by auto
    have div: "m div SB_BLOCK * SB_BLOCK * (ITEM_SIZE_MAX div (m div SB_BLOCK * SB_BLOCK)) \<le> ITEM_SIZE_MAX"
      "m * (ITEM_SIZE_MAX div m) \<le> ITEM_SIZE_MAX" by (rule times_div_less_eq_dividend)+
    have gh: "good_class ?s h"
    proof (cases cut)
      case True
      then show ?thesis using m(2) div(2) "1.prems"(4) by (auto simp: good_class_def h_def s1_def SB_BLOCK_def)
    next
      case False
      then have "m mod SB_BLOCK = 0 \<or> m div SB_BLOCK = pre div SB_BLOCK"
        using div_le_mono [OF m(3), of SB_BLOCK] by (auto simp: cut_def)
      with False "1.prems"(4,7) m(2) div(2) show ?thesis by (auto simp: good_class_def h_def s1_def)
    qed
    have gi: "good_class ?s i" if cut
      using that m(2) div(1) by (auto simp: good_class_def h_def s1_def cut_def SB_BLOCK_def)
    have "good_class s' k" if "i \<le> k" "k < j" for k
    proof (cases "h + 1 \<le> k")
      case False
      have "good_class s' k = good_class ?s k" by (rule good_class_cong) (use False IH(2) in auto)
      moreover have "k = h \<or> cut \<and> k = i" using False that(1) by (auto simp: h_def split: if_splits)
      ultimately show ?thesis using gh gi by auto
    qed (use IH(3) that in simp)
    moreover have "cls_size s' k = cls_size s k \<and> sc_perslab (slabclass s' k) = sc_perslab (slabclass s k)" if "k < i" for k
      using IH(2) [of k] that by (auto simp: h_def s1_def)
    ultimately show ?thesis using IH(1,4) by (auto simp: h_def s1_def split: if_splits)
  qed
qed

subsection \<open>Initialisation\<close>

lemma to_next_block: "(x + (4096 - x mod 4096)) mod 4096 = (0 :: nat)"
proof -
  have "x mod 4096 \<le> 4096" by (rule order.strict_implies_order) simp
  then have "(x mod 4096 + (4096 - x mod 4096)) mod 4096 = 0" by simp
  then show ?thesis by (simp only: mod_add_left_eq)
qed

lemma unat_add_mod_block: "unat (r + of_nat k :: 64 word) mod 4096 = (unat r + k) mod 4096"
proof -
  have "unat (r + of_nat k) = (unat r + k) mod 2 ^ 64"
    unfolding unat_word_ariths unat_of_nat by (simp add: mod_add_right_eq)
  moreover have "(4096 :: nat) dvd 2 ^ 64" by (rule dvdI [of _ _ "2 ^ 52"]) simp
  ultimately show ?thesis by (simp only: mod_mod_cancel)
qed

lemma mmap_malloc_aligned: "unat (mmap_malloc a) mod SB_BLOCK = 0"
proof (cases a)
  case (Some r)
  have "unat (r + of_nat (4096 - unat r mod 4096)) mod 4096 = 0"
    unfolding unat_add_mod_block by (rule to_next_block)
  then show ?thesis using Some by (simp add: mmap_malloc_def SB_BLOCK_def del: of_nat_diff of_nat_add)
qed (simp add: mmap_malloc_def)

lemma preallocate_inv:
  assumes "sb_inv S H s" "\<forall>i. cls_ok s i \<longrightarrow> good_class s i" "slabs_preallocate [k ..< m] (k - 1) (power_largest s) s = Some s'" "1 \<le> k"
  shows "\<exists>S' H'. sb_inv S' H' s' \<and> cls_table s' = cls_table s"
  using assms
proof (induction "m - k" arbitrary: k S H s)
  case 0
  then show ?case by auto
next
  case (Suc n)
  then have up: "[k ..< m] = k # [Suc k ..< m]" by (simp add: upt_rec)
  show ?case
  proof (cases "k > power_largest s")
    case True
    with Suc.prems up show ?thesis by auto
  next
    case False
    then have ok: "cls_ok s k" using Suc.prems(4) by (simp add: cls_ok_def)
    obtain b s1 where n: "do_slabs_newslab k s = (b, s1)" by fastforce
    from newslab_inv [OF Suc.prems(1) ok] n obtain S1 H1 where s1: "sb_inv S1 H1 s1" "cls_table s1 = cls_table s"
      by (auto simp: extends_def)
    note t = cls_tableD [OF s1(2)]
    have r: "slabs_preallocate [Suc k ..< m] (Suc k - 1) (power_largest s1) s1 = Some s'"
      using Suc.prems(3,4) up n False by (auto simp: t split: if_splits)
    have g: "\<forall>i. cls_ok s1 i \<longrightarrow> good_class s1 i" 
    proof -
      have "good_class s1 i = good_class s i" for i by (rule good_class_cong) (simp_all add: t)
      with Suc.prems(2) show ?thesis by (simp add: t)
    qed
    from Suc.hyps(1) [OF _ s1(1) g r] Suc.hyps(2) s1(2) show ?thesis by auto
  qed
qed

lemma slabs_init_inv:
  assumes r: "slabs_init limit num den True (Some a) initial new_SlabAllocator = Some (base, s)"
    and f: "0 < den" "den \<le> num" and l: "limit \<noteq> 0" "mmap_malloc (Some a) \<noteq> 0" "unat (mmap_malloc (Some a)) + limit < 2 ^ 64"
  shows "\<exists>S H. sb_inv S H s \<and> (\<forall>i. cls_ok s i \<longrightarrow> good_class s i) \<and> \<not> sb_locked s"
proof -
  let ?b = "mmap_malloc (Some a)"
  let ?s3 = "new_SlabAllocator \<lparr> mem_limit := limit, mem_free := int limit, mem_base := ?b, mem_current := ?b, mem_avail := limit,
     slabclass := \<lambda>_. new_slabclass \<rparr>"
  let ?n = "SB_PREFIX_SIZE + SB_CHUNK_SIZE"
  obtain i s4 where ic: "init_classes num den POWER_SMALLEST ?n ?n ?s3 = (i, s4)" by fastforce
  have "1 \<le> POWER_SMALLEST" "0 < ?n" "?n \<le> ?n"
    "?n div SB_BLOCK = (if POWER_SMALLEST = 1 then 0 else cls_size ?s3 (POWER_SMALLEST - 1) div SB_BLOCK)"
    by (simp_all add: POWER_SMALLEST_def SB_PREFIX_SIZE_def SB_CHUNK_SIZE_def SB_BLOCK_def)
  note ig = init_classes_good [OF ic f this]
  define s5 where "s5 = upd_class i (\<lambda>c. c \<lparr> sc_size := ITEM_SIZE_MAX, sc_perslab := 1 \<rparr>) (s4 \<lparr> power_largest := i \<rparr>)"
  define s6 where "s6 = (case initial of None \<Rightarrow> s5 | Some n \<Rightarrow> s5 \<lparr> mem_malloced := n \<rparr>)"
  have pre: "slabs_preallocate [POWER_SMALLEST ..< Suc POWER_LARGEST] 0 i s6 = Some s"
    using r l(2) ic unfolding s5_def s6_def
    by (cases initial) (auto simp: slabs_init_def Let_def simp del: upt_Suc split: bind_splits if_splits)
  have i1: "1 \<le> i" using ig by (simp add: POWER_SMALLEST_def)
  have fr: "frame s4 = frame ?s3" and g4: "\<And>k. 1 \<le> k \<Longrightarrow> k < i \<Longrightarrow> good_class s4 k"
    using ig by (auto simp: POWER_SMALLEST_def)
  have cs: "cls_size s6 = (cls_size s4)(i := ITEM_SIZE_MAX)" "power_largest s6 = i"
    "\<And>k. sc_perslab (slabclass s6 k) = (if k = i then 1 else sc_perslab (slabclass s4 k))"
    by (auto simp: s6_def s5_def cls_size_def fun_eq_iff split: option.split)
  have good: "good_class s6 k" if "cls_ok s6 k" for k
  proof (cases "k = i")
    case True
    then show ?thesis by (simp add: good_class_def cs ITEM_SIZE_MAX_def SB_BLOCK_def)
  next
    case False
    then have k: "1 \<le> k" "k < i" using that by (auto simp: cls_ok_def cs)
    then have "good_class s6 k = good_class s4 k" by (intro good_class_cong) (auto simp: cs)
    then show ?thesis using g4 [OF k] by simp
  qed
  have sl: "sc_slots (slabclass s6 k) = None" "sc_curr (slabclass s6 k) = 0" for k
  proof -
    have "(slabclass s4 k) \<lparr> sc_size := 0, sc_perslab := 0 \<rparr> = new_slabclass \<lparr> sc_size := 0, sc_perslab := 0 \<rparr>"
      using fr by (simp add: frame_def fun_eq_iff)
    then have "sc_slots (slabclass s4 k) = None" "sc_curr (slabclass s4 k) = 0"
      by (cases "slabclass s4 k"; simp add: new_slabclass_def)+
    then show "sc_slots (slabclass s6 k) = None" "sc_curr (slabclass s6 k) = 0"
      by (auto simp: s6_def s5_def split: option.split)
  qed
  have "s4 \<lparr> slabclass := \<lambda>_. new_slabclass \<rparr> = ?s3 \<lparr> slabclass := \<lambda>_. new_slabclass \<rparr>" using fr by (simp add: frame_def)
  then have "stats_map s4 = Map.empty" "mem_limit s4 = limit" "mem_free s4 = int limit" "mem_base s4 = ?b"
    "mem_current s4 = ?b" "mem_avail s4 = limit" "\<not> sb_locked s4"
    by (cases s4; simp add: new_SlabAllocator_def)+
  then have m: "stats_map s6 = Map.empty" "mem_limit s6 = limit" "mem_free s6 = int limit" "mem_base s6 = ?b"
    "mem_current s6 = ?b" "mem_avail s6 = limit" "\<not> sb_locked s6"
    by (auto simp: s6_def s5_def split: option.split)
  then have its: "items s6 = Map.empty" by (simp add: items_def fun_eq_iff)
  have inv: "sb_inv (\<lambda>_. []) (\<lambda>_. 0) s6"
    using good l mmap_malloc_aligned [of "Some a"]
    by (simp add: sb_inv_def table_ok_def area_ok_def fl_wf_def items_ok_def chunks_ok_def live_def its m sl good_class_def)
  have "slabs_preallocate [POWER_SMALLEST ..< Suc POWER_LARGEST] (POWER_SMALLEST - 1) (power_largest s6) s6 = Some s"
    using pre by (simp add: cs POWER_SMALLEST_def del: upt_Suc)
  with preallocate_inv [OF inv] good obtain S H where fin: "sb_inv S H s" "cls_table s = cls_table s6"
    unfolding POWER_SMALLEST_def by blast
  note t = cls_tableD [OF fin(2)]
  have "good_class s k = good_class s6 k" for k by (rule good_class_cong) (simp_all add: t)
  with fin(1) show ?thesis using good m(7) by (auto simp: t)
qed

subsection \<open>Properties\<close>

lemma slabs_clsid_first:
  assumes "slabs_clsid s n \<noteq> 0"
  shows "cls_ok s (slabs_clsid s n)" "0 < n" "n \<le> cls_size s (slabs_clsid s n)"
    and "1 \<le> j \<Longrightarrow> j < slabs_clsid s n \<Longrightarrow> cls_size s j < n"
proof -
  obtain i where i: "find (\<lambda>res. \<not> n > sc_size (slabclass s res)) [POWER_SMALLEST ..< Suc (power_largest s)] = Some i"
    and c: "slabs_clsid s n = i" and n: "0 < n"
    using assms by (auto simp: slabs_clsid_def split: if_splits option.splits)
  from i obtain k where k: "k < length [POWER_SMALLEST ..< Suc (power_largest s)]"
    "n \<le> sc_size (slabclass s i)" "i = [POWER_SMALLEST ..< Suc (power_largest s)] ! k"
    "\<forall>j < k. \<not> (\<not> n > sc_size (slabclass s ([POWER_SMALLEST ..< Suc (power_largest s)] ! j)))"
    unfolding find_Some_iff by auto
  have ik: "i = Suc k" "i \<le> power_largest s" using k(1,3) by (auto simp: POWER_SMALLEST_def simp del: upt_Suc)
  show "cls_ok s (slabs_clsid s n)" "0 < n" "n \<le> cls_size s (slabs_clsid s n)"
    using ik k(2) n c by (auto simp: cls_ok_def cls_size_def)
  show "cls_size s j < n" if "1 \<le> j" "j < slabs_clsid s n"
  proof -
    have "[POWER_SMALLEST ..< Suc (power_largest s)] ! (j - 1) = j"
      using that ik c by (simp add: POWER_SMALLEST_def del: upt_Suc)
    with k(4) [rule_format, of "j - 1"] that ik c show ?thesis by (auto simp: cls_size_def)
  qed
qed

text \<open>Allocation as all entry points share it: lock, choose the class, take a chunk, unlock.\<close>

lemma locked_inv: "sb_inv S H (s \<lparr> sb_locked := b \<rparr>) = sb_inv S H s"
proof -
  have e: "items (s \<lparr> sb_locked := b \<rparr>) = items s" "live (s \<lparr> sb_locked := b \<rparr>) = live s" "inx (s \<lparr> sb_locked := b \<rparr>) = inx s"
    "ipv (s \<lparr> sb_locked := b \<rparr>) = ipv s" "cls_size (s \<lparr> sb_locked := b \<rparr>) = cls_size s" "cls_ok (s \<lparr> sb_locked := b \<rparr>) = cls_ok s"
    by (simp_all add: items_def live_def inx_def ipv_def cls_size_def cls_ok_def fun_eq_iff)
  show ?thesis by (simp add: sb_inv_def table_ok_def area_ok_def fl_wf_def items_ok_def e)
qed

lemma locked_same [simp]:
  "items (s \<lparr> sb_locked := b \<rparr>) = items s" "live (s \<lparr> sb_locked := b \<rparr>) = live s" "cls_size (s \<lparr> sb_locked := b \<rparr>) = cls_size s"
  "cls_ok (s \<lparr> sb_locked := b \<rparr>) = cls_ok s" "slabs_clsid (s \<lparr> sb_locked := b \<rparr>) = slabs_clsid s"
  by (simp_all add: items_def live_def cls_size_def cls_ok_def slabs_clsid_def fun_eq_iff)

lemma class_alloc_inv:
  assumes inv: "sb_inv S H s"
  shows "\<exists>p s' S' H'. do_slabs_alloc n (slabs_clsid s n) s = Some (p, s') \<and> sb_inv S' H' s' \<and>
    cls_table s' = cls_table s \<and> allocated n (slabs_clsid s n) s p s'"
proof (cases "slabs_clsid s n = 0")
  case True
  then have "do_slabs_alloc n (slabs_clsid s n) s = Some (0, s)" by (simp add: do_slabs_alloc_def POWER_SMALLEST_def)
  with inv show ?thesis by (auto simp: allocated_def)
next
  case False
  from do_slabs_alloc_inv [OF inv slabs_clsid_first(1-3) [OF False]] show ?thesis .
qed


text \<open>An allocator with a live chunk of 100 bytes in a class of 4096 and a free one of the largest class.\<close>

definition sample_slabs :: SlabAllocator where
  "sample_slabs = new_SlabAllocator
     \<lparr> mem_limit := 0x200000, power_largest := 2, mem_base := 0x1000, mem_current := 0x82000, mem_free := 0x1FF000,
       slabclass := (\<lambda>_. new_slabclass)
         (1 := new_slabclass \<lparr> sc_size := 4096, sc_perslab := 1 \<rparr>,
          2 := new_slabclass \<lparr> sc_size := ITEM_SIZE_MAX, sc_perslab := 1, sc_slots := Some 0x2000, sc_curr := 1 \<rparr>),
       stats_map := [0x1000 \<mapsto> new_item \<lparr> it_data := 0x1000, it_size := 100, it_clsid := 1 \<rparr>,
                     0x2000 \<mapsto> new_item \<lparr> it_data := 0x2000, it_slabbed := True \<rparr>] \<rparr>"

lemma sample_items: "items sample_slabs = [0x1000 \<mapsto> (100, 1, 0x1000), 0x2000 \<mapsto> (0, 0, 0x2000)]"
  by (auto simp: items_def istrip_def sample_slabs_def new_item_def fun_eq_iff)

lemma sample_inv: "sb_inv ((\<lambda>_. [])(2 := [0x2000])) (\<lambda>p. if p = 0x1000 then 1 else 2) sample_slabs"
  "\<not> sb_locked sample_slabs" "\<forall>i. cls_ok sample_slabs i \<longrightarrow> good_class sample_slabs i"
proof -
  have ok: "cls_ok sample_slabs i \<longleftrightarrow> i = 1 \<or> i = 2" for i by (auto simp: cls_ok_def sample_slabs_def)
  have cs: "cls_size sample_slabs = (\<lambda>_. 0)(1 := 4096, 2 := 524288)"
    by (auto simp: cls_size_def sample_slabs_def new_slabclass_def ITEM_SIZE_MAX_def fun_eq_iff)
  have ps: "sc_perslab (slabclass sample_slabs 1) = 1" "sc_perslab (slabclass sample_slabs 2) = 1" by (simp_all add: sample_slabs_def)
  show "\<forall>i. cls_ok sample_slabs i \<longrightarrow> good_class sample_slabs i"
    using ps by (auto simp: ok good_class_def cs ITEM_SIZE_MAX_def SB_BLOCK_def)
  have lv: "{p. live sample_slabs p} = {0x1000}" by (auto simp: live_def sample_items split: if_splits)
  have f: "mem_limit sample_slabs = 0x200000" "mem_base sample_slabs = 0x1000" "mem_current sample_slabs = 0x82000"
    "mem_avail sample_slabs = 0" by (simp_all add: sample_slabs_def new_SlabAllocator_def)
  have "table_ok sample_slabs" "area_ok sample_slabs"
    using ps by (auto simp: table_ok_def area_ok_def ok cs f ITEM_SIZE_MAX_def SB_BLOCK_def)
  moreover have "fl_wf ((\<lambda>_. [])(2 := [0x2000])) sample_slabs"
    by (auto simp: fl_wf_def sample_slabs_def inx_def ipv_def new_item_def new_slabclass_def split: if_splits)
  moreover have "items_ok ((\<lambda>_. [])(2 := [0x2000])) (\<lambda>p. if p = 0x1000 then 1 else 2) sample_slabs"
    by (auto simp: items_ok_def sample_items ok cs split: if_splits)
  moreover have "chunks_ok (dom (items sample_slabs)) (\<lambda>p. cls_size sample_slabs (if p = 0x1000 then 1 else 2))
      (unat (mem_base sample_slabs)) (unat (mem_current sample_slabs))"
    by (auto simp: chunks_ok_def sample_items cs f SB_BLOCK_def)
  moreover have "mem_free sample_slabs = int (mem_limit sample_slabs) - 4096" by (simp add: sample_slabs_def)
  ultimately show "sb_inv ((\<lambda>_. [])(2 := [0x2000])) (\<lambda>p. if p = 0x1000 then 1 else 2) sample_slabs"
    unfolding sb_inv_def lv by (simp add: sample_items cs)
  show "\<not> sb_locked sample_slabs" by (simp add: sample_slabs_def new_SlabAllocator_def)
qed

lemma sample_clsid: "slabs_clsid sample_slabs 5000 = 2" "slabs_clsid sample_slabs 100 = 1"
  by (simp_all add: slabs_clsid_def sample_slabs_def POWER_SMALLEST_def ITEM_SIZE_MAX_def upt_rec)



text \<open>
  C21: the memory \<open>slabs_init\<close> sets up is a sound allocator, for every growth factor of at least one
  and whatever address \<open>mmap\<close> returned: the class table is well formed, every preallocated chunk is
  inside the area, and the byte counter is exact.
\<close>

theorem slabs_init_sound:
  assumes "slabs_init limit num den True (Some a) initial new_SlabAllocator = Some (base, s)"
    and "0 < den" "den \<le> num" "limit \<noteq> 0" "mmap_malloc (Some a) \<noteq> 0" "unat (mmap_malloc (Some a)) + limit < 2 ^ 64"
  shows "\<exists>S H. sb_inv S H s \<and> (\<forall>i. cls_ok s i \<longrightarrow> good_class s i) \<and> \<not> sb_locked s"
  by (rule slabs_init_inv [OF assms])

theorem slabs_init_sound_witness:
  "\<exists>base s. slabs_init 0x100000 20000 1 True (Some 0x1000) None new_SlabAllocator = Some (base, s) \<and> (\<exists>S H. sb_inv S H s)"
proof -
  let ?r = "slabs_init 0x100000 20000 1 True (Some 0x1000) None new_SlabAllocator"
  have u: "[Suc 0 ..< 201] = Suc 0 # Suc (Suc 0) # [3 ..< 201]"
    by (subst upt_conv_Cons, simp, subst upt_conv_Cons, simp, simp only: numeral_3_eq_3)
  have "?r \<noteq> None"
    by (simp add: slabs_init_def init_classes.simps mmap_malloc_def SB_BLOCK_def POWER_SMALLEST_def POWER_LARGEST_def
        SB_PREFIX_SIZE_def SB_CHUNK_SIZE_def ITEM_SIZE_MAX_def u do_slabs_newslab_def
        grow_slab_list_def memory_allocate_def new_slabclass_def new_SlabAllocator_def CHUNK_ALIGN_BYTES_def
        upd_class_def do_slabs_free_def upd_item_def upd_item_opt_def new_item_def Let_def del: upt_Suc)
  then obtain base s where r: "?r = Some (base, s)" by auto
  have "\<exists>S H. sb_inv S H s \<and> (\<forall>i. cls_ok s i \<longrightarrow> good_class s i) \<and> \<not> sb_locked s"
    by (rule slabs_init_sound [OF r]) (simp_all add: mmap_malloc_def SB_BLOCK_def)
  with r show ?thesis by blast
qed

text \<open>
  C22: \<open>sb_aligned_malloc\<close> with the block size returns block-aligned memory, as every cache line and
  every global object needs: the class that \<open>slabs_clsid\<close> picks for a whole number of
  blocks is itself a whole number of blocks, because the table never steps over a block
  boundary without a class that ends on it.
\<close>

theorem sb_aligned_malloc_aligned:
  assumes inv: "sb_inv S H s" and g: "\<forall>i. cls_ok s i \<longrightarrow> good_class s i" and ul: "\<not> sb_locked s"
    and r: "sb_aligned_malloc n SB_BLOCK s = Some (p, s')" "p \<noteq> 0"
  shows "unat p mod SB_BLOCK = 0"
proof -
  let ?s = "s \<lparr> sb_locked := True \<rparr>" and ?n = "ALIGN n SB_BLOCK"
  let ?i = "slabs_clsid s ?n"
  have inv': "sb_inv S H ?s" using inv by (simp add: locked_inv)
  from class_alloc_inv [OF this, of ?n] obtain q s2 S' H' where
    a: "do_slabs_alloc ?n ?i ?s = Some (q, s2)" "sb_inv S' H' s2" "cls_table s2 = cls_table ?s" "allocated ?n ?i ?s q s2" by auto
  then have "p = q" using r ul sb_invD(1) [OF inv]
    by (auto simp: sb_aligned_malloc_def sb_lock_def SB_PREFIX_SIZE_def table_ok_def)
  with a(4) r(2) have ip: "items s2 p = Some (?n, ?i, p)" by (simp add: allocated_def)
  have i0: "?i \<noteq> 0"
    using a(1) \<open>p = q\<close> r(2) by (cases "?i = 0") (auto simp: do_slabs_alloc_def POWER_SMALLEST_def)
  note c = slabs_clsid_first [OF i0]
  have "cls_size s ?i mod SB_BLOCK = 0"
  proof (rule ccontr)
    assume no: "cls_size s ?i mod SB_BLOCK \<noteq> 0"
    let ?k = "?n div SB_BLOCK" and ?d = "if ?i = 1 then 0 else cls_size s (?i - 1) div SB_BLOCK"
    have n: "?n = ?k * SB_BLOCK" by (simp add: ALIGN_def SB_BLOCK_def)
    have "?k \<le> cls_size s ?i div SB_BLOCK" using c(3) by (rule div_le_mono)
    also have "\<dots> = ?d" using g c(1) no by (auto simp: good_class_def)
    finally have "?k * SB_BLOCK \<le> ?d * SB_BLOCK" by (rule mult_le_mono1)
    moreover have "?d * SB_BLOCK < ?n"
    proof (cases "?i = 1")
      case False
      have "cls_size s (?i - 1) < ?n" using c(1) False by (intro c(4)) (auto simp: cls_ok_def)
      with div_times_less_eq_dividend [of "cls_size s (?i - 1)" SB_BLOCK]
      have "cls_size s (?i - 1) div SB_BLOCK * SB_BLOCK < ?n" by (rule le_less_trans)
      then show ?thesis using False by simp
    qed (use c(2) in simp)
    ultimately show False using n by linarith
  qed
  moreover have "cls_size s2 = cls_size s" "H' p = ?i"
    using cls_tableD(1) [OF a(3)] items_okD(1) [OF sb_invD(4) [OF a(2)] ip] i0 by auto
  moreover have "cls_size s2 (H' p) mod SB_BLOCK = 0 \<longrightarrow> unat p mod SB_BLOCK = 0"
    by (rule chunks_okD(3) [OF sb_invD(6) [OF a(2)]]) (use ip in blast)
  ultimately show ?thesis by simp
qed

theorem sb_aligned_malloc_aligned_witness:
  "\<exists>p s'. sb_aligned_malloc 5000 SB_BLOCK sample_slabs = Some (p, s') \<and> p \<noteq> 0 \<and> unat p mod SB_BLOCK = 0"
proof -
  have "\<exists>p s'. sb_aligned_malloc 5000 SB_BLOCK sample_slabs = Some (p, s') \<and> p \<noteq> 0"
    by (simp add: sb_aligned_malloc_def sb_lock_def sample_slabs_def new_SlabAllocator_def ALIGN_def SB_BLOCK_def
        SB_PREFIX_SIZE_def slabs_clsid_def POWER_SMALLEST_def ITEM_SIZE_MAX_def upt_rec do_slabs_alloc_def new_item_def
        new_slabclass_def Let_def)
  then obtain p s' where r: "sb_aligned_malloc 5000 SB_BLOCK sample_slabs = Some (p, s')" "p \<noteq> 0" by blast
  from sb_aligned_malloc_aligned [OF sample_inv(1,3,2) r] r show ?thesis by (intro exI conjI)
qed

text \<open>
  C23: freeing a chunk returns its size, clears only its own bytes and makes it available again:
  the next request of the same size gets the same chunk.
\<close>

theorem sb_free_then_malloc:
  assumes inv: "sb_inv S H s" and ul: "\<not> sb_locked s" and ip: "items s p = Some (n, slabs_clsid s n, p)" "slabs_clsid s n \<noteq> 0"
  shows "\<exists>s1 m1 s2. sb_free p s m = Some (n, s1, m1) \<and> \<not> live s1 p \<and> (\<forall>a. \<not> in_range p n a \<longrightarrow> m1 a = m a) \<and>
    sb_malloc n s1 = Some (p, s2)"
proof -
  let ?i = "slabs_clsid s n"
  from sb_free_inv [OF inv ul ip(1,2), of m] obtain s1 S1 where
    f: "sb_free p s m = Some (n, s1, memset0 p n m)" "sb_inv S1 H s1" "cls_table s1 = cls_table s"
    "live s1 = (live s)(p := False)" "hd_opt (S1 ?i) = Some p" by blast
  note t = cls_tableD [OF f(3)]
  have ci: "slabs_clsid s1 n = ?i" using t(1,3) by (simp add: slabs_clsid_def cls_size_def fun_eq_iff cong: if_cong)
  let ?s = "s1 \<lparr> sb_locked := True \<rparr>"
  have inv1: "sb_inv S1 H ?s" using f(2) by (simp add: locked_inv)
  have ok: "cls_ok ?s ?i" using slabs_clsid_first(1) [OF ip(2)] by (simp add: t)
  obtain ps where li: "S1 ?i = p # ps" using f(5) by (cases "S1 ?i") auto
  then obtain k where it: "items ?s p = Some (k, 0, p)" using items_okD(2) [OF sb_invD(4) [OF inv1], of p ?i] by auto
  have p0: "p \<noteq> 0" using sb_inv_nonnull [OF inv1] it by blast
  have cur: "sc_curr (slabclass ?s ?i) \<noteq> 0" using fl_wfD(4) [OF sb_invD(3) [OF inv1], of ?i] li by simp
  from take_chunk_effect [OF sb_invD(3) [OF inv1] li it p0] obtain s2 where "take_chunk n ?i ?s = Some (p, s2)" by blast
  then have "do_slabs_alloc n ?i ?s = Some (p, s2)" using cur do_slabs_alloc_alt [OF ok, of n] by simp
  then have "sb_malloc n s1 = Some (p, sb_unlock s2)"
    using ul sb_invD(1) [OF f(2)] t(8) ci by (simp add: sb_malloc_def sb_lock_def SB_PREFIX_SIZE_def table_ok_def)
  with f show ?thesis by (auto simp: memset0_outside)
qed

theorem sb_free_then_malloc_witness:
  "\<exists>s1 m1 s2. sb_free 0x1000 sample_slabs (\<lambda>_. 7) = Some (100, s1, m1) \<and> sb_malloc 100 s1 = Some (0x1000, s2)"
proof -
  have "items sample_slabs 0x1000 = Some (100, slabs_clsid sample_slabs 100, 0x1000)" "slabs_clsid sample_slabs 100 \<noteq> 0"
    by (simp_all add: sample_clsid sample_items)
  from sb_free_then_malloc [OF sample_inv(1,2) this, of "\<lambda>_. 7"] show ?thesis by blast
qed

text \<open>
  C24: when \<open>sb_realloc\<close> has to move an allocation to another class it copies nothing: the inner
  variable \<open>ptr\<close> shadows the argument, so the source of the copy is the new chunk itself. The
  caller gets other memory with whatever bytes it held.
\<close>

theorem sb_realloc_copies_nothing:
  assumes inv: "sb_inv S H s" and ul: "\<not> sb_locked s" and ip: "items s p = Some (k, i, p)" "i \<noteq> 0" "slabs_clsid s n \<noteq> i"
    and r: "sb_realloc p n s m = Some (q, s', m')"
  shows "m' = m \<and> q \<noteq> p"
proof -
  let ?s = "s \<lparr> sb_locked := True \<rparr>" and ?i = "slabs_clsid s n"
  have inv': "sb_inv S H ?s" using inv by (simp add: locked_inv)
  obtain it1 where it1: "stats_map s p = Some it1" "istrip it1 = (k, i, p)" using ip(1) by (auto simp: items_def)
  have p0: "p \<noteq> 0" using sb_inv_nonnull [OF inv] ip(1) by blast
  from class_alloc_inv [OF inv', of n] obtain q' s2 S' H' where
    a: "do_slabs_alloc n ?i ?s = Some (q', s2)" "sb_inv S' H' s2" "allocated n ?i ?s q' s2" by auto
  from r obtain it2 where it2: "stats_map s2 q' = Some it2" "q = it_data it2"
    "m' = memcpy (it_data it2) q' (if n < k then n else k) m"
    using a(1) it1 ip(2,3) p0 ul sb_invD(1) [OF inv]
    by (auto simp: sb_realloc_def sb_lock_def table_ok_def SB_PREFIX_SIZE_def Let_def istrip_def split: bind_splits)
  then have "items s2 q' = Some (it_size it2, it_clsid it2, it_data it2)" by (simp add: items_def istrip_def)
  then have qq: "q = q'" "q' \<noteq> 0"
    using items_okD(1) [OF sb_invD(4) [OF a(2)]] it2(2) sb_inv_nonnull [OF a(2), of q'] by auto
  have "live s p" using ip by (auto simp: live_def)
  with a(3) qq have "q \<noteq> p" by (auto simp: allocated_def)
  moreover have "m' = m" using it2 qq by (simp add: memcpy_def fun_eq_iff)
  ultimately show ?thesis by simp
qed

theorem sb_realloc_copies_nothing_witness:
  "\<exists>q s' m'. sb_realloc 0x1000 5000 sample_slabs (\<lambda>a. if a < 0x2000 then 7 else 0) = Some (q, s', m') \<and>
     m' 0x1000 = 7 \<and> m' 0x2000 = 0 \<and> q \<noteq> 0x1000"
proof -
  let ?m = "\<lambda>a :: ptr. if a < 0x2000 then 7 else 0 :: byte"
  have "sb_realloc 0x1000 5000 sample_slabs ?m \<noteq> None"
    by (simp add: sb_realloc_def sb_lock_def sample_slabs_def new_SlabAllocator_def SB_PREFIX_SIZE_def slabs_clsid_def
        POWER_SMALLEST_def ITEM_SIZE_MAX_def upt_rec do_slabs_alloc_def new_item_def new_slabclass_def Let_def
        upd_class_def upd_item_def upd_item_opt_def)
  then obtain q s' m' where r: "sb_realloc 0x1000 5000 sample_slabs ?m = Some (q, s', m')" by auto
  have "items sample_slabs 0x1000 = Some (100, 1, 0x1000)" "slabs_clsid sample_slabs 5000 \<noteq> 1"
    by (simp_all add: sample_items sample_clsid)
  from sb_realloc_copies_nothing [OF sample_inv(1,2) this(1) _ this(2) r] r show ?thesis by simp
qed



end
