(* ===== verification/Worker_State.thy ===== *)
theory Worker_State
  imports Directory Work_Request Cache_Line Slabs
begin

text \<open>
  The state of a worker (\<open>include/worker.h\<close>, \<open>src/worker.cc\<close>, \<open>include/client.h\<close>, \<open>src/server.cc\<close>) and the
  services its handlers share: the heap of work requests, the pending and to-serve queues,
  fences, finding clients and submitting requests.

  A \<open>WorkRequest*\<close> is a reference into \<open>wrs\<close>; a \<open>Client*\<close> is the id of the worker at its other
  end. What leaves the node goes to \<open>outbox\<close> in order. A handler holds the lock of the block
  it works on throughout, so it is one step of the model. \<open>None\<close> is a step that does not come to
  its end: a null pointer is used, \<open>at\<close> throws past every handler, the process exits, or the
  allocator's lock is never released.
\<close>

subsection \<open>State\<close>

text \<open>
  Messages: a serialised request, an RDMA write, and an RDMA write with immediate data. The last
  carries the request id of its completion when it is signaled.
\<close>

datatype msg =
    MSend "32 word" "byte list"
  | MWrite "32 word" ptr payload
  | MWriteImm "32 word" ptr payload "32 word" "32 word option"

record Fence =
  sfenced :: bool
  mfenced :: bool
  pending_writes :: int
  fence_works :: "nat list"
  in_process :: bool

record Client =
  cl_base :: ptr
  cl_size :: "64 word"
  cl_free :: "64 word"

record Conf =
  cf_size :: nat
  cf_ghost_th :: "64 word"
  cf_th_num :: nat       \<comment> \<open>\<open>cache_th\<close> is \<open>cf_th_num / cf_th_den\<close>\<close>
  cf_th_den :: nat

record Stats =
  no_local_reads :: nat
  no_local_reads_hit :: nat
  no_local_writes :: nat
  no_local_writes_hit :: nat
  no_remote_reads :: nat
  no_remote_reads_hit :: nat
  no_remote_writes :: nat
  no_remote_writes_hit :: nat
  no_remote_writes_direct_hit :: nat
  st_num_evict :: int
  st_num_request_send :: int
  num_invalid :: nat

record Worker =
  w_id :: "32 word"
  w_base :: ptr
  w_conf :: Conf
  w_mem :: mem
  w_sb :: SlabAllocator
  w_dir :: Directory
  w_cache :: Cache
  wr_psn :: "32 word"
  wrs :: "nat \<rightharpoonup> WorkRequest"
  next_wr :: nat
  pending_works :: "32 word \<rightharpoonup> nat"
  to_serve_requests :: "gaddr \<rightharpoonup> (32 word \<times> nat) list"
  to_serve_local_requests :: "gaddr \<rightharpoonup> nat list"
  fences :: "int \<rightharpoonup> Fence"
  widCliMap :: "32 word \<rightharpoonup> Client"
  widCliMapWorker :: "32 word list"    \<comment> \<open>its keys, in iteration order\<close>
  w_iter :: "32 word \<Rightarrow> 32 word list \<Rightarrow> 32 word list"  \<comment> \<open>the order after a key is inserted\<close>
  ghost_size :: "64 word"
  notified :: "ptr \<Rightarrow> int"              \<comment> \<open>the \<open>notify_buf\<close> words of the application threads\<close>
  outbox :: "msg list"
  w_stats :: Stats
  blk_busy :: "gaddr \<Rightarrow> bool"         \<comment> \<open>block locks other threads hold when \<open>try_lock\<close> is called\<close>
  zm_seq :: "nat \<Rightarrow> ptr"                \<comment> \<open>what \<open>zmalloc\<close> returns, call by call\<close>
  zm_pos :: nat
  w_rand :: "nat \<Rightarrow> nat"                \<comment> \<open>what \<open>rand_r\<close> on the seed of \<open>ProcessLocalMalloc\<close> returns\<close>
  w_rpos :: nat
  w_gfun :: "GFunc \<Rightarrow> ptr \<Rightarrow> 64 word \<Rightarrow> mem \<Rightarrow> mem"  \<comment> \<open>the registered functions on doubles\<close>

text \<open>
  A worker when it starts: an allocator \<open>s\<close> that \<open>slabs_init\<close> has set up, and no clients, requests
  or fences. The other arguments are its environment: the content of memory, the results of
  \<open>zmalloc\<close> and \<open>rand_r\<close>, and the registered functions.
\<close>

definition new_Conf :: Conf where
  "new_Conf = \<lparr> cf_size = 1024 * 1024 * 512, cf_ghost_th = 1024 * 1024, cf_th_num = 15, cf_th_den = 100 \<rparr>"

definition new_Cache :: "Conf \<Rightarrow> (nat \<Rightarrow> nat) \<Rightarrow> Cache" where
  "new_Cache cf rand = \<lparr> caches = Map.empty, used_bytes = 0, to_evicted = 0, num_evict = 0, num_request_send = 0,
     max_cache_mem = int (cf_th_num cf * cf_size cf div cf_th_den cf), heads = (\<lambda>_. None), tails = (\<lambda>_. None),
     c_rand = rand, c_rpos = 0, c_busy = (\<lambda>_. False) \<rparr>"

definition new_Stats :: Stats where
  "new_Stats = \<lparr> no_local_reads = 0, no_local_reads_hit = 0, no_local_writes = 0, no_local_writes_hit = 0,
     no_remote_reads = 0, no_remote_reads_hit = 0, no_remote_writes = 0, no_remote_writes_hit = 0,
     no_remote_writes_direct_hit = 0, st_num_evict = 0, st_num_request_send = 0, num_invalid = 0 \<rparr>"

definition new_Worker ::
  "32 word \<Rightarrow> Conf \<Rightarrow> SlabAllocator \<Rightarrow> mem \<Rightarrow> (nat \<Rightarrow> ptr) \<Rightarrow> (nat \<Rightarrow> nat) \<Rightarrow> (GFunc \<Rightarrow> ptr \<Rightarrow> 64 word \<Rightarrow> mem \<Rightarrow> mem) \<Rightarrow> Worker" where
  "new_Worker wid cf s m zm rand gf = \<lparr> w_id = wid, w_base = mem_base s, w_conf = cf, w_mem = m, w_sb = s,
     w_dir = Map.empty, w_cache = new_Cache cf rand, wr_psn = 0, wrs = Map.empty, next_wr = 0, pending_works = Map.empty,
     to_serve_requests = Map.empty, to_serve_local_requests = Map.empty, fences = Map.empty, widCliMap = Map.empty,
     widCliMapWorker = [], w_iter = Cons, ghost_size = 0, notified = (\<lambda>_. 0), outbox = [], w_stats = new_Stats,
     blk_busy = (\<lambda>_. False), zm_seq = zm, zm_pos = 0, w_rand = rand, w_rpos = 0, w_gfun = gf \<rparr>"

text \<open>Assignments to one of the parts.\<close>

definition on_cache :: "(Cache \<Rightarrow> Cache) \<Rightarrow> Worker \<Rightarrow> Worker" where
  "on_cache f w = w \<lparr> w_cache := f (w_cache w) \<rparr>"

definition on_dir :: "(Directory \<Rightarrow> Directory) \<Rightarrow> Worker \<Rightarrow> Worker" where
  "on_dir f w = w \<lparr> w_dir := f (w_dir w) \<rparr>"

definition on_mem :: "(mem \<Rightarrow> mem) \<Rightarrow> Worker \<Rightarrow> Worker" where
  "on_mem f w = w \<lparr> w_mem := f (w_mem w) \<rparr>"

text \<open>The master is client \<open>0\<close>.\<close>

definition master :: "32 word" where "master = 0"

subsection \<open>Work requests on the heap\<close>

definition wr_new :: "WorkRequest \<Rightarrow> Worker \<Rightarrow> nat \<times> Worker" where
  "wr_new x w = (next_wr w, w \<lparr> wrs := (wrs w)(next_wr w \<mapsto> x), next_wr := Suc (next_wr w) \<rparr>)"

definition wr_upd :: "nat \<Rightarrow> (WorkRequest \<Rightarrow> WorkRequest) \<Rightarrow> Worker \<Rightarrow> Worker" where
  "wr_upd r f w = w \<lparr> wrs := (wrs w)(r := map_option f (wrs w r)) \<rparr>"

definition wr_del :: "nat \<Rightarrow> Worker \<Rightarrow> Worker" where
  "wr_del r w = w \<lparr> wrs := (wrs w)(r := None) \<rparr>"

definition zmalloc :: "Worker \<Rightarrow> ptr \<times> Worker" where
  "zmalloc w = (zm_seq w (zm_pos w), w \<lparr> zm_pos := Suc (zm_pos w) \<rparr>)"

text \<open>\<open>WorkRequest::Copy\<close>: at most one copy is ever made of a request.\<close>

definition wr_Copy :: "nat \<Rightarrow> Worker \<Rightarrow> (nat \<times> Worker) option" where
  "wr_Copy r w = do {
     wr \<leftarrow> wrs w r;
     if flg COPY wr then Some (case wr_dup wr of Some d \<Rightarrow> d | None \<Rightarrow> r, w)
     else let nw = copy_WorkRequest wr;
              (nw, w) = (if wr_ptr wr \<noteq> 0 \<and> wr_size wr \<noteq> 0
                         then let (p, w) = zmalloc w
                              in (nw \<lparr> wr_ptr := p \<rparr>, w \<lparr> w_mem := memcpy p (wr_ptr wr) (unat (wr_size wr)) (w_mem w) \<rparr>)
                         else (nw, w));
              (d, w) = wr_new (set_flg COPY nw) w
          in Some (d, wr_upd r (\<lambda>wr. (set_flg COPY wr) \<lparr> wr_dup := Some d \<rparr>) w) }"

text \<open>The idiom \<open>if (wr->flag & ASYNC) if (!wr->IsACopy()) wr = wr->Copy();\<close>\<close>

definition copy_if_async :: "nat \<Rightarrow> Worker \<Rightarrow> (nat \<times> Worker) option" where
  "copy_if_async r w = do {
     wr \<leftarrow> wrs w r;
     if flg ASYNC wr \<and> \<not> IsACopy wr then wr_Copy r w else Some (r, w) }"

definition GetWorkPsn :: "Worker \<Rightarrow> 32 word \<times> Worker" where
  "GetWorkPsn w =
     (let n = wr_psn w + 1
      in if n = 0 then (n + 1, w \<lparr> wr_psn := n + 1 \<rparr>) else (n, w \<lparr> wr_psn := n \<rparr>))"

subsection \<open>Addresses and clients\<close>

definition IsLocal :: "Worker \<Rightarrow> gaddr \<Rightarrow> bool" where
  "IsLocal w a \<longleftrightarrow> WID a = scast (w_id w)"

definition ToLocal :: "Worker \<Rightarrow> gaddr \<Rightarrow> ptr" where
  "ToLocal w a = TO_LOCAL a (w_base w)"

definition ToGlobal :: "Worker \<Rightarrow> ptr \<Rightarrow> gaddr" where
  "ToGlobal w p = TO_GLOB p (w_base w) (scast (w_id w))"

definition FindClientWid :: "Worker \<Rightarrow> 32 word \<Rightarrow> 32 word option" where
  "FindClientWid w i = (if widCliMap w i = None then None else Some i)"

definition cli_ToLocal :: "Worker \<Rightarrow> 32 word \<Rightarrow> gaddr \<Rightarrow> ptr option" where
  "cli_ToLocal w c a = map_option (\<lambda>cl. TO_LOCAL a (cl_base cl)) (widCliMap w c)"

definition cli_ToGlobal :: "Worker \<Rightarrow> 32 word \<Rightarrow> ptr \<Rightarrow> gaddr option" where
  "cli_ToGlobal w c p =
     map_option (\<lambda>cl. if p \<noteq> 0 then TO_GLOB p (cl_base cl) (scast c) else EMPTY_GLOB (scast c)) (widCliMap w c)"

definition SetMemStat :: "32 word \<Rightarrow> 64 word \<Rightarrow> 64 word \<Rightarrow> Worker \<Rightarrow> Worker" where
  "SetMemStat c tot fr w =
     w \<lparr> widCliMap := (widCliMap w)(c := map_option (\<lambda>cl. cl \<lparr> cl_size := tot, cl_free := fr \<rparr>) (widCliMap w c)) \<rparr>"

definition GetFreeMem :: "Worker \<Rightarrow> 32 word \<Rightarrow> 64 word" where
  "GetFreeMem w c = (case widCliMap w c of None \<Rightarrow> 0 | Some cl \<Rightarrow> cl_free cl)"

definition GetTotalMem :: "Worker \<Rightarrow> 32 word \<Rightarrow> 64 word" where
  "GetTotalMem w c = (case widCliMap w c of None \<Rightarrow> 0 | Some cl \<Rightarrow> cl_size cl)"

text \<open>
  The loop of \<open>GetClient\<close> that looks for the worker with most free memory; \<open>Size\<close> is a signed
  type.
\<close>

fun most_free :: "Worker \<Rightarrow> 32 word list \<Rightarrow> 64 word \<Rightarrow> 32 word option \<Rightarrow> 32 word option" where
  "most_free w [] mx c = c"
| "most_free w (i # ws) mx c =
     (if i = w_id w then most_free w ws mx c
      else if mx <s GetFreeMem w i then most_free w ws (GetFreeMem w i) (Some i)
      else most_free w ws mx c)"

definition GetClient :: "Worker \<Rightarrow> gaddr \<Rightarrow> 32 word option" where
  "GetClient w a =
     (if widCliMap w = Map.empty then None
      else if a \<noteq> 0 then FindClientWid w (ucast (WID a))
      else most_free w (widCliMapWorker w) 0 None)"

subsection \<open>Submitting requests\<close>

datatype sflag = REQUEST_WRITE_IMM | REQUEST_SEND | REQUEST_NO_ID | ADD_TO_PENDING

definition AddToPending :: "32 word \<Rightarrow> nat \<Rightarrow> Worker \<Rightarrow> Worker" where
  "AddToPending i r w = w \<lparr> pending_works := (pending_works w)(i \<mapsto> r) \<rparr>"

definition ErasePendingWork :: "32 word \<Rightarrow> Worker \<Rightarrow> Worker" where
  "ErasePendingWork i w = w \<lparr> pending_works := (pending_works w)(i := None) \<rparr>"

definition GetPendingWork :: "32 word \<Rightarrow> Worker \<Rightarrow> nat option" where
  "GetPendingWork i w = pending_works w i"

definition GetAndErasePendingWork :: "32 word \<Rightarrow> Worker \<Rightarrow> nat option \<times> Worker" where
  "GetAndErasePendingWork i w =
     (case pending_works w i of None \<Rightarrow> (None, w) | Some r \<Rightarrow> (Some r, ErasePendingWork i w))"

definition emit :: "msg \<Rightarrow> Worker \<Rightarrow> Worker" where
  "emit m w = w \<lparr> outbox := outbox w @ [m] \<rparr>"

text \<open>\<open>Client::Write\<close> and \<open>Client::WriteWithImm\<close>: the bytes are read when the call is made.\<close>

definition cli_Write :: "32 word \<Rightarrow> ptr \<Rightarrow> ptr \<Rightarrow> nat \<Rightarrow> Worker \<Rightarrow> Worker" where
  "cli_Write c dest src n w = emit (MWrite c dest (load src n (w_mem w))) w"

definition cli_WriteWithImm :: "32 word \<Rightarrow> ptr \<Rightarrow> ptr \<Rightarrow> nat \<Rightarrow> 32 word \<Rightarrow> 32 word option \<Rightarrow> Worker \<Rightarrow> Worker" where
  "cli_WriteWithImm c dest src n imm sig w = emit (MWriteImm c dest (load src n (w_mem w)) imm sig) w"

text \<open>The empty message that only carries a request id.\<close>

abbreviation cli_ack :: "32 word \<Rightarrow> 32 word \<Rightarrow> Worker \<Rightarrow> Worker" where
  "cli_ack c i \<equiv> cli_WriteWithImm c 0 0 0 i None"

text \<open>What \<open>wr->ptr\<close> points at, for the operations whose wire format carries it.\<close>

definition wire_data :: "WorkRequest \<Rightarrow> mem \<Rightarrow> byte list" where
  "wire_data wr m =
     (if wr_op wr = PUT \<or> wr_op wr = GET_REPLY
      then map (\<lambda>i. m (wr_ptr wr + of_nat i)) [0 ..< unat (wr_size wr)] else [])"

definition SubmitRequest_full ::
    "32 word \<Rightarrow> nat \<Rightarrow> sflag list \<Rightarrow> ptr \<Rightarrow> ptr \<Rightarrow> nat \<Rightarrow> 32 word \<Rightarrow> Worker \<Rightarrow> Worker option" where
  "SubmitRequest_full c r fl dest src n imm w = do {
     wr0 \<leftarrow> wrs w r;
     let w1 = wr_upd r (\<lambda>wr. wr \<lparr> wr_wid := w_id w \<rparr>) w;
         w2 = (if is_reply (wr_op wr0) \<or> REQUEST_NO_ID \<in> set fl then w1
               else let (i, w) = GetWorkPsn w1 in wr_upd r (\<lambda>wr. wr \<lparr> wr_id := i \<rparr>) w);
         wid = (case wrs w2 r of Some wr \<Rightarrow> wr_id wr | None \<Rightarrow> 0);
         w3 = (if ADD_TO_PENDING \<in> set fl then AddToPending wid r w2 else w2)
     in if REQUEST_WRITE_IMM \<in> set fl
        then Some (cli_WriteWithImm c dest src n imm (if ADD_TO_PENDING \<in> set fl then Some wid else None) w3)
        else if REQUEST_SEND \<in> set fl
        then do { wr \<leftarrow> wrs w3 r; Some (emit (MSend c (Ser wr (wire_data wr (w_mem w3)))) w3) }
        else None }"

text \<open>\<open>SubmitRequest(cli, wr)\<close> and \<open>SubmitRequest(cli, wr, ADD_TO_PENDING | REQUEST_SEND)\<close>\<close>

definition SubmitRequest :: "32 word \<Rightarrow> nat \<Rightarrow> Worker \<Rightarrow> Worker option" where
  "SubmitRequest c r w = SubmitRequest_full c r [REQUEST_SEND, REQUEST_NO_ID] 0 0 0 0 w"

definition SubmitPending :: "32 word \<Rightarrow> nat \<Rightarrow> Worker \<Rightarrow> Worker option" where
  "SubmitPending c r w = SubmitRequest_full c r [ADD_TO_PENDING, REQUEST_SEND] 0 0 0 0 w"

subsection \<open>Requests that wait for a block\<close>

definition AddToServeLocalRequest :: "gaddr \<Rightarrow> nat \<Rightarrow> Worker \<Rightarrow> Worker" where
  "AddToServeLocalRequest a r w =
     w \<lparr> to_serve_local_requests := (to_serve_local_requests w)
           (a \<mapsto> (case to_serve_local_requests w a of Some q \<Rightarrow> q @ [r] | None \<Rightarrow> [r])) \<rparr>"

definition AddToServeRemoteRequest :: "gaddr \<Rightarrow> 32 word \<Rightarrow> nat \<Rightarrow> Worker \<Rightarrow> Worker" where
  "AddToServeRemoteRequest a c r w =
     w \<lparr> to_serve_requests := (to_serve_requests w)
           (a \<mapsto> (case to_serve_requests w a of Some q \<Rightarrow> q @ [(c, r)] | None \<Rightarrow> [(c, r)])) \<rparr>"

subsection \<open>Fences\<close>

definition new_Fence :: Fence where
  "new_Fence = \<lparr> sfenced = False, mfenced = False, pending_writes = 0, fence_works = [], in_process = False \<rparr>"

definition RegisterFence :: "int \<Rightarrow> Worker \<Rightarrow> Worker" where
  "RegisterFence fd w = w \<lparr> fences := (fences w)(fd \<mapsto> new_Fence) \<rparr>"

definition upd_fence :: "int \<Rightarrow> (Fence \<Rightarrow> Fence) \<Rightarrow> Worker \<Rightarrow> Worker" where
  "upd_fence fd f w = w \<lparr> fences := (fences w)(fd := map_option f (fences w fd)) \<rparr>"

definition passes_fence :: "WorkRequest \<Rightarrow> bool" where
  "passes_fence wr \<longleftrightarrow> flg REPEATED wr \<or> flg TO_SERVE wr \<or> flg FENCE wr"

definition IsFenced :: "Fence \<Rightarrow> WorkRequest \<Rightarrow> bool" where
  "IsFenced f wr \<longleftrightarrow> (mfenced f \<or> sfenced f) \<and> \<not> passes_fence wr"

definition IsMFenced :: "Fence \<Rightarrow> WorkRequest \<Rightarrow> bool" where
  "IsMFenced f wr \<longleftrightarrow> mfenced f \<and> \<not> passes_fence wr"

definition AddToFence :: "int \<Rightarrow> nat \<Rightarrow> Worker \<Rightarrow> Worker option" where
  "AddToFence fd r w = do {
     wr \<leftarrow> wrs w r;
     if flg ASYNC wr
     then do { (nw, w) \<leftarrow> wr_Copy r w;
               Some (upd_fence fd (\<lambda>f. f \<lparr> fence_works := fence_works f @ [nw] \<rparr>) (wr_upd nw (set_flg FENCE) w)) }
     else Some (upd_fence fd (\<lambda>f. f \<lparr> fence_works := fence_works f @ [r] \<rparr>) (wr_upd r (set_flg FENCE) w)) }"

subsection \<open>Synchronising with the master\<close>

definition cache_share :: "Worker \<Rightarrow> int" where
  "cache_share w = int (cf_size (w_conf w) * cf_th_num (w_conf w) div cf_th_den (w_conf w))"

definition SyncMaster :: "Work \<Rightarrow> nat option \<Rightarrow> Worker \<Rightarrow> Worker option" where
  "SyncMaster op parent w =
     (let (r, w1) = wr_new (new_WorkRequest \<lparr> wr_parent := parent, wr_op := op \<rparr>) w
      in if op = UPDATE_MEM_STATS
         then if cf_th_num (w_conf w) = cf_th_den (w_conf w) then Some w1
              else let sz = word_of_int (int (cf_size (w_conf w)) - cache_share w);
                       fr = word_of_int (mem_free (w_sb w) - (cache_share w - used_bytes (w_cache w)))
                   in do { w2 \<leftarrow> SubmitRequest master r (wr_upd r (\<lambda>x. x \<lparr> wr_size := sz, wr_addr := fr \<rparr>) w1);
                           Some (wr_del r (w2 \<lparr> ghost_size := 0 \<rparr>)) }
         else if op = FETCH_MEM_STATS
         then do { w2 \<leftarrow> SubmitRequest master r w1; Some (wr_del r w2) }
         else None)"

text \<open>\<open>labs(ghost_size.load()) > conf->ghost_th\<close>\<close>

definition ghost_over :: "Worker \<Rightarrow> bool" where
  "ghost_over w \<longleftrightarrow> \<bar>sint (ghost_size w)\<bar> > sint (cf_ghost_th (w_conf w))"

subsection \<open>Registered functions\<close>

definition run_gfunc :: "WorkRequest \<Rightarrow> ptr \<Rightarrow> Worker \<Rightarrow> Worker option" where
  "run_gfunc wr p w =
     (case wr_gfunc wr of
        None \<Rightarrow> None
      | Some g \<Rightarrow> Some (w \<lparr> w_mem := (if g = Incr then gf_Incr p (wr_arg wr) else w_gfun w g p (wr_arg wr)) (w_mem w) \<rparr>))"

subsection \<open>Statistics\<close>

definition upd_stats :: "(Stats \<Rightarrow> Stats) \<Rightarrow> Worker \<Rightarrow> Worker" where
  "upd_stats f w = w \<lparr> w_stats := f (w_stats w) \<rparr>"

definition count_read :: "bool \<Rightarrow> bool \<Rightarrow> Worker \<Rightarrow> Worker" where
  "count_read here hit =
     upd_stats (\<lambda>s. if here
       then s \<lparr> no_local_reads := no_local_reads s + 1, no_local_reads_hit := no_local_reads_hit s + (if hit then 1 else 0) \<rparr>
       else s \<lparr> no_remote_reads := no_remote_reads s + 1, no_remote_reads_hit := no_remote_reads_hit s + (if hit then 1 else 0) \<rparr>)"

definition count_write :: "bool \<Rightarrow> bool \<Rightarrow> Worker \<Rightarrow> Worker" where
  "count_write here hit =
     upd_stats (\<lambda>s. if here
       then s \<lparr> no_local_writes := no_local_writes s + 1, no_local_writes_hit := no_local_writes_hit s + (if hit then 1 else 0) \<rparr>
       else s \<lparr> no_remote_writes := no_remote_writes s + 1, no_remote_writes_hit := no_remote_writes_hit s + (if hit then 1 else 0) \<rparr>)"

subsection \<open>Notification of application threads\<close>

text \<open>
  \<open>ProcessFenced\<close> on the fence of \<open>fd\<close>. Its argument \<open>plr\<close> is \<open>ProcessLocalRequest\<close>, which may
  append to the queue or come back here; that call stops at \<open>in_process\<close>. The loop
  takes \<open>fuel\<close> rounds at most.
\<close>

type_synonym step = "nat \<Rightarrow> Worker \<Rightarrow> Worker option"

definition fence_front :: "int \<Rightarrow> Worker \<Rightarrow> (Fence \<times> nat option) option" where
  "fence_front fd w = do { f \<leftarrow> fences w fd; Some (f, case fence_works f of [] \<Rightarrow> None | r # _ \<Rightarrow> Some r) }"

definition fence_pop :: "int \<Rightarrow> Worker \<Rightarrow> Worker" where
  "fence_pop fd = upd_fence fd (\<lambda>f. f \<lparr> fence_works := tl (fence_works f) \<rparr>)"

primrec fenced_loop :: "nat \<Rightarrow> step \<Rightarrow> int \<Rightarrow> Worker \<Rightarrow> (bool \<times> Worker) option" where
  "fenced_loop 0 plr fd w = None"
| "fenced_loop (Suc n) plr fd w = do {
     (f, front) \<leftarrow> fence_front fd w;
     case front of
       None \<Rightarrow> Some (False, w)
     | Some r \<Rightarrow> do {
         lwr \<leftarrow> wrs w r;
         if wr_op lwr = MFENCE
         then if pending_writes f \<noteq> 0
              then Some (True, fence_pop fd (upd_fence fd (\<lambda>f. f \<lparr> mfenced := True, sfenced := False \<rparr>) w))
              else fenced_loop n plr fd (fence_pop fd w)
         else if wr_op lwr = SFENCE
         then if pending_writes f \<noteq> 0
              then Some (True, fence_pop fd (upd_fence fd (\<lambda>f. f \<lparr> sfenced := True, mfenced := False \<rparr>) w))
              else fenced_loop n plr fd (fence_pop fd w)
         else if (wr_op lwr = RLOCK \<or> wr_op lwr = WLOCK \<or> wr_op lwr = UNLOCK) \<and> pending_writes f \<noteq> 0
         then Some (True, upd_fence fd (\<lambda>f. f \<lparr> sfenced := False, mfenced := True \<rparr>) w)
         else do { w \<leftarrow> plr r w; fenced_loop n plr fd (fence_pop fd w) } } }"

definition ProcessFenced :: "nat \<Rightarrow> step \<Rightarrow> int \<Rightarrow> Worker \<Rightarrow> Worker option" where
  "ProcessFenced n plr fd w = do {
     f \<leftarrow> fences w fd;
     if \<not> in_process f \<and> pending_writes f = 0 \<and> (mfenced f \<or> sfenced f)
     then do {
       (fenced, w) \<leftarrow> fenced_loop n plr fd (upd_fence fd (\<lambda>f. f \<lparr> in_process := True \<rparr>) w);
       Some (upd_fence fd (\<lambda>f. (if fenced then f else f \<lparr> mfenced := False, sfenced := False \<rparr>) \<lparr> in_process := False \<rparr>) w) }
     else Some w }"

definition Notify :: "nat \<Rightarrow> step \<Rightarrow> step" where
  "Notify n plr r w = do {
     wr \<leftarrow> wrs w r;
     let w1 = (if wr_op wr = WRITE \<or> wr_op wr = WLOCK
               then count_write (IsLocal w (wr_addr wr)) (wr_is_cache_hit wr) w else w);
         w2 = (if wr_op wr = READ \<or> wr_op wr = RLOCK
               then count_read (IsLocal w (wr_addr wr)) (wr_is_cache_hit wr) w1 else w1)
     in if flg ASYNC wr
        then do {
          f \<leftarrow> fences w2 (wr_fd wr);
          let w3 = (if wr_op wr = WRITE
                    then upd_fence (wr_fd wr) (\<lambda>f. f \<lparr> pending_writes := pending_writes f - 1 \<rparr>) w2 else w2);
          w4 \<leftarrow> ProcessFenced n plr (wr_fd wr) w3;
          wr4 \<leftarrow> wrs w4 r;
          if flg COPY wr4
          then do { (c, w5) \<leftarrow> wr_Copy r w4; Some (wr_del c w5) }
          else Some w4 }
        else Some (w2 \<lparr> notified := (notified w2)(wr_notify_buf wr := 2) \<rparr>) }"

end
