(* ===== verification/Cache_Ops.thy ===== *)
theory Cache_Ops
  imports Worker_State
begin

text \<open>
  The operations of the cache that need its worker (\<open>src/cache.cc\<close>): creating and dropping lines
  with memory from the slab allocator, eviction, and the requests of application threads on
  remote addresses, \<open>ReadWrite\<close> and \<open>Lock\<close>. Thresholds computed in the source with the doubles
  \<open>0.8\<close> and \<open>0.9\<close> are the exact fractions here.
\<close>

subsection \<open>Creating and dropping lines\<close>

definition cache_sb_free :: "ptr \<Rightarrow> Worker \<Rightarrow> Worker option" where
  "cache_sb_free p w = do {
     (n, s, m) \<leftarrow> sb_free p (w_sb w) (w_mem w);
     Some (w \<lparr> w_sb := s, w_mem := m \<rparr>) }"

text \<open>
  \<open>SetCLine(addr, line)\<close>; \<open>line = 0\<close> is the default argument. A new line that is given a buffer
  keeps the address \<open>0\<close> it was constructed with.
\<close>

definition SetCLine :: "gaddr \<Rightarrow> ptr \<Rightarrow> Worker \<Rightarrow> (CacheLine \<times> Worker) option" where
  "SetCLine addr line w =
     (let block = TOBLOCK addr
      in case caches (w_cache w) block of
           Some cl \<Rightarrow>
             if line \<noteq> 0
             then do {
               w \<leftarrow> cache_sb_free (c_line cl) w;
               let cl' = cl \<lparr> c_line := line, c_addr := block \<rparr>;
               Some (cl', on_cache (\<lambda>c. c \<lparr> used_bytes := used_bytes c - uint BLOCK_SIZE,
                                           caches := (caches c)(block \<mapsto> cl') \<rparr>) w) }
             else Some (cl, w)
         | None \<Rightarrow>
             if line \<noteq> 0
             then let cl = new_CacheLine \<lparr> c_line := line \<rparr>
                  in Some (cl, on_cache (\<lambda>c. c \<lparr> caches := (caches c)(block \<mapsto> cl) \<rparr>) w)
             else do {
               (p, s, m) \<leftarrow> sb_aligned_calloc 1 (unat BLOCK_SIZE) (unat BLOCK_SIZE) (w_sb w) (w_mem w);
               Some (new_CacheLine \<lparr> c_line := p, c_addr := block \<rparr>,
                     on_cache (cache_add block p) (w \<lparr> w_sb := s, w_mem := m \<rparr>)) })"

definition cache_ToInvalid :: "gaddr \<Rightarrow> Worker \<Rightarrow> Worker option" where
  "cache_ToInvalid a w = do {
     cl \<leftarrow> caches (w_cache w) a;
     w \<leftarrow> cache_sb_free (c_line cl) w;
     Some (on_cache (cache_drop a) w) }"

text \<open>\<open>ToInvalid(addr)\<close>: a missing line is logged.\<close>

definition cache_ToInvalid_addr :: "gaddr \<Rightarrow> Worker \<Rightarrow> Worker option" where
  "cache_ToInvalid_addr addr w =
     (case caches (w_cache w) (TOBLOCK addr) of None \<Rightarrow> Some w | Some cl \<Rightarrow> cache_ToInvalid (TOBLOCK addr) w)"

subsection \<open>Eviction\<close>

definition Evict_line :: "gaddr \<Rightarrow> Worker \<Rightarrow> Worker option" where
  "Evict_line a w = do {
     cl \<leftarrow> caches (w_cache w) a;
     let (r, w) = wr_new (new_WorkRequest \<lparr> wr_addr := c_addr cl, wr_ptr := c_line cl \<rparr>) w;
     let cli = GetClient w (c_addr cl);
     if c_state cl = CACHE_SHARED
     then do {
       w \<leftarrow> cache_ToInvalid a (wr_upd r (\<lambda>x. x \<lparr> wr_op := ACTIVE_INVALIDATE \<rparr>) w);
       c \<leftarrow> cli;
       w \<leftarrow> SubmitRequest c r w;
       Some (wr_del r w) }
     else if c_state cl = CACHE_DIRTY
     then do {
       c \<leftarrow> cli;
       dest \<leftarrow> cli_ToLocal w c (c_addr cl);
       let w = cli_Write c dest (c_line cl) (unat BLOCK_SIZE) (wr_upd r (\<lambda>x. x \<lparr> wr_op := WRITE_BACK \<rparr>) w);
       SubmitPending c r (on_cache (cache_ToToInvalid a) w) }
     else Some w }"

text \<open>
  The search for a victim from the tail of a list. The variable \<open>tries\<close> of the source is \<open>1\<close>:
  only the tail is looked at.
\<close>

fun evict_scan :: "nat \<Rightarrow> gaddr option \<Rightarrow> Worker \<Rightarrow> gaddr option" where
  "evict_scan 0 t w = None"
| "evict_scan (Suc n) None w = None"
| "evict_scan (Suc n) (Some a) w =
     (case caches (w_cache w) a of
        None \<Rightarrow> None
      | Some cl \<Rightarrow>
          if \<not> blk_busy w (c_addr cl) \<and> \<not> (length (c_locks cl) > 0 \<or> cache_InTransition (c_state cl))
          then Some a
          else evict_scan n (c_prev cl) w)"

primrec evict_loop :: "nat \<Rightarrow> int \<Rightarrow> Worker \<Rightarrow> (int \<times> Worker) option" where
  "evict_loop 0 i w = Some (i, w)"
| "evict_loop (Suc n) i w =
     (let (lru_no, c) = GetRandom LRU_NUM (w_cache w);
          w = w \<lparr> w_cache := c \<rparr>
      in if \<not> c_busy (w_cache w) lru_no
         then case tails (w_cache w) lru_no of
                None \<Rightarrow> Some (0, w)
              | Some t \<Rightarrow>
                  (case evict_scan 1 (Some t) w of
                     None \<Rightarrow> evict_loop n (i + 1) w
                   | Some a \<Rightarrow> do {
                       cl \<leftarrow> caches (w_cache w) a;
                       w \<leftarrow> Evict_line a (on_cache (UnLinkLRU_at a (nat (c_pos cl))) w);
                       evict_loop n (i + 1) w })
         else evict_loop n (i + 1) w)"

definition cache_used :: "Cache \<Rightarrow> int" where
  "cache_used c = used_bytes c - to_evicted c * uint BLOCK_SIZE"

definition Evict_n :: "int \<Rightarrow> Worker \<Rightarrow> (int \<times> Worker) option" where
  "Evict_n n w =
     (let used = cache_used (w_cache w); lim = max_cache_mem (w_cache w)
      in if used < 0 \<or> 5 * used \<le> 4 * lim then Some (0, w)
         else let mx = (5 * used - 4 * lim) div (5 * uint BLOCK_SIZE);
                  n = (if n > mx then mx else n);
                  n = (if n > 128 then 128 else n)
              in evict_loop (nat n) 0 w)"

definition Evict :: "Worker \<Rightarrow> Worker option" where
  "Evict w =
     (let used = cache_used (w_cache w); lim = max_cache_mem (w_cache w)
      in if used > 0 \<and> 10 * used > 9 * lim
         then do {
           (ret, w) \<leftarrow> Evict_n ((10 * used - 9 * lim) div (10 * uint BLOCK_SIZE)) w;
           Some (on_cache (\<lambda>c. c \<lparr> num_evict := num_evict c + ret \<rparr>) w) }
         else Some w)"

subsection \<open>Reads and writes of remote addresses\<close>

text \<open>The part of a request that lies in block \<open>i\<close>: in the line, and in the buffer of the request.\<close>

definition seg_cs :: "ptr \<Rightarrow> gaddr \<Rightarrow> gaddr \<Rightarrow> ptr" where
  "seg_cs line start i = line + GMINUS (seg_start start i) i"

definition seg_ls :: "ptr \<Rightarrow> gaddr \<Rightarrow> gaddr \<Rightarrow> ptr" where
  "seg_ls p start i = p + GMINUS (seg_start start i) start"

definition touch_lru :: "gaddr \<Rightarrow> Worker \<Rightarrow> Worker" where
  "touch_lru a = on_cache (\<lambda>c. LinkLRU a (UnLinkLRU a c))"

definition count_request_send :: "Worker \<Rightarrow> Worker" where
  "count_request_send = on_cache (\<lambda>c. c \<lparr> num_request_send := num_request_send c + 1 \<rparr>)"

text \<open>
  The request \<open>lwr\<close> a handler sends for a whole block on behalf of \<open>wr\<close>: a copy of \<open>wr\<close> with its
  own counter. \<open>link_parent\<close> makes \<open>wr\<close> wait for it.
\<close>

definition block_request :: "WorkRequest \<Rightarrow> gaddr \<Rightarrow> ptr \<Rightarrow> WorkRequest" where
  "block_request wr i line =
     (set_flg CACHED (copy_WorkRequest wr)) \<lparr> wr_counter := 0, wr_addr := i, wr_size := BLOCK_SIZE, wr_ptr := line \<rparr>"

definition link_parent :: "nat \<Rightarrow> nat \<Rightarrow> Worker \<Rightarrow> Worker" where
  "link_parent l r w =
     wr_upd r (\<lambda>x. x \<lparr> wr_counter := wr_counter x + 1 \<rparr>) (wr_upd l (\<lambda>x. x \<lparr> wr_parent := Some r \<rparr>) w)"

definition set_miss :: "nat \<Rightarrow> Worker \<Rightarrow> Worker" where
  "set_miss r = wr_upd r (\<lambda>x. x \<lparr> wr_is_cache_hit := False \<rparr>)"

type_synonym rw_result = "(int \<times> Worker) + (nat \<times> int \<times> Worker)"

text \<open>A line that is cached and not in transition.\<close>

definition rw_hit ::
    "32 word option \<Rightarrow> gaddr \<Rightarrow> gaddr \<Rightarrow> gaddr \<Rightarrow> nat \<Rightarrow> int \<Rightarrow> CacheLine \<Rightarrow> Worker \<Rightarrow> rw_result option" where
  "rw_hit cli start e i r nc cl w = do {
     wr \<leftarrow> wrs w r;
     let cs = seg_cs (c_line cl) start i;
     let ls = seg_ls (wr_ptr wr) start i;
     let len = seg_len start e i;
     if wr_op wr = READ
     then Some (Inr (r, nc, touch_lru (c_addr cl) (on_mem (memcpy ls cs len) w)))
     else if wr_op wr = WRITE
     then if c_state cl \<noteq> CACHE_DIRTY
          then do {
            let w = set_miss r w;
            wr \<leftarrow> wrs w r;
            let (l, w) = wr_new ((block_request wr i (c_line cl)) \<lparr> wr_op := WRITE_PERMISSION_ONLY \<rparr>) w;
            (r, w) \<leftarrow> copy_if_async r w;
            let w = on_cache (\<lambda>c. UnLinkLRU (c_addr cl) (cache_ToToDirty (c_addr cl) c)) (link_parent l r w);
            let w = (if flg GFUNC wr then w else on_mem (memcpy cs ls len) w);
            c \<leftarrow> cli;
            w \<leftarrow> SubmitPending c l w;
            Some (Inr (r, nc, count_request_send w)) }
          else do {
            w \<leftarrow> (if flg GFUNC wr then run_gfunc wr cs w else Some (on_mem (memcpy cs ls len) w));
            Some (Inr (r, nc, touch_lru (c_addr cl) w)) }
     else Some (Inr (r, nc, w)) }"

text \<open>A block that is not cached.\<close>

definition rw_miss ::
    "32 word option \<Rightarrow> gaddr \<Rightarrow> nat \<Rightarrow> int \<Rightarrow> Worker \<Rightarrow> rw_result option" where
  "rw_miss cli i r nc w = do {
     wr \<leftarrow> wrs w r;
     (cl, w) \<leftarrow> SetCLine i 0 w;
     let (l, w) = wr_new (block_request wr i (c_line cl)) w;
     (r, w) \<leftarrow> copy_if_async r (set_miss r w);
     let w = on_cache ((if wr_op wr = READ then cache_ToToShared else cache_ToToDirty) (c_addr cl)) (link_parent l r w);
     c \<leftarrow> cli;
     w \<leftarrow> SubmitPending c l w;
     Some (Inr (r, nc + 1, count_request_send w)) }"

definition rw_block ::
    "32 word option \<Rightarrow> gaddr \<Rightarrow> gaddr \<Rightarrow> gaddr \<Rightarrow> nat \<Rightarrow> int \<Rightarrow> Worker \<Rightarrow> rw_result option" where
  "rw_block cli start e i r nc w = do {
     wr \<leftarrow> wrs w r;
     case cache_GetCLine (w_cache w) i of
       None \<Rightarrow> rw_miss cli i r nc w
     | Some cl \<Rightarrow>
         if wr_op wr = READ \<and>
            (c_state cl = CACHE_TO_INVALID \<or> c_state cl = CACHE_TO_DIRTY \<and> cache_IsBlockLocked cl)
         then Some (Inr (r, nc,
                on_mem (memcpy (seg_ls (wr_ptr wr) start i) (seg_cs (c_line cl) start i) (seg_len start e i)) w))
         else if cache_InTransition (c_state cl)
         then do {
           (r, w) \<leftarrow> copy_if_async r (wr_upd r (\<lambda>x. x \<lparr> wr_counter := wr_counter x + 1 \<rparr>) w);
           Some (Inl (1, AddToServeLocalRequest i r w)) }
         else rw_hit cli start e i r nc cl w }"

fun rw_loop ::
    "32 word option \<Rightarrow> gaddr \<Rightarrow> gaddr \<Rightarrow> gaddr list \<Rightarrow> nat \<Rightarrow> int \<Rightarrow> Worker \<Rightarrow> rw_result option" where
  "rw_loop cli start e [] r nc w = Some (Inr (r, nc, w))"
| "rw_loop cli start e (i # bs) r nc w = do {
     res \<leftarrow> rw_block cli start e i r nc w;
     case res of
       Inl x \<Rightarrow> Some (Inl x)
     | Inr (r, nc, w) \<Rightarrow> rw_loop cli start e bs r nc w }"

definition cache_ReadWrite :: "nat \<Rightarrow> Worker \<Rightarrow> (int \<times> Worker) option" where
  "cache_ReadWrite r w = do {
     wr \<leftarrow> wrs w r;
     let start = wr_addr wr;
     let e = GADD start (wr_size wr);
     let cli = GetClient w start;
     let w = (if flg TO_SERVE wr then wr_upd r (\<lambda>x. x \<lparr> wr_counter := wr_counter x - 1 \<rparr>) w else w);
     bs \<leftarrow> blocks_from (TOBLOCK start) e;
     res \<leftarrow> rw_loop cli start e bs r 0 w;
     case res of
       Inl x \<Rightarrow> Some x
     | Inr (r, nc, w) \<Rightarrow> do {
         wr \<leftarrow> wrs w r;
         let ret = wr_counter wr;
         if nc \<noteq> 0 then do { (_, w) \<leftarrow> Evict_n nc w; Some (ret, w) } else Some (ret, w) } }"

subsection \<open>Locks on remote addresses\<close>

text \<open>What both lock operations do when the lock is taken.\<close>

definition lock_fails :: "gaddr \<Rightarrow> nat \<Rightarrow> Worker \<Rightarrow> (int \<times> Worker) option" where
  "lock_fails i r w = do {
     let w = set_miss r w;
     wr \<leftarrow> wrs w r;
     if flg TRY_LOCK wr
     then Some (uint SUCCESS, wr_upd r (\<lambda>x. x \<lparr> wr_status := LOCK_FAILED \<rparr>) w)
     else Some (uint IN_TRANSITION, AddToServeLocalRequest i r w) }"

definition lock_hit :: "32 word option \<Rightarrow> gaddr \<Rightarrow> nat \<Rightarrow> CacheLine \<Rightarrow> Worker \<Rightarrow> (int \<times> Worker) option" where
  "lock_hit cli i r cl w = do {
     wr \<leftarrow> wrs w r;
     if wr_op wr = RLOCK
     then (case cache_RLock_line cl (wr_addr wr) (w_cache w) of
             (ret, c) \<Rightarrow> if ret \<noteq> 0 then lock_fails i r w
                        else Some (wr_counter wr, touch_lru (c_addr cl) (w \<lparr> w_cache := c \<rparr>)))
     else if wr_op wr = WLOCK
     then if c_state cl \<noteq> CACHE_DIRTY
          then do {
            let w = set_miss r w;
            wr \<leftarrow> wrs w r;
            let (l, w) = wr_new ((set_flg LOCKED (block_request wr i (c_line cl))) \<lparr> wr_op := WRITE_PERMISSION_ONLY \<rparr>) w;
            (r, w) \<leftarrow> copy_if_async r w;
            let w = on_cache (cache_ToToDirty (c_addr cl)) (link_parent l r w);
            c \<leftarrow> cli;
            w \<leftarrow> SubmitPending c l w;
            let w = on_cache (UnLinkLRU (c_addr cl)) (count_request_send w);
            wr \<leftarrow> wrs w r;
            Some (wr_counter wr, w) }
          else let w = touch_lru (c_addr cl) w
               in (case cache_WLock_line cl (wr_addr wr) (w_cache w) of
                     (ret, c) \<Rightarrow> if ret \<noteq> 0 then lock_fails i r w else Some (wr_counter wr, w \<lparr> w_cache := c \<rparr>))
     else Some (wr_counter wr, w) }"

definition lock_miss :: "32 word option \<Rightarrow> gaddr \<Rightarrow> nat \<Rightarrow> Worker \<Rightarrow> (int \<times> Worker) option" where
  "lock_miss cli i r w = do {
     (cl, w) \<leftarrow> SetCLine i 0 w;
     let w = set_miss r w;
     wr \<leftarrow> wrs w r;
     let (l, w) = wr_new ((set_flg LOCKED (block_request wr i (c_line cl)))
                            \<lparr> wr_op := (if wr_op wr = RLOCK then READ else WRITE) \<rparr>) w;
     (r, w) \<leftarrow> copy_if_async r w;
     let w = on_cache ((if wr_op wr = RLOCK then cache_ToToShared else cache_ToToDirty) (c_addr cl)) (link_parent l r w);
     c \<leftarrow> cli;
     w \<leftarrow> SubmitPending c l w;
     let w = count_request_send w;
     wr \<leftarrow> wrs w r;
     (_, w) \<leftarrow> Evict_n 1 w;
     Some (wr_counter wr, w) }"

definition cache_Lock :: "nat \<Rightarrow> Worker \<Rightarrow> (int \<times> Worker) option" where
  "cache_Lock r w = do {
     wr \<leftarrow> wrs w r;
     let i = TOBLOCK (wr_addr wr);
     let cli = GetClient w (wr_addr wr);
     case cache_GetCLine (w_cache w) i of
       None \<Rightarrow> lock_miss cli i r w
     | Some cl \<Rightarrow>
         if cache_InTransition (c_state cl)
         then Some (1, AddToServeLocalRequest i r (set_miss r w))
         else lock_hit cli i r cl w }"

end
