(* ===== verification/Local_Request.thy ===== *)
theory Local_Request
  imports Cache_Ops
begin

text \<open>
  Requests of the application threads of a node (\<open>src/local_request.cc\<close>,
  \<open>src/local_request_cache.cc\<close>): allocation, fences, reads, writes and locks. Every handler
  returns the status the application thread gets. The handlers call \<open>Notify\<close> and
  \<open>ProcessToServeRequest\<close>, which call handlers again: these are the arguments \<open>NT\<close> and \<open>TS\<close>.
\<close>

type_synonym outcome = "32 word \<times> Worker"

subsection \<open>Shared endings and fence checks\<close>

definition notify_if_queued :: "step \<Rightarrow> step" where
  "notify_if_queued NT r w = do {
     wr \<leftarrow> wrs w r;
     if flg TO_SERVE wr \<or> flg FENCE wr then NT r w else Some w }"

definition finish :: "step \<Rightarrow> nat \<Rightarrow> Worker \<Rightarrow> outcome option" where
  "finish NT r w = do { w \<leftarrow> notify_if_queued NT r w; Some (SUCCESS, w) }"

text \<open>A request that is fulfilled in the application thread counts as a hit.\<close>

definition finish_hit :: "(bool \<Rightarrow> bool \<Rightarrow> Worker \<Rightarrow> Worker) \<Rightarrow> step \<Rightarrow> nat \<Rightarrow> Worker \<Rightarrow> outcome option" where
  "finish_hit count NT r w = do {
     wr \<leftarrow> wrs w r;
     if flg TO_SERVE wr \<or> flg FENCE wr then do { w \<leftarrow> NT r w; Some (SUCCESS, w) }
     else Some (SUCCESS, count (IsLocal w (wr_addr wr)) True w) }"

text \<open>
  The fence check of a read, a write and the lock operations: \<open>Inl\<close> is the early return with
  \<open>FENCE_PENDING\<close>.
\<close>

type_synonym 'a early = "outcome + 'a"

definition read_fence :: "nat \<Rightarrow> Worker \<Rightarrow> Worker early option" where
  "read_fence r w = do {
     wr \<leftarrow> wrs w r;
     if flg FENCE wr then Some (Inr w)
     else do {
       f \<leftarrow> fences w (wr_fd wr);
       if IsMFenced f wr then do { w \<leftarrow> AddToFence (wr_fd wr) r w; Some (Inl (FENCE_PENDING, w)) }
       else Some (Inr w) } }"

definition write_fence :: "nat \<Rightarrow> Worker \<Rightarrow> Worker early option" where
  "write_fence r w = do {
     wr \<leftarrow> wrs w r;
     f \<leftarrow> fences w (wr_fd wr);
     if \<not> flg FENCE wr \<and> IsFenced f wr
     then do { w \<leftarrow> AddToFence (wr_fd wr) r w; Some (Inl (FENCE_PENDING, w)) }
     else if flg ASYNC wr \<and> \<not> flg TO_SERVE wr
     then Some (Inr (upd_fence (wr_fd wr) (\<lambda>f. f \<lparr> pending_writes := pending_writes f + 1 \<rparr>) w))
     else Some (Inr w) }"

definition lock_fence :: "nat \<Rightarrow> Worker \<Rightarrow> Worker early option" where
  "lock_fence r w = do {
     wr \<leftarrow> wrs w r;
     if flg FENCE wr then Some (Inr w)
     else do {
       f \<leftarrow> fences w (wr_fd wr);
       if IsFenced f wr then do { w \<leftarrow> AddToFence (wr_fd wr) r w; Some (Inl (FENCE_PENDING, w)) }
       else if pending_writes f \<noteq> 0
       then do {
         w \<leftarrow> AddToFence (wr_fd wr) r (upd_fence (wr_fd wr) (\<lambda>f. f \<lparr> mfenced := True \<rparr>) w);
         Some (Inl (FENCE_PENDING, w)) }
       else Some (Inr w) } }"

text \<open>Continue with \<open>f\<close> unless there was an early return.\<close>

definition unless_early :: "'a early option \<Rightarrow> ('a \<Rightarrow> outcome option) \<Rightarrow> outcome option" where
  "unless_early x f = do { y \<leftarrow> x; case y of Inl out \<Rightarrow> Some out | Inr z \<Rightarrow> f z }"

subsection \<open>Allocation\<close>

definition malloc_at :: "32 word \<Rightarrow> nat \<Rightarrow> Worker \<Rightarrow> outcome option" where
  "malloc_at c r w = do {
     wr \<leftarrow> wrs w r;
     w \<leftarrow> SubmitPending c r (SetMemStat c (GetTotalMem w c) (GetFreeMem w c - wr_size wr) w);
     Some (REMOTE_REQUEST, w) }"

text \<open>
  The loop over random workers: \<open>Some None\<close> when it hits the worker itself, \<open>Some (Some c)\<close>
  when it finds one with enough memory, and \<open>None\<close> when it runs to its end.
\<close>

fun pick_random :: "nat \<Rightarrow> 64 word \<Rightarrow> Worker \<Rightarrow> 32 word option option \<times> Worker" where
  "pick_random 0 sz w = (None, w)"
| "pick_random (Suc n) sz w =
     (let workid = w_rand w (w_rpos w) mod length (widCliMapWorker w);
          w = w \<lparr> w_rpos := Suc (w_rpos w) \<rparr>;
          c = widCliMapWorker w ! workid
      in if c = w_id w then (Some None, w)
         else if sz \<le>s GetFreeMem w c then (Some (Some c), w)
         else pick_random n sz w)"

definition malloc_here :: "step \<Rightarrow> nat \<Rightarrow> Worker \<Rightarrow> outcome option" where
  "malloc_here NT r w = do {
     wr \<leftarrow> wrs w r;
     (p, s) \<leftarrow> (if flg ALIGNED wr then sb_aligned_malloc (unat (wr_size wr)) (unat BLOCK_SIZE) (w_sb w)
               else sb_malloc (unat (wr_size wr)) (w_sb w));
     let w = w \<lparr> w_sb := s \<rparr>;
     if p = 0
     then if wr_size wr \<noteq> 0 then None
          else finish NT r (wr_upd r (\<lambda>x. x \<lparr> wr_status := ALLOC_ERROR \<rparr>) w)
     else do {
       let w = on_mem (memset0 p (unat (wr_size wr))) w;
       let w = wr_upd r (\<lambda>x. x \<lparr> wr_addr := ToGlobal w p, wr_status := SUCCESS \<rparr>) w;
       let w = w \<lparr> ghost_size := ghost_size w + wr_size wr \<rparr>;
       w \<leftarrow> (if ghost_over w then SyncMaster UPDATE_MEM_STATS None w else Some w);
       finish NT r w } }"

definition memory_pressure :: "Worker \<Rightarrow> bool" where
  "memory_pressure w \<longleftrightarrow>
     (used_bytes (w_cache w) + mem_free (w_sb w)) * int (cf_th_den (w_conf w)) <
     int (cf_size (w_conf w) * cf_th_num (w_conf w))"

text \<open>\<open>cli->lock()\<close> comes before the test whether there is a client at all.\<close>

definition malloc_local :: "step \<Rightarrow> nat \<Rightarrow> Worker \<Rightarrow> outcome option" where
  "malloc_local NT r w =
     (if memory_pressure w
      then (case GetClient w Gnullptr of None \<Rightarrow> None | Some c \<Rightarrow> malloc_at c r w)
      else malloc_here NT r w)"

definition ProcessLocalMalloc :: "step \<Rightarrow> nat \<Rightarrow> Worker \<Rightarrow> outcome option" where
  "ProcessLocalMalloc NT r w = do {
     wr \<leftarrow> wrs w r;
     if flg REMOTE wr \<or> wr_addr wr \<noteq> 0 \<and> \<not> IsLocal w (wr_addr wr)
     then (case GetClient w (wr_addr wr) of
             None \<Rightarrow> malloc_local NT r w
           | Some c \<Rightarrow> malloc_at c r w)
     else if flg RANDOM wr
     then let (res, w) = pick_random (length (widCliMapWorker w)) (wr_size wr) w;
              cli = (case res of None \<Rightarrow> GetClient w (wr_addr wr) | Some c \<Rightarrow> c)
          in (case cli of None \<Rightarrow> malloc_local NT r w | Some c \<Rightarrow> malloc_at c r w)
     else malloc_local NT r w }"

definition free_here :: "ptr \<Rightarrow> Worker \<Rightarrow> Worker option" where
  "free_here p w = do {
     (n, s, m) \<leftarrow> sb_free p (w_sb w) (w_mem w);
     let w = w \<lparr> w_sb := s, w_mem := m, ghost_size := ghost_size w - of_nat n \<rparr>;
     if ghost_over w then SyncMaster UPDATE_MEM_STATS None w else Some w }"

definition ProcessLocalFree :: "step \<Rightarrow> nat \<Rightarrow> Worker \<Rightarrow> outcome option" where
  "ProcessLocalFree NT r w = do {
     wr \<leftarrow> wrs w r;
     w \<leftarrow> (if IsLocal w (wr_addr wr) then free_here (ToLocal w (wr_addr wr)) w
           else (case GetClient w (wr_addr wr) of
                   None \<Rightarrow> Some (wr_upd r (\<lambda>x. x \<lparr> wr_status := ALLOC_ERROR \<rparr>) w)
                 | Some c \<Rightarrow> SubmitRequest c r w));
     finish NT r w }"

subsection \<open>Fences\<close>

definition ProcessLocalMFence :: "step \<Rightarrow> nat \<Rightarrow> Worker \<Rightarrow> outcome option" where
  "ProcessLocalMFence NT r w = do {
     wr \<leftarrow> wrs w r;
     f \<leftarrow> fences w (wr_fd wr);
     if IsFenced f wr then do { w \<leftarrow> AddToFence (wr_fd wr) r w; Some (SUCCESS, w) }
     else finish NT r
            (if pending_writes f \<noteq> 0 then upd_fence (wr_fd wr) (\<lambda>f. f \<lparr> mfenced := True \<rparr>) w else w) }"

definition ProcessLocalSFence :: "step \<Rightarrow> nat \<Rightarrow> Worker \<Rightarrow> outcome option" where
  "ProcessLocalSFence NT r w = do {
     wr \<leftarrow> wrs w r;
     f \<leftarrow> fences w (wr_fd wr);
     if IsFenced f wr then do { w \<leftarrow> AddToFence (wr_fd wr) r w; Some (SUCCESS, w) }
     else finish NT r
            (if pending_writes f \<noteq> 0 then upd_fence (wr_fd wr) (\<lambda>f. f \<lparr> sfenced := True \<rparr>) w else w) }"

subsection \<open>Reads\<close>

text \<open>A request for a whole block of this node's memory, to the workers that cache it.\<close>

definition home_request :: "WorkRequest \<Rightarrow> Work \<Rightarrow> gaddr \<Rightarrow> ptr \<Rightarrow> WorkRequest" where
  "home_request wr op i laddr =
     (copy_WorkRequest wr) \<lparr> wr_counter := 0, wr_op := op, wr_addr := i, wr_size := BLOCK_SIZE, wr_ptr := laddr \<rparr>"

text \<open>\<open>GetSList(entry).front()\<close>\<close>

definition front_sharer :: "DirEntry option \<Rightarrow> gaddr option" where
  "front_sharer oe = do { e \<leftarrow> oe; case d_shared e of [] \<Rightarrow> None | a # _ \<Rightarrow> Some a }"

definition incr_counter :: "nat \<Rightarrow> Worker \<Rightarrow> Worker" where
  "incr_counter r = wr_upd r (\<lambda>x. x \<lparr> wr_counter := wr_counter x + 1 \<rparr>)"

text \<open>
  The branch of a read or read lock on a block another node has dirty: fetch it. \<open>mark\<close> sets
  the flags of the request that is sent.
\<close>

definition fetch_shared ::
    "(WorkRequest \<Rightarrow> WorkRequest) \<Rightarrow> gaddr \<Rightarrow> ptr \<Rightarrow> DirEntry option \<Rightarrow> nat \<Rightarrow> Worker \<Rightarrow> Worker option" where
  "fetch_shared mark i laddr entry r w = do {
     wr \<leftarrow> wrs w r;
     rc \<leftarrow> front_sharer entry;
     e \<leftarrow> entry;
     c \<leftarrow> GetClient w rc;
     let (l, w) = wr_new (mark ((home_request wr FETCH_AND_SHARED i laddr) \<lparr> wr_parent := Some r \<rparr>)) w;
     SubmitPending c l (on_dir (dir_ToToShared_entry e) (incr_counter r w)) }"

definition local_read_block :: "gaddr \<Rightarrow> gaddr \<Rightarrow> gaddr \<Rightarrow> nat \<Rightarrow> Worker \<Rightarrow> Worker early option" where
  "local_read_block start e i r w = do {
     wr \<leftarrow> wrs w r;
     let laddr = ToLocal w i;
     let entry = dir_GetEntry (w_dir w) laddr;
     let s = dir_GetState entry;
     if dir_InTransition s
     then Some (Inl (IN_TRANSITION, set_miss r (AddToServeLocalRequest i r (incr_counter r w))))
     else if s = DIR_DIRTY
     then do { w \<leftarrow> fetch_shared (\<lambda>x. x) i laddr entry r w; Some (Inr (set_miss r w)) }
     else Some (Inr (on_mem (memcpy (seg_ls (wr_ptr wr) start i) (ToLocal w (seg_start start i)) (seg_len start e i)) w)) }"

fun local_read_loop :: "gaddr \<Rightarrow> gaddr \<Rightarrow> gaddr list \<Rightarrow> nat \<Rightarrow> Worker \<Rightarrow> Worker early option" where
  "local_read_loop start e [] r w = Some (Inr w)"
| "local_read_loop start e (i # bs) r w = do {
     res \<leftarrow> local_read_block start e i r w;
     case res of Inl out \<Rightarrow> Some (Inl out) | Inr w \<Rightarrow> local_read_loop start e bs r w }"

definition decr_if_served :: "WorkRequest \<Rightarrow> nat \<Rightarrow> Worker \<Rightarrow> Worker" where
  "decr_if_served wr r w =
     (if flg TO_SERVE wr then wr_upd r (\<lambda>x. x \<lparr> wr_counter := wr_counter x - 1 \<rparr>) w else w)"

text \<open>\<open>if (wr->counter) return REMOTE_REQUEST;\<close>\<close>

definition unless_pending :: "nat \<Rightarrow> Worker \<Rightarrow> (Worker \<Rightarrow> outcome option) \<Rightarrow> outcome option" where
  "unless_pending r w f = do {
     wr \<leftarrow> wrs w r;
     if wr_counter wr \<noteq> 0 then Some (REMOTE_REQUEST, w) else f w }"

definition local_read :: "step \<Rightarrow> nat \<Rightarrow> Worker \<Rightarrow> outcome option" where
  "local_read NT r w = do {
     wr \<leftarrow> wrs w r;
     let start = wr_addr wr;
     let e = GADD start (wr_size wr);
     bs \<leftarrow> blocks_from (TOBLOCK start) e;
     unless_early (local_read_loop start e bs r (decr_if_served wr r w))
       (\<lambda>w. unless_pending r w (finish_hit count_read NT r)) }"

definition remote_read :: "step \<Rightarrow> nat \<Rightarrow> Worker \<Rightarrow> outcome option" where
  "remote_read NT r w = do {
     (ret, w) \<leftarrow> cache_ReadWrite r w;
     let w = upd_stats (\<lambda>s. s \<lparr> st_num_evict := num_evict (w_cache w), st_num_request_send := num_request_send (w_cache w) \<rparr>) w;
     if ret \<noteq> 0 then Some (REMOTE_REQUEST, w) else finish_hit count_read NT r w }"

definition ProcessLocalRead :: "step \<Rightarrow> nat \<Rightarrow> Worker \<Rightarrow> outcome option" where
  "ProcessLocalRead NT r w =
     unless_early (read_fence r w) (\<lambda>w. do {
       wr \<leftarrow> wrs w r;
       if IsLocal w (wr_addr wr) then local_read NT r w else remote_read NT r w })"

subsection \<open>Writes\<close>

fun submit_all :: "gaddr list \<Rightarrow> nat \<Rightarrow> Worker \<Rightarrow> Worker option" where
  "submit_all [] l w = Some w"
| "submit_all (a # as) l w = do {
     c \<leftarrow> GetClient w a;
     w \<leftarrow> SubmitRequest c l w;
     submit_all as l w }"

text \<open>
  The branch of a write (\<open>is_write\<close>) or write lock on a block other nodes cache: tell every
  sharer. The request that waits counts one answer from each.
\<close>

definition invalidate_sharers ::
    "bool \<Rightarrow> gaddr \<Rightarrow> ptr \<Rightarrow> DirEntry \<Rightarrow> nat \<Rightarrow> Worker \<Rightarrow> (nat \<times> Worker) option" where
  "invalidate_sharers is_write i laddr e r w = do {
     wr \<leftarrow> wrs w r;
     let op = (if d_state e = DIR_DIRTY then FETCH_AND_INVALIDATE else INVALIDATE);
     let lwr = home_request wr op i laddr;
     let (l, w) = wr_new (if is_write then lwr else set_flg LOCKED lwr) w;
     (r, w) \<leftarrow> (if is_write then copy_if_async r (set_miss r w) else Some (r, w));
     let (n, w) = GetWorkPsn w;
     let w = wr_upd l (\<lambda>x. x \<lparr> wr_parent := Some r, wr_id := n, wr_counter := int (length (d_shared e)) \<rparr>) w;
     let w = AddToPending n l (on_dir (dir_ToToUnShared_entry e) (incr_counter r w));
     w \<leftarrow> submit_all (d_shared e) l w;
     Some (r, w) }"

definition local_write_block ::
    "gaddr \<Rightarrow> gaddr \<Rightarrow> gaddr \<Rightarrow> nat \<Rightarrow> Worker \<Rightarrow> (nat \<times> Worker) early option" where
  "local_write_block start e i r w = do {
     wr \<leftarrow> wrs w r;
     let laddr = ToLocal w i;
     let entry = dir_GetEntry (w_dir w) laddr;
     let s = dir_GetState entry;
     if dir_InTransition s
     then do {
       (r, w) \<leftarrow> copy_if_async r (set_miss r (incr_counter r w));
       Some (Inl (IN_TRANSITION, AddToServeLocalRequest i r w)) }
     else if s = DIR_DIRTY \<or> s = DIR_SHARED
     then do {
       de \<leftarrow> entry;
       (r, w) \<leftarrow> invalidate_sharers True i laddr de r w;
       Some (Inr (r, w)) }
     else if flg GFUNC wr
     then do { w \<leftarrow> run_gfunc wr (ToLocal w (wr_addr wr)) w; Some (Inr (r, w)) }
     else Some (Inr (r, on_mem (memcpy (ToLocal w (seg_start start i)) (seg_ls (wr_ptr wr) start i) (seg_len start e i)) w)) }"

fun local_write_loop :: "gaddr \<Rightarrow> gaddr \<Rightarrow> gaddr list \<Rightarrow> nat \<Rightarrow> Worker \<Rightarrow> (nat \<times> Worker) early option" where
  "local_write_loop start e [] r w = Some (Inr (r, w))"
| "local_write_loop start e (i # bs) r w = do {
     res \<leftarrow> local_write_block start e i r w;
     case res of Inl out \<Rightarrow> Some (Inl out) | Inr (r, w) \<Rightarrow> local_write_loop start e bs r w }"

definition finish_write :: "step \<Rightarrow> nat \<Rightarrow> Worker \<Rightarrow> outcome option" where
  "finish_write NT r w = do {
     wr \<leftarrow> wrs w r;
     if flg ASYNC wr \<or> flg TO_SERVE wr \<or> flg FENCE wr then do { w \<leftarrow> NT r w; Some (SUCCESS, w) }
     else Some (SUCCESS, w) }"

definition local_write :: "step \<Rightarrow> nat \<Rightarrow> Worker \<Rightarrow> outcome option" where
  "local_write NT r w = do {
     wr \<leftarrow> wrs w r;
     let start = wr_addr wr;
     let e = GADD start (wr_size wr);
     bs \<leftarrow> blocks_from (TOBLOCK start) e;
     unless_early (local_write_loop start e bs r (decr_if_served wr r w))
       (\<lambda>(r, w). unless_pending r w (finish_write NT r)) }"

definition remote_write :: "step \<Rightarrow> nat \<Rightarrow> Worker \<Rightarrow> outcome option" where
  "remote_write NT r w = do {
     (ret, w) \<leftarrow> cache_ReadWrite r w;
     if ret \<noteq> 0 then Some (REMOTE_REQUEST, w)
     else finish_write NT r
            (upd_stats (\<lambda>s. s \<lparr> no_remote_writes_direct_hit := no_remote_writes_direct_hit s + 1 \<rparr>) w) }"

definition ProcessLocalWrite :: "step \<Rightarrow> nat \<Rightarrow> Worker \<Rightarrow> outcome option" where
  "ProcessLocalWrite NT r w =
     unless_early (write_fence r w) (\<lambda>w. do {
       wr \<leftarrow> wrs w r;
       if IsLocal w (wr_addr wr) then local_write NT r w else remote_write NT r w })"

subsection \<open>Locks\<close>

text \<open>A lock request that cannot be granted now: fail at once, or wait in the queue of the block.\<close>

definition retry_lock :: "gaddr \<Rightarrow> nat \<Rightarrow> Worker \<Rightarrow> Worker early option" where
  "retry_lock blk r w = do {
     wr \<leftarrow> wrs w r;
     if flg TRY_LOCK wr then Some (Inr (wr_upd r (\<lambda>x. x \<lparr> wr_status := LOCK_FAILED \<rparr>) w))
     else Some (Inl (IN_TRANSITION, AddToServeLocalRequest blk r w)) }"

definition local_rlock :: "step \<Rightarrow> nat \<Rightarrow> Worker \<Rightarrow> outcome option" where
  "local_rlock NT r w = do {
     wr \<leftarrow> wrs w r;
     let blk = TOBLOCK (wr_addr wr);
     let laddr = ToLocal w blk;
     let entry = dir_GetEntry (w_dir w) laddr;
     let s = dir_GetState entry;
     if dir_InTransition s then Some (IN_TRANSITION, AddToServeLocalRequest blk r w)
     else unless_early
       (if s = DIR_DIRTY
        then do { w \<leftarrow> fetch_shared (set_flg LOCKED) blk laddr entry r w; Some (Inr w) }
        else let p = ToLocal w (wr_addr wr);
                 (ret, d) = (case entry of Some e \<Rightarrow> dir_RLock_entry e p (w_dir w) | None \<Rightarrow> dir_RLock (w_dir w) p);
                 w = w \<lparr> w_dir := d \<rparr>
             in if ret \<noteq> 0 then retry_lock blk r w else Some (Inr w))
       (\<lambda>w. unless_pending r w (finish_hit count_read NT r)) }"

definition cache_lock_request :: "(bool \<Rightarrow> bool \<Rightarrow> Worker \<Rightarrow> Worker) \<Rightarrow> step \<Rightarrow> nat \<Rightarrow> Worker \<Rightarrow> outcome option" where
  "cache_lock_request count NT r w = do {
     (ret, w) \<leftarrow> cache_Lock r w;
     if ret \<noteq> 0 then Some (REMOTE_REQUEST, w) else finish_hit count NT r w }"

definition ProcessLocalRLock :: "step \<Rightarrow> nat \<Rightarrow> Worker \<Rightarrow> outcome option" where
  "ProcessLocalRLock NT r w =
     unless_early (lock_fence r w) (\<lambda>w. do {
       wr \<leftarrow> wrs w r;
       if IsLocal w (wr_addr wr) then local_rlock NT r w else cache_lock_request count_read NT r w })"

definition local_wlock :: "step \<Rightarrow> nat \<Rightarrow> Worker \<Rightarrow> outcome option" where
  "local_wlock NT r w = do {
     wr \<leftarrow> wrs w r;
     let blk = TOBLOCK (wr_addr wr);
     let laddr = ToLocal w blk;
     let entry = dir_GetEntry (w_dir w) laddr;
     let s = dir_GetState entry;
     if dir_InTransition s then Some (IN_TRANSITION, AddToServeLocalRequest blk r w)
     else unless_early
       (if s = DIR_DIRTY \<or> s = DIR_SHARED
        then do { e \<leftarrow> entry; (r', w) \<leftarrow> invalidate_sharers False blk laddr e r w; Some (Inr w) }
        else let p = ToLocal w (wr_addr wr);
                 (ret, d) = (case entry of Some e \<Rightarrow> dir_WLock_entry e p (w_dir w) | None \<Rightarrow> dir_WLock (w_dir w) p);
                 w = w \<lparr> w_dir := d \<rparr>
             in if ret \<noteq> 0 then retry_lock blk r w else Some (Inr w))
       (\<lambda>w. unless_pending r w (finish_hit count_write NT r)) }"

definition ProcessLocalWLock :: "step \<Rightarrow> nat \<Rightarrow> Worker \<Rightarrow> outcome option" where
  "ProcessLocalWLock NT r w =
     unless_early (lock_fence r w) (\<lambda>w. do {
       wr \<leftarrow> wrs w r;
       if IsLocal w (wr_addr wr) then local_wlock NT r w else cache_lock_request count_write NT r w })"

definition ProcessLocalUnLock :: "step \<Rightarrow> step \<Rightarrow> nat \<Rightarrow> Worker \<Rightarrow> outcome option" where
  "ProcessLocalUnLock NT TS r w =
     unless_early (lock_fence r w) (\<lambda>w. do {
       wr \<leftarrow> wrs w r;
       let w = (if IsLocal w (wr_addr wr) then on_dir (\<lambda>d. dir_UnLock d (ToLocal w (wr_addr wr))) w
                else on_cache (\<lambda>c. cache_UnLock c (wr_addr wr)) w);
       w \<leftarrow> TS r w;
       finish NT r w })"

subsection \<open>Dispatch\<close>

definition ProcessLocalRequest :: "step \<Rightarrow> step \<Rightarrow> nat \<Rightarrow> Worker \<Rightarrow> outcome option" where
  "ProcessLocalRequest NT TS r w = do {
     wr \<leftarrow> wrs w r;
     case wr_op wr of
       MALLOC \<Rightarrow> ProcessLocalMalloc NT r w
     | FREE \<Rightarrow> ProcessLocalFree NT r w
     | READ \<Rightarrow> ProcessLocalRead NT r w
     | WRITE \<Rightarrow> ProcessLocalWrite NT r w
     | MFENCE \<Rightarrow> ProcessLocalMFence NT r w
     | SFENCE \<Rightarrow> ProcessLocalSFence NT r w
     | RLOCK \<Rightarrow> ProcessLocalRLock NT r w
     | WLOCK \<Rightarrow> ProcessLocalWLock NT r w
     | UNLOCK \<Rightarrow> ProcessLocalUnLock NT TS r w
     | GET \<Rightarrow> do { w \<leftarrow> SubmitPending master r w; Some (REMOTE_REQUEST, w) }
     | PUT \<Rightarrow> do { w \<leftarrow> SubmitRequest master r w; finish NT r w }
     | _ \<Rightarrow> None }"

end
