(* ===== verification/Pending_Request.thy ===== *)
theory Pending_Request
  imports Local_Request
begin

text \<open>
  Completions (\<open>src/pending_request.cc\<close>): what a node does when an answer to one of its pending
  requests arrives as an RDMA write with immediate data, or as the last of the replies. \<open>c\<close> is
  the worker the answer comes from. As in \<open>Local_Request\<close>, \<open>NT\<close> is \<open>Notify\<close> and \<open>TS\<close> is
  \<open>ProcessToServeRequest\<close>.
\<close>

subsection \<open>Reads\<close>

text \<open>
  The bytes that the block request \<open>wr\<close> and the request \<open>parent\<close> it was made for share: where
  they are in the buffer of \<open>parent\<close>, in the block, and how many.
\<close>

definition overlap :: "WorkRequest \<Rightarrow> WorkRequest \<Rightarrow> ptr \<times> ptr \<times> nat" where
  "overlap wr parent =
     (let pend = GADD (wr_addr parent) (wr_size parent);
          e = GADD (wr_addr wr) (wr_size wr);
          gs = (if wr_addr wr > wr_addr parent then wr_addr wr else wr_addr parent)
      in (wr_ptr parent + GMINUS gs (wr_addr parent), wr_ptr wr + GMINUS gs (wr_addr wr),
          unat (if e > pend then GMINUS pend gs else GMINUS e gs)))"

definition entry_of :: "WorkRequest \<Rightarrow> Worker \<Rightarrow> DirEntry option" where
  "entry_of wr w = dir_GetEntry (w_dir w) (ToLocal w (wr_addr wr))"

text \<open>
  The variables \<open>cline\<close> and \<open>entry\<close> of \<open>ProcessPendingRead\<close> and \<open>ProcessPendingWrite\<close>: at most one
  of them is set.
\<close>

definition line_of :: "WorkRequest \<Rightarrow> Worker \<Rightarrow> CacheLine option" where
  "line_of wr w = (if flg CACHED wr then cache_GetCLine (w_cache w) (wr_addr wr) else None)"

definition held_entry :: "WorkRequest \<Rightarrow> Worker \<Rightarrow> DirEntry option" where
  "held_entry wr w = (if \<not> flg CACHED wr \<and> IsLocal w (wr_addr wr) then entry_of wr w else None)"

definition decr_counter :: "nat \<Rightarrow> Worker \<Rightarrow> Worker" where
  "decr_counter r = wr_upd r (\<lambda>x. x \<lparr> wr_counter := wr_counter x - 1 \<rparr>)"

definition pending_read_state :: "WorkRequest \<Rightarrow> Worker \<Rightarrow> Worker option" where
  "pending_read_state wr w =
     (if flg REPEATED wr then Some w
      else do {
        w \<leftarrow> (if flg CACHED wr then do { cl \<leftarrow> line_of wr w; Some (on_cache (cache_ToShared (c_addr cl)) w) }
              else if IsLocal w (wr_addr wr)
              then do { e \<leftarrow> held_entry wr w; Some (on_dir (dir_ToShared_entry e Gnullptr) w) }
              else Some w);
        Some (ErasePendingWork (wr_id wr) w) })"

definition pending_read_lock :: "WorkRequest \<Rightarrow> WorkRequest \<Rightarrow> Worker \<Rightarrow> Worker option" where
  "pending_read_lock wr parent w =
     (if \<not> flg LOCKED wr then Some w
      else if flg CACHED wr
      then do {
        cl \<leftarrow> line_of wr w;
        Some (on_cache (\<lambda>c. snd (cache_RLock_line cl (wr_addr parent) c)) w) }
      else if IsLocal w (wr_addr wr)
      then let p = ToLocal w (wr_addr parent)
           in Some (on_dir (\<lambda>d. snd (case held_entry wr w of Some e \<Rightarrow> dir_RLock_entry e p d | None \<Rightarrow> dir_RLock d p)) w)
      else Some w)"

definition ProcessPendingRead :: "step \<Rightarrow> step \<Rightarrow> nat \<Rightarrow> Worker \<Rightarrow> Worker option" where
  "ProcessPendingRead NT TS r w = do {
     wr \<leftarrow> wrs w r;
     p \<leftarrow> wr_parent wr;
     parent \<leftarrow> wrs w p;
     let w = (if flg LOCKED wr then w
              else case overlap wr parent of (ls, cs, len) \<Rightarrow> on_mem (memcpy ls cs len) w);
     w \<leftarrow> pending_read_state wr w;
     w \<leftarrow> pending_read_lock wr parent w;
     let w = decr_counter p w;
     parent \<leftarrow> wrs w p;
     w \<leftarrow> (if wr_counter parent = 0 then NT p w else Some w);
     w \<leftarrow> TS r w;
     Some (wr_del r w) }"

definition ProcessPendingReadForward :: "step \<Rightarrow> nat \<Rightarrow> Worker \<Rightarrow> Worker option" where
  "ProcessPendingReadForward TS r w = do {
     wr \<leftarrow> wrs w r;
     p \<leftarrow> wr_parent wr;
     parent \<leftarrow> wrs w p;
     e \<leftarrow> entry_of wr w;
     let w = on_dir (dir_ToShared_entry e Gnullptr) w;
     e \<leftarrow> entry_of wr w;
     g \<leftarrow> cli_ToGlobal w (wr_pwid wr) (wr_ptr parent);
     let w = on_dir (dir_ToShared_entry e g) w;
     w \<leftarrow> TS r (ErasePendingWork (wr_id wr) w);
     Some (wr_del p (wr_del r w)) }"

subsection \<open>Writes\<close>

text \<open>An answer from the home node adds one to the counter, any other takes one away.\<close>

definition count_answer :: "32 word \<Rightarrow> WorkRequest \<Rightarrow> nat \<Rightarrow> Worker \<Rightarrow> Worker" where
  "count_answer c wr r w =
     (if \<not> flg REPEATED wr \<and> \<not> flg REQUEST_DONE wr
      then if WID (wr_addr wr) = scast c then incr_counter r w else decr_counter r w
      else w)"

text \<open>\<open>directory.Remove(entry, cli->GetWorkerId())\<close> when the block is local.\<close>

definition drop_sharer :: "32 word \<Rightarrow> WorkRequest \<Rightarrow> Worker \<Rightarrow> Worker" where
  "drop_sharer c wr w =
     (if flg CACHED wr then w
      else if IsLocal w (wr_addr wr) then on_dir (dir_Remove_entry (held_entry wr w) (scast c)) w
      else w)"

definition undo_write :: "WorkRequest \<Rightarrow> Worker \<Rightarrow> Worker option" where
  "undo_write wr w =
     (if wr_op wr = WRITE then do { cl \<leftarrow> line_of wr w; cache_ToInvalid (c_addr cl) w }
      else if wr_op wr = WRITE_PERMISSION_ONLY
      then do { cl \<leftarrow> line_of wr w; Some (on_cache (cache_UndoShared (c_addr cl)) w) }
      else if wr_op wr = FETCH_AND_INVALIDATE
      then do { e \<leftarrow> held_entry wr w; Some (on_dir (dir_UndoDirty_entry e) w) }
      else do { e \<leftarrow> held_entry wr w; Some (on_dir (dir_UndoShared_entry e) w) })"

text \<open>Some responder refused the lock; the last answer undoes the request.\<close>

definition pending_write_failed :: "step \<Rightarrow> step \<Rightarrow> nat \<Rightarrow> nat \<Rightarrow> Worker \<Rightarrow> Worker option" where
  "pending_write_failed NT TS r p w = do {
     wr \<leftarrow> wrs w r;
     if wr_counter wr = 0
     then do {
       w \<leftarrow> undo_write wr w;
       w \<leftarrow> NT p (decr_counter p w);
       w \<leftarrow> TS r (wr_upd r (\<lambda>x. x \<lparr> wr_parent := None \<rparr>) w);
       Some (wr_del r (ErasePendingWork (wr_id wr) w)) }
     else Some w }"

definition pending_write_data :: "WorkRequest \<Rightarrow> WorkRequest \<Rightarrow> Worker \<Rightarrow> Worker option" where
  "pending_write_data wr parent w =
     (if flg LOCKED wr then Some w
      else case overlap wr parent of (ls, cs, len) \<Rightarrow>
        if flg GFUNC wr then run_gfunc wr cs w else Some (on_mem (memcpy cs ls len) w))"

definition pending_write_state :: "WorkRequest \<Rightarrow> Worker \<Rightarrow> Worker option" where
  "pending_write_state wr w =
     (if flg REPEATED wr then Some w
      else do {
        w \<leftarrow> (if flg CACHED wr then do { cl \<leftarrow> line_of wr w; Some (on_cache (cache_ToDirty (c_addr cl)) w) }
              else if IsLocal w (wr_addr wr) then Some (on_dir (dir_ToUnShared_entry (held_entry wr w)) w)
              else Some w);
        Some (ErasePendingWork (wr_id wr) w) })"

text \<open>Whether the application thread is notified, and the lock it asked for is taken.\<close>

definition pending_write_lock :: "WorkRequest \<Rightarrow> nat \<Rightarrow> WorkRequest \<Rightarrow> Worker \<Rightarrow> (bool \<times> Worker) option" where
  "pending_write_lock wr p parent w =
     (if wr_counter parent \<noteq> 0 then Some (False, w)
      else if wr_op parent \<noteq> WLOCK then Some (True, w)
      else if flg CACHED wr
      then do {
        cl \<leftarrow> line_of wr w;
        let (ret, c) = cache_WLock_line cl (wr_addr parent) (w_cache w);
        if ret \<noteq> 0 then Some (False, AddToServeLocalRequest (wr_addr wr) p w)
        else Some (True, w \<lparr> w_cache := c \<rparr>) }
      else if IsLocal w (wr_addr wr)
      then let q = ToLocal w (wr_addr parent);
               (ret, d) = (case held_entry wr w of
                             Some e \<Rightarrow> dir_WLock_entry e q (w_dir w)
                           | None \<Rightarrow> dir_WLock (w_dir w) q)
           in if ret \<noteq> 0 then Some (False, AddToServeLocalRequest (wr_addr wr) p w)
              else Some (True, w \<lparr> w_dir := d \<rparr>)
      else Some (False, w))"

definition pending_write_done :: "step \<Rightarrow> step \<Rightarrow> nat \<Rightarrow> nat \<Rightarrow> Worker \<Rightarrow> Worker option" where
  "pending_write_done NT TS r p w = do {
     wr \<leftarrow> wrs w r;
     parent \<leftarrow> wrs w p;
     w \<leftarrow> pending_write_data wr parent w;
     w \<leftarrow> pending_write_state wr w;
     let w = decr_counter p w;
     parent \<leftarrow> wrs w p;
     (notify, w) \<leftarrow> pending_write_lock wr p parent w;
     w \<leftarrow> (if notify then NT p w else Some w);
     w \<leftarrow> TS r w;
     Some (wr_del r w) }"

definition ProcessPendingWrite :: "step \<Rightarrow> step \<Rightarrow> 32 word \<Rightarrow> nat \<Rightarrow> Worker \<Rightarrow> Worker option" where
  "ProcessPendingWrite NT TS c r w = do {
     wr \<leftarrow> wrs w r;
     p \<leftarrow> wr_parent wr;
     parent \<leftarrow> wrs w p;
     let w = drop_sharer c wr (count_answer c wr r w);
     wr \<leftarrow> wrs w r;
     if wr_status wr \<noteq> 0 then pending_write_failed NT TS r p w
     else if wr_counter wr = 0 \<or> flg REQUEST_DONE wr then pending_write_done NT TS r p w
     else Some w }"

definition ProcessPendingWriteForward :: "step \<Rightarrow> nat \<Rightarrow> Worker \<Rightarrow> Worker option" where
  "ProcessPendingWriteForward TS r w = do {
     wr \<leftarrow> wrs w r;
     p \<leftarrow> wr_parent wr;
     parent \<leftarrow> wrs w p;
     g \<leftarrow> cli_ToGlobal w (wr_pwid wr) (wr_ptr parent);
     let w = on_dir (dir_ToDirty (ToLocal w (wr_addr wr)) g) w;
     let w = cli_ack (wr_pwid wr) (wr_pid wr) w;
     w \<leftarrow> TS r (ErasePendingWork (wr_id wr) w);
     Some (wr_del p (wr_del r w)) }"

definition ProcessPendingEvictDirty :: "step \<Rightarrow> nat \<Rightarrow> Worker \<Rightarrow> Worker option" where
  "ProcessPendingEvictDirty TS r w = do {
     wr \<leftarrow> wrs w r;
     w \<leftarrow> cache_ToInvalid_addr (wr_addr wr) w;
     w \<leftarrow> TS r (ErasePendingWork (wr_id wr) w);
     Some (wr_del r w) }"

subsection \<open>Invalidation on behalf of another node\<close>

definition inv_forward_failed :: "step \<Rightarrow> nat \<Rightarrow> nat \<Rightarrow> Worker \<Rightarrow> Worker option" where
  "inv_forward_failed TS r p w = do {
     wr \<leftarrow> wrs w r;
     if wr_counter wr = 0
     then do {
       e \<leftarrow> entry_of wr w;
       let w = on_dir (dir_UndoShared_entry e) w;
       pcli \<leftarrow> FindClientWid w (wr_pwid wr);
       w \<leftarrow> SubmitRequest pcli p (wr_upd p (\<lambda>x. x \<lparr> wr_status := wr_status wr, wr_op := WRITE_REPLY \<rparr>) w);
       w \<leftarrow> TS r (wr_upd r (\<lambda>x. x \<lparr> wr_parent := None \<rparr>) (wr_del p w));
       Some (wr_del r (ErasePendingWork (wr_id wr) w)) }
     else Some w }"

text \<open>
  The block goes to the new owner: a write gets the data, and so does a request for
  permission whose copy of the block was invalidated in the meantime.
\<close>

definition inv_forward_done :: "step \<Rightarrow> nat \<Rightarrow> nat \<Rightarrow> Worker \<Rightarrow> Worker option" where
  "inv_forward_done TS r p w = do {
     wr \<leftarrow> wrs w r;
     parent \<leftarrow> wrs w p;
     let laddr = ToLocal w (wr_addr wr);
     let entry = dir_GetEntry (w_dir w) laddr;
     lcli \<leftarrow> FindClientWid w (wr_pwid wr);
     let w = (if wr_op parent = WRITE \<or> dir_GetState entry = DIR_UNSHARED
              then cli_Write lcli (wr_ptr parent) laddr (unat (wr_size parent)) w else w);
     g \<leftarrow> cli_ToGlobal w lcli (wr_ptr parent);
     let w = on_dir (case entry of Some e \<Rightarrow> dir_ToDirty_entry e g | None \<Rightarrow> dir_ToDirty laddr g) w;
     w \<leftarrow> SubmitRequest lcli p (wr_upd p (\<lambda>x. x \<lparr> wr_op := WRITE_REPLY, wr_status := SUCCESS, wr_counter := 0 \<rparr>) w);
     w \<leftarrow> TS r (ErasePendingWork (wr_id wr) w);
     Some (wr_del p (wr_del r w)) }"

definition ProcessPendingInvalidateForward :: "step \<Rightarrow> 32 word \<Rightarrow> nat \<Rightarrow> Worker \<Rightarrow> Worker option" where
  "ProcessPendingInvalidateForward TS c r w = do {
     wr \<leftarrow> wrs w r;
     p \<leftarrow> wr_parent wr;
     parent \<leftarrow> wrs w p;
     let w = on_dir (dir_Remove_entry (entry_of wr w) (scast c)) (decr_counter r w);
     wr \<leftarrow> wrs w r;
     if wr_status wr \<noteq> 0 then inv_forward_failed TS r p w
     else if wr_counter wr = 0 then inv_forward_done TS r p w
     else Some w }"

subsection \<open>Dispatch\<close>

definition ProcessPendingRequest :: "step \<Rightarrow> step \<Rightarrow> 32 word \<Rightarrow> nat \<Rightarrow> Worker \<Rightarrow> Worker option" where
  "ProcessPendingRequest NT TS c r w = do {
     wr \<leftarrow> wrs w r;
     case wr_op wr of
       READ \<Rightarrow> ProcessPendingRead NT TS r w
     | FETCH_AND_SHARED \<Rightarrow> ProcessPendingRead NT TS r w
     | READ_FORWARD \<Rightarrow> ProcessPendingReadForward TS r w
     | FETCH_AND_INVALIDATE \<Rightarrow> ProcessPendingWrite NT TS c r w
     | INVALIDATE \<Rightarrow> ProcessPendingWrite NT TS c r w
     | WRITE \<Rightarrow> ProcessPendingWrite NT TS c r w
     | WRITE_PERMISSION_ONLY \<Rightarrow> ProcessPendingWrite NT TS c r w
     | WRITE_FORWARD \<Rightarrow> ProcessPendingWriteForward TS r w
     | WRITE_BACK \<Rightarrow> ProcessPendingEvictDirty TS r w
     | INVALIDATE_FORWARD \<Rightarrow> ProcessPendingInvalidateForward TS c r w
     | _ \<Rightarrow> None }"

text \<open>\<open>ProcessRequest(cli, work_id)\<close>, the callback of an RDMA write with immediate data\<close>

definition ProcessRequest_id :: "step \<Rightarrow> step \<Rightarrow> 32 word \<Rightarrow> 32 word \<Rightarrow> Worker \<Rightarrow> Worker option" where
  "ProcessRequest_id NT TS c work_id w = do {
     r \<leftarrow> GetPendingWork work_id w;
     ProcessPendingRequest NT TS c r w }"

end
