(* ===== verification/Mem_Stats.thy ===== *)
theory Mem_Stats
  imports GAM_Prelude
begin

text \<open>
  The text form of memory statistics: \<open>sprintf\<close> with \<open>%u:%d:%ld:%ld\<close> as the master uses it, and
  \<open>Split<Size>\<close> (\<open>include/util.h\<close>), with which a worker reads it back. Text is a list of bytes;
  a \<open>Size\<close> is a signed 64-bit number.
\<close>

subsection \<open>Printing\<close>

definition digit :: "nat \<Rightarrow> byte" where "digit d = of_nat (48 + d)"

abbreviation (input) COLON :: byte where "COLON \<equiv> 58"
abbreviation (input) MINUS :: byte where "MINUS \<equiv> 45"

fun show_nat :: "nat \<Rightarrow> byte list" where
  "show_nat n = (if n < 10 then [digit n] else show_nat (n div 10) @ [digit (n mod 10)])"

declare show_nat.simps [simp del]

definition show_int :: "int \<Rightarrow> byte list" where
  "show_int i = (if i < 0 then MINUS # show_nat (nat (- i)) else show_nat (nat i))"

subsection \<open>Reading\<close>

definition is_digit :: "byte \<Rightarrow> bool" where "is_digit b \<longleftrightarrow> 48 \<le> b \<and> b \<le> 57"

definition is_space :: "byte \<Rightarrow> bool" where "is_space b \<longleftrightarrow> b = 32 \<or> 9 \<le> b \<and> b \<le> 13"

definition digits_value :: "byte list \<Rightarrow> nat" where
  "digits_value bs = foldl (\<lambda>a b. 10 * a + (unat b - 48)) 0 bs"

definition get_sign :: "byte list \<Rightarrow> bool \<times> byte list" where
  "get_sign bs =
     (case bs of
        [] \<Rightarrow> (False, [])
      | b # bs' \<Rightarrow> if b = MINUS then (True, bs') else if b = 43 then (False, bs') else (False, bs))"

text \<open>\<open>ss >> item\<close>: \<open>None\<close> when there is no number or it does not fit.\<close>

definition get_number :: "byte list \<Rightarrow> (64 word \<times> byte list) option" where
  "get_number bs =
     (case get_sign (dropWhile is_space bs) of
        (neg, bs) \<Rightarrow>
          (let ds = takeWhile is_digit bs;
               v = (if neg then - int (digits_value ds) else int (digits_value ds))
           in if ds = [] \<or> v < - (2 ^ 63) \<or> v \<ge> 2 ^ 63 then None
              else Some (word_of_int v, dropWhile is_digit bs)))"

definition skip_delim :: "byte \<Rightarrow> byte list \<Rightarrow> byte list" where
  "skip_delim delim bs = (case bs of b # bs' \<Rightarrow> if b = delim then bs' else bs | [] \<Rightarrow> [])"

lemma length_dropWhile_less: "takeWhile P xs \<noteq> [] \<Longrightarrow> length (dropWhile P xs) < length xs"
  by (cases xs) (auto simp: less_Suc_eq_le length_dropWhile_le split: if_splits)

lemma length_get_sign: "length (snd (get_sign bs)) \<le> length bs"
  by (cases bs) (auto simp: get_sign_def)

lemma get_number_shorter:
  assumes "get_number bs = Some (v, rest)"
  shows "length rest < length bs"
proof -
  obtain neg bs' where s: "get_sign (dropWhile is_space bs) = (neg, bs')" by fastforce
  then have "length bs' \<le> length (dropWhile is_space bs)"
    using length_get_sign [of "dropWhile is_space bs"] by simp
  also have "\<dots> \<le> length bs" by (rule length_dropWhile_le)
  finally have "length bs' \<le> length bs" .
  moreover have "takeWhile is_digit bs' \<noteq> []" "rest = dropWhile is_digit bs'"
    using assms s by (auto simp: get_number_def Let_def simp del: takeWhile_eq_Nil_iff split: if_splits)
  ultimately show ?thesis using length_dropWhile_less [of is_digit bs'] by simp
qed

lemma length_skip_delim: "length (skip_delim d bs) \<le> length bs"
  by (auto simp: skip_delim_def split: list.split)

function Split :: "byte \<Rightarrow> byte list \<Rightarrow> 64 word list" where
  "Split delim bs =
     (case get_number bs of None \<Rightarrow> [] | Some (v, rest) \<Rightarrow> v # Split delim (skip_delim delim rest))"
  by pat_completeness auto
termination
proof (relation "measure (\<lambda>(d, bs). length bs)")
  show "((delim, skip_delim delim rest), delim, bs) \<in> measure (\<lambda>(d, bs). length bs)"
    if "get_number bs = Some vr" "(v, rest) = vr" for delim bs vr v rest
    using get_number_shorter [of bs v rest] length_skip_delim [of delim rest] that by auto
qed simp

declare Split.simps [simp del]

subsection \<open>Reading back what was printed\<close>

lemma unat_digit: "d < 10 \<Longrightarrow> unat (digit d) = 48 + d"
  unfolding digit_def unat_of_nat by simp

lemma show_nat_digits: "\<forall>b \<in> set (show_nat n). is_digit b"
proof (induction n rule: show_nat.induct)
  case (1 n)
  have d: "is_digit (digit k)" if "k < 10" for k
    using that by (simp add: is_digit_def word_le_nat_alt unat_digit)
  show ?case
    using "1.IH" d by (subst show_nat.simps) auto
qed

lemma digits_value_snoc: "digits_value (bs @ [b]) = 10 * digits_value bs + (unat b - 48)"
  by (simp add: digits_value_def)

lemma digits_value_show: "digits_value (show_nat n) = n"
proof (induction n rule: show_nat.induct)
  case (1 n)
  then show ?case
    by (subst show_nat.simps) (simp add: digits_value_snoc unat_digit digits_value_def [of "[_]"])
qed

lemma show_nat_not_Nil: "show_nat n \<noteq> []"
  by (subst show_nat.simps) simp

lemma takeWhile_digits:
  assumes "\<forall>b \<in> set ds. is_digit b" "\<not> is_digit (hd (bs @ [0]))"
  shows "takeWhile is_digit (ds @ bs) = ds" "dropWhile is_digit (ds @ bs) = bs"
  using assms by (cases bs; auto simp: takeWhile_append2 dropWhile_append2)+

lemma not_digit [simp]: "\<not> is_digit COLON" "\<not> is_digit 0" "\<not> is_digit MINUS" "\<not> is_digit 43"
  by (simp_all add: is_digit_def)

lemma digit_not_space: "is_digit b \<Longrightarrow> \<not> is_space b \<and> b \<noteq> MINUS \<and> b \<noteq> 43"
  by (auto simp: is_digit_def is_space_def word_le_nat_alt)

lemma get_number_show:
  assumes "- (2 ^ 63) \<le> i" "i < 2 ^ 63" "\<not> is_digit (hd (bs @ [0]))"
  shows "get_number (show_int i @ bs) = Some (word_of_int i, bs)"
proof (cases "i < 0")
  case True
  note t = takeWhile_digits [OF show_nat_digits assms(3), of "nat (- i)"]
  have "dropWhile is_space (MINUS # show_nat (nat (- i)) @ bs) = MINUS # show_nat (nat (- i)) @ bs"
    by (simp add: is_space_def)
  with True assms t show ?thesis
    by (simp add: get_number_def get_sign_def show_int_def Let_def show_nat_not_Nil digits_value_show)
next
  case False
  obtain d ds where d: "show_nat (nat i) = d # ds" using show_nat_not_Nil by (cases "show_nat (nat i)") auto
  then have "is_digit d" using show_nat_digits [of "nat i"] by simp
  note n = digit_not_space [OF this]
  note t = takeWhile_digits [OF show_nat_digits assms(3), of "nat i", unfolded d]
  show ?thesis
    using False assms(1,2) t n digits_value_show [of "nat i"] unfolding get_number_def get_sign_def show_int_def d
    by (simp add: Let_def d)
qed

text \<open>Numbers, each followed by the delimiter, as the master prints them for a whole list.\<close>

definition show_list :: "int list \<Rightarrow> byte list" where
  "show_list is = concat (map (\<lambda>i. show_int i @ [COLON]) is)"

lemma Split_show_list:
  assumes "\<forall>i \<in> set is. - (2 ^ 63) \<le> i \<and> i < 2 ^ 63"
  shows "Split COLON (show_list is) = map word_of_int is"
  using assms
proof (induction "is")
  case Nil
  show ?case by (simp add: show_list_def Split.simps [of _ "[]"] get_number_def get_sign_def)
next
  case (Cons i "is")
  have "get_number (show_list (i # is)) = Some (word_of_int i, COLON # show_list is)"
    using get_number_show [of i "COLON # show_list is"] Cons.prems by (simp add: show_list_def)
  with Cons show ?case by (simp add: Split.simps [of _ "show_list (i # is)"] skip_delim_def)
qed

end
