(* ===== verification/Remote_Request.thy ===== *)
theory Remote_Request
  imports Pending_Request Mem_Stats
begin

text \<open>
  Requests and replies that arrive from other nodes (\<open>src/remote_request.cc\<close>,
  \<open>src/remote_request_cache.cc\<close>). \<open>c\<close> is the worker the message comes from and \<open>r\<close> the request it
  was read into, which the handler owns: it deletes it, queues it or keeps it as the parent
  of a request of its own. \<open>NT\<close> is \<open>Notify\<close> and \<open>TS\<close> is \<open>ProcessToServeRequest\<close>.
\<close>

type_synonym rstep = "32 word \<Rightarrow> nat \<Rightarrow> Worker \<Rightarrow> Worker option"

subsection \<open>Reads at the home node\<close>

text \<open>The request the home node sends on to the owner of a block.\<close>

definition forward_request :: "WorkRequest \<Rightarrow> Work \<Rightarrow> nat \<Rightarrow> 32 word \<Rightarrow> WorkRequest" where
  "forward_request wr op r c =
     (copy_WorkRequest wr) \<lparr> wr_counter := 0, wr_op := op, wr_parent := Some r, wr_pid := wr_id wr, wr_pwid := c \<rparr>"

definition refuse_lock :: "Work \<Rightarrow> rstep" where
  "refuse_lock reply c r w = do {
     w \<leftarrow> SubmitRequest c r (wr_upd r (\<lambda>x. x \<lparr> wr_status := LOCK_FAILED, wr_op := reply \<rparr>) w);
     Some (wr_del r w) }"

definition remote_read_grant :: rstep where
  "remote_read_grant c r w = do {
     wr \<leftarrow> wrs w r;
     let laddr = ToLocal w (wr_addr wr);
     let w = cli_WriteWithImm c (wr_ptr wr) laddr (unat (wr_size wr)) (wr_id wr) None w;
     g \<leftarrow> cli_ToGlobal w c (wr_ptr wr);
     let w = on_dir (case dir_GetEntry (w_dir w) laddr of
                       Some e \<Rightarrow> dir_ToShared_entry e g | None \<Rightarrow> dir_ToShared laddr g) w;
     Some (wr_del r w) }"

definition remote_read_forward :: rstep where
  "remote_read_forward c r w = do {
     wr \<leftarrow> wrs w r;
     let entry = entry_of wr w;
     let (l, w) = wr_new (forward_request wr READ_FORWARD r c) w;
     rc \<leftarrow> front_sharer entry;
     cli \<leftarrow> GetClient w rc;
     e \<leftarrow> entry;
     SubmitPending cli l (on_dir (dir_ToToShared_entry e) w) }"

definition ProcessRemoteRead :: rstep where
  "ProcessRemoteRead c r w = do {
     wr \<leftarrow> wrs w r;
     let entry = entry_of wr w;
     if dir_InTransition_entry entry then Some (AddToServeRemoteRequest (wr_addr wr) c r w)
     else if dir_GetState entry \<noteq> DIR_DIRTY
     then if dir_IsBlockWLocked entry
          then if flg TRY_LOCK wr then refuse_lock READ_REPLY c r w
               else Some (AddToServeRemoteRequest (wr_addr wr) c r w)
          else remote_read_grant c r w
     else remote_read_forward c r w }"

subsection \<open>Reads at the owner\<close>

text \<open>
  A reply about a request that was forwarded goes to the home node and, under the id the
  requester knows it by, to the requester.
\<close>

definition reply_both :: "bool \<Rightarrow> rstep" where
  "reply_both forwarded c r w = do {
     wr \<leftarrow> wrs w r;
     w \<leftarrow> SubmitRequest c r w;
     if forwarded
     then do {
       cli \<leftarrow> FindClientWid w (wr_pwid wr);
       SubmitRequest cli r (wr_upd r (\<lambda>x. x \<lparr> wr_id := wr_pid wr \<rparr>) w) }
     else Some w }"

definition fail_both :: "bool \<Rightarrow> Work \<Rightarrow> 32 word \<Rightarrow> rstep" where
  "fail_both forwarded reply st c r w = do {
     w \<leftarrow> reply_both forwarded c r (wr_upd r (\<lambda>x. x \<lparr> wr_op := reply, wr_status := st \<rparr>) w);
     Some (wr_del r w) }"

definition send_line :: "CacheLine \<Rightarrow> rstep" where
  "send_line cl c r w = do {
     wr \<leftarrow> wrs w r;
     if wr_op wr = FETCH_AND_SHARED
     then Some (cli_WriteWithImm c (wr_ptr wr) (c_line cl) (unat (wr_size wr)) (wr_id wr) None w)
     else do {
       cli \<leftarrow> FindClientWid w (wr_pwid wr);
       let w = cli_WriteWithImm cli (wr_ptr wr) (c_line cl) (unat (wr_size wr)) (wr_pid wr) None w;
       dest \<leftarrow> cli_ToLocal w c (TOBLOCK (wr_addr wr));
       Some (cli_WriteWithImm c dest (c_line cl) (unat BLOCK_SIZE) (wr_id wr) None w) } }"

definition ProcessRemoteReadCache :: rstep where
  "ProcessRemoteReadCache c r w = do {
     wr \<leftarrow> wrs w r;
     let forwarded = (wr_op wr \<noteq> FETCH_AND_SHARED);
     case cache_GetCLine (w_cache w) (TOBLOCK (wr_addr wr)) of
       None \<Rightarrow> fail_both forwarded READ_REPLY READ_ERROR c r w
     | Some cl \<Rightarrow>
         if c_state cl = CACHE_TO_DIRTY then Some (AddToServeRemoteRequest (wr_addr wr) c r w)
         else if cache_IsBlockWLocked cl
         then if flg TRY_LOCK wr then fail_both forwarded READ_REPLY LOCK_FAILED c r w
              else Some (AddToServeRemoteRequest (wr_addr wr) c r w)
         else do {
           w \<leftarrow> send_line cl c r w;
           let w = (if cache_InTransition (c_state cl) then w else on_cache (cache_ToShared (c_addr cl)) w);
           Some (wr_del r w) } }"

text \<open>A read was refused: undo the transition it started.\<close>

definition ProcessRemoteReadReply :: "step \<Rightarrow> step \<Rightarrow> rstep" where
  "ProcessRemoteReadReply NT TS c r w = do {
     wr \<leftarrow> wrs w r;
     pr \<leftarrow> GetPendingWork (wr_id wr) w;
     pwr \<leftarrow> wrs w pr;
     w \<leftarrow> (if wr_op pwr = READ \<or> wr_op pwr = FETCH_AND_SHARED
           then do {
             p \<leftarrow> wr_parent pwr;
             parent \<leftarrow> wrs w p;
             w \<leftarrow> (if wr_op pwr = READ then cache_ToInvalid_addr (wr_addr pwr) w
                   else Some (on_dir (dir_UndoDirty (wr_ptr pwr)) w));
             NT p (ErasePendingWork (wr_id wr) (wr_upd p (\<lambda>x. x \<lparr> wr_status := wr_status wr \<rparr>) w)) }
           else if wr_op pwr = READ_FORWARD
           then let w = ErasePendingWork (wr_id wr) (on_dir (dir_UndoDirty (ToLocal w (wr_addr pwr))) w)
                in Some (case wr_parent pwr of None \<Rightarrow> w | Some p \<Rightarrow> wr_del p w)
           else None);
     w \<leftarrow> TS pr w;
     Some (wr_del r (wr_del pr w)) }"

subsection \<open>Writes at the home node\<close>

definition remote_write_grant :: rstep where
  "remote_write_grant c r w = do {
     wr \<leftarrow> wrs w r;
     let laddr = ToLocal w (wr_addr wr);
     w \<leftarrow> SubmitRequest c r (wr_upd r (\<lambda>x. x \<lparr> wr_op := WRITE_REPLY, wr_status := SUCCESS, wr_counter := 0 \<rparr>) w);
     g \<leftarrow> cli_ToGlobal w c (wr_ptr wr);
     let w = on_dir (case dir_GetEntry (w_dir w) laddr of
                       Some e \<Rightarrow> dir_ToDirty_entry e g | None \<Rightarrow> dir_ToDirty laddr g) w;
     Some (wr_del r w) }"

text \<open>The loop over the sharers, all of which but the requester are told to invalidate.\<close>

fun forward_invalidate :: "32 word \<Rightarrow> nat \<Rightarrow> bool \<Rightarrow> gaddr list \<Rightarrow> Worker \<Rightarrow> Worker option" where
  "forward_invalidate c l first [] w = Some w"
| "forward_invalidate c l first (a # as) w = do {
     cli \<leftarrow> GetClient w a;
     if cli = c then forward_invalidate c l first as (decr_counter l w)
     else do {
       lwr \<leftarrow> wrs w l;
       w \<leftarrow> SubmitRequest cli l (if first then AddToPending (wr_id lwr) l w else w);
       forward_invalidate c l False as w } }"

definition remote_write_shared :: "DirEntry \<Rightarrow> rstep" where
  "remote_write_shared e c r w = do {
     wr \<leftarrow> wrs w r;
     let (n, w) = GetWorkPsn w;
     let lwr = (copy_WorkRequest wr)
               \<lparr> wr_op := INVALIDATE_FORWARD, wr_parent := Some r, wr_id := n, wr_pwid := c,
                 wr_counter := int (length (d_shared e)) \<rparr>;
     let (l, w) = wr_new lwr w;
     w \<leftarrow> forward_invalidate c l True (d_shared e) w;
     lwr \<leftarrow> wrs w l;
     if wr_counter lwr \<noteq> 0 then Some (on_dir (dir_ToToDirty_entry e) w)
     else remote_write_grant c r (wr_del l w) }"

definition remote_write_unshared :: rstep where
  "remote_write_unshared c r w = do {
     wr \<leftarrow> wrs w r;
     remote_write_grant c r (cli_Write c (wr_ptr wr) (ToLocal w (wr_addr wr)) (unat (wr_size wr)) w) }"

definition remote_write_forward :: rstep where
  "remote_write_forward c r w = do {
     wr \<leftarrow> wrs w r;
     let entry = entry_of wr w;
     let op = (if wr_op wr = WRITE \<or> wr_op wr = WLOCK \<or> wr_op wr = WRITE_PERMISSION_ONLY then WRITE_FORWARD else wr_op wr);
     let (l, w) = wr_new (forward_request wr op r c) w;
     rc \<leftarrow> front_sharer entry;
     cli \<leftarrow> GetClient w rc;
     e \<leftarrow> entry;
     SubmitPending cli l (on_dir (dir_ToToDirty_entry e) w) }"

definition ProcessRemoteWrite :: rstep where
  "ProcessRemoteWrite c r w = do {
     wr \<leftarrow> wrs w r;
     let entry = entry_of wr w;
     let state = dir_GetState entry;
     if dir_InTransition state then Some (AddToServeRemoteRequest (wr_addr wr) c r w)
     else if state \<noteq> DIR_DIRTY
     then if dir_IsBlockLocked entry
          then if flg TRY_LOCK wr then refuse_lock WRITE_REPLY c r (wr_upd r (\<lambda>x. x \<lparr> wr_counter := 0 \<rparr>) w)
               else Some (AddToServeRemoteRequest (wr_addr wr) c r w)
          else if state = DIR_SHARED
          then do { e \<leftarrow> entry; remote_write_shared e c r w }
          else remote_write_unshared c r w
     else remote_write_forward c r w }"

subsection \<open>Writes at a sharer or owner\<close>

definition count_invalid :: "Worker \<Rightarrow> Worker" where
  "count_invalid = upd_stats (\<lambda>s. s \<lparr> num_invalid := num_invalid s + 1 \<rparr>)"

text \<open>The line is handed over: it stays readable until the transfer has completed.\<close>

definition pend_invalidate :: "gaddr \<Rightarrow> nat \<Rightarrow> Worker \<Rightarrow> 32 word \<times> Worker" where
  "pend_invalidate a r w =
     (let (n, w) = GetWorkPsn w;
          w = wr_upd r (\<lambda>x. x \<lparr> wr_id := n, wr_op := PENDING_INVALIDATE \<rparr>) w
      in (n, on_cache (cache_ToToInvalid a) (AddToPending n r w)))"

definition fetch_and_invalidate :: "bool \<Rightarrow> CacheLine \<Rightarrow> rstep" where
  "fetch_and_invalidate deadlock cl c r w = do {
     wr \<leftarrow> wrs w r;
     if deadlock
     then Some (wr_del r (cli_WriteWithImm c (wr_ptr wr) (c_line cl) (unat (wr_size wr)) (wr_id wr) None w))
     else let (n, w) = pend_invalidate (c_addr cl) r (wr_upd r (\<lambda>x. x \<lparr> wr_status := 0 \<rparr>) w)
          in Some (cli_WriteWithImm c (wr_ptr wr) (c_line cl) (unat (wr_size wr)) (wr_id wr) (Some n) w) }"

definition invalidate_line :: "bool \<Rightarrow> CacheLine \<Rightarrow> rstep" where
  "invalidate_line deadlock cl c r w = do {
     wr \<leftarrow> wrs w r;
     let w = cli_ack c (wr_id wr) (count_invalid w);
     w \<leftarrow> (if deadlock then Some w else cache_ToInvalid (c_addr cl) w);
     Some (wr_del r w) }"

definition transfer_line :: "bool \<Rightarrow> CacheLine \<Rightarrow> rstep" where
  "transfer_line deadlock cl c r w = do {
     wr \<leftarrow> wrs w r;
     cli \<leftarrow> FindClientWid w (wr_pwid wr);
     if deadlock
     then let w = cli_WriteWithImm cli (wr_ptr wr) (c_line cl) (unat (wr_size wr)) (wr_pid wr) None w
          in Some (wr_del r (cli_ack c (wr_id wr) w))
     else let (n, w) = pend_invalidate (c_addr cl) r w;
              w = cli_WriteWithImm cli (wr_ptr wr) (c_line cl) (unat (wr_size wr)) (wr_pid wr) (Some n) w
          in Some (cli_ack c (wr_id wr) w) }"

text \<open>
  Whether a line in transition can answer as if it were not (\<open>Some True\<close>, the deadlock cases 1
  and 2 of the source), must wait (\<open>None\<close>), or is not in transition (\<open>Some False\<close>).
\<close>

definition write_deadlock :: "Work \<Rightarrow> CacheState \<Rightarrow> bool option" where
  "write_deadlock op s =
     (if \<not> cache_InTransition s then Some False
      else if (op = INVALIDATE \<or> op = INVALIDATE_FORWARD) \<and> s = CACHE_TO_DIRTY then Some True
      else if s = CACHE_TO_INVALID then Some True
      else None)"

definition write_line :: "bool \<Rightarrow> CacheLine \<Rightarrow> rstep" where
  "write_line deadlock cl c r w = do {
     wr \<leftarrow> wrs w r;
     if wr_op wr = FETCH_AND_INVALIDATE then fetch_and_invalidate deadlock cl c r w
     else if wr_op wr = INVALIDATE \<or> wr_op wr = INVALIDATE_FORWARD then invalidate_line deadlock cl c r w
     else transfer_line deadlock cl c r w }"

definition ProcessRemoteWriteCache :: rstep where
  "ProcessRemoteWriteCache c r w = do {
     wr \<leftarrow> wrs w r;
     let inv = (wr_op wr = INVALIDATE \<or> wr_op wr = INVALIDATE_FORWARD);
     let forwarded = (\<not> inv \<and> wr_op wr \<noteq> FETCH_AND_INVALIDATE);
     case cache_GetCLine (w_cache w) (wr_addr wr) of
       None \<Rightarrow>
         if inv then Some (wr_del r (cli_ack c (wr_id wr) w))
         else fail_both forwarded WRITE_REPLY WRITE_ERROR c r w
     | Some cl \<Rightarrow>
         (case write_deadlock (wr_op wr) (c_state cl) of
            None \<Rightarrow> Some (AddToServeRemoteRequest (wr_addr wr) c r w)
          | Some deadlock \<Rightarrow>
              if cache_IsBlockLocked cl \<and> flg TRY_LOCK wr
              then fail_both forwarded WRITE_REPLY LOCK_FAILED c r w
              else if cache_IsBlockLocked cl \<and> \<not> deadlock
              then Some (AddToServeRemoteRequest (wr_addr wr) c r w)
              else write_line deadlock cl c r w) }"

subsection \<open>Replies to writes\<close>

definition undo_write_reply :: "WorkRequest \<Rightarrow> Worker \<Rightarrow> Worker option" where
  "undo_write_reply pwr w =
     (if wr_op pwr = WRITE then cache_ToInvalid_addr (wr_addr pwr) w
      else if wr_op pwr = WRITE_PERMISSION_ONLY then Some (on_cache (cache_UndoShared (TOBLOCK (wr_addr pwr))) w)
      else if wr_op pwr = FETCH_AND_INVALIDATE then Some (on_dir (dir_UndoDirty (wr_ptr pwr)) w)
      else Some (on_dir (dir_UndoShared (wr_ptr pwr)) w))"

text \<open>The request was made by this node: its application thread learns about the failure.\<close>

definition write_refused :: "step \<Rightarrow> step \<Rightarrow> 32 word \<Rightarrow> nat \<Rightarrow> nat \<Rightarrow> nat \<Rightarrow> Worker \<Rightarrow> Worker option" where
  "write_refused NT TS c r pr p w = do {
     wr \<leftarrow> wrs w r;
     pwr \<leftarrow> wrs w pr;
     let n = (if WID (wr_addr pwr) = scast c then 0 else wr_counter pwr - 1);
     let w = wr_upd pr (\<lambda>x. x \<lparr> wr_counter := n, wr_status := wr_status wr \<rparr>) w;
     let w = wr_upd p (\<lambda>x. x \<lparr> wr_status := wr_status wr \<rparr>) w;
     if n = 0
     then do {
       w \<leftarrow> undo_write_reply pwr w;
       w \<leftarrow> NT p (decr_counter p w);
       w \<leftarrow> TS pr (wr_upd pr (\<lambda>x. x \<lparr> wr_parent := None \<rparr>) w);
       Some (wr_del pr (ErasePendingWork (wr_id wr) w)) }
     else Some w }"

text \<open>The request was forwarded by this node: the old owner stays the owner.\<close>

definition write_forward_refused :: "step \<Rightarrow> nat \<Rightarrow> nat \<Rightarrow> nat \<Rightarrow> Worker \<Rightarrow> Worker option" where
  "write_forward_refused TS r pr p w = do {
     wr \<leftarrow> wrs w r;
     pwr \<leftarrow> wrs w pr;
     e \<leftarrow> entry_of pwr w;
     let w = on_dir (dir_UndoDirty_entry e) w;
     lcli \<leftarrow> FindClientWid w (wr_pwid pwr);
     let w = cli_ack lcli (wr_pid pwr) w;
     w \<leftarrow> TS pr (wr_upd pr (\<lambda>x. x \<lparr> wr_parent := None \<rparr>) (wr_del p w));
     Some (wr_del pr (ErasePendingWork (wr_id wr) w)) }"

definition invalidate_refused :: "step \<Rightarrow> nat \<Rightarrow> nat \<Rightarrow> nat \<Rightarrow> Worker \<Rightarrow> Worker option" where
  "invalidate_refused TS r pr p w = do {
     wr \<leftarrow> wrs w r;
     let w = wr_upd pr (\<lambda>x. x \<lparr> wr_counter := wr_counter x - 1, wr_status := wr_status wr \<rparr>) w;
     pwr \<leftarrow> wrs w pr;
     if wr_counter pwr = 0
     then do {
       let w = on_dir (dir_UndoShared (ToLocal w (wr_addr pwr))) w;
       pcli \<leftarrow> FindClientWid w (wr_pwid pwr);
       w \<leftarrow> SubmitRequest pcli p
              (wr_upd p (\<lambda>x. x \<lparr> wr_status := wr_status wr, wr_op := WRITE_REPLY, wr_counter := 0 \<rparr>) w);
       w \<leftarrow> TS pr (wr_upd pr (\<lambda>x. x \<lparr> wr_parent := None \<rparr>) (wr_del p w));
       Some (wr_del pr (ErasePendingWork (wr_id wr) w)) }
     else Some w }"

definition write_failed :: "step \<Rightarrow> step \<Rightarrow> 32 word \<Rightarrow> nat \<Rightarrow> nat \<Rightarrow> Worker \<Rightarrow> Worker option" where
  "write_failed NT TS c r pr w = do {
     pwr \<leftarrow> wrs w pr;
     p \<leftarrow> wr_parent pwr;
     parent \<leftarrow> wrs w p;
     case wr_op pwr of
       WRITE \<Rightarrow> write_refused NT TS c r pr p w
     | WRITE_PERMISSION_ONLY \<Rightarrow> write_refused NT TS c r pr p w
     | FETCH_AND_INVALIDATE \<Rightarrow> write_refused NT TS c r pr p w
     | INVALIDATE \<Rightarrow> write_refused NT TS c r pr p w
     | WRITE_FORWARD \<Rightarrow> write_forward_refused TS r pr p w
     | WRITE_PERMISSION_ONLY_FORWARD \<Rightarrow> write_forward_refused TS r pr p w
     | INVALIDATE_FORWARD \<Rightarrow> invalidate_refused TS r pr p w
     | _ \<Rightarrow> None }"

definition ProcessRemoteWriteReply :: "step \<Rightarrow> step \<Rightarrow> rstep" where
  "ProcessRemoteWriteReply NT TS c r w = do {
     wr \<leftarrow> wrs w r;
     pr \<leftarrow> GetPendingWork (wr_id wr) w;
     pwr \<leftarrow> wrs w pr;
     w \<leftarrow> (if wr_status wr \<noteq> 0 then write_failed NT TS c r pr w
           else let w = wr_upd pr (\<lambda>x. x \<lparr> wr_counter := wr_counter x + wr_counter wr \<rparr>) w
                in if wr_counter pwr + wr_counter wr = 0
                   then ProcessPendingRequest NT TS c pr (wr_upd pr (set_flg REQUEST_DONE) w)
                   else Some w);
     Some (wr_del r w) }"

subsection \<open>Allocation for other nodes and statistics\<close>

text \<open>The bytes of a C string.\<close>

partial_function (option) cstring :: "mem \<Rightarrow> ptr \<Rightarrow> byte list option" where
  "cstring m p = (if m p = 0 then Some [] else Option.bind (cstring m (p + 1)) (\<lambda>bs. Some (m p # bs)))"

text \<open>
  One worker's numbers: \<open>widCliMapWorker[wid] = cli\<close> comes before the test whether there is such
  a client, and so does \<open>cli->lock()\<close>.
\<close>

definition set_mem_stat :: "64 word \<Rightarrow> 64 word \<Rightarrow> 64 word \<Rightarrow> Worker \<Rightarrow> Worker option" where
  "set_mem_stat n mtotal mfree w = do {
     let wid = ucast n;
     cli \<leftarrow> FindClientWid w wid;
     let w = (if wid \<in> set (widCliMapWorker w) then w
              else w \<lparr> widCliMapWorker := w_iter w wid (widCliMapWorker w) \<rparr>);
     Some (SetMemStat cli mtotal mfree w) }"

fun set_mem_stats :: "nat \<Rightarrow> 64 word list \<Rightarrow> Worker \<Rightarrow> Worker option" where
  "set_mem_stats 0 stats w = Some w"
| "set_mem_stats (Suc n) (qp # wid # mtotal # mfree # stats) w = do {
     w \<leftarrow> set_mem_stat wid mtotal mfree w;
     set_mem_stats n stats w }"
| "set_mem_stats (Suc n) _ w = None"

definition ProcessRemoteMemStat :: rstep where
  "ProcessRemoteMemStat c r w = do {
     wr \<leftarrow> wrs w r;
     text \<leftarrow> cstring (w_mem w) (wr_ptr wr);
     w \<leftarrow> set_mem_stats (nat (sint (wr_size wr))) (Split 58 text) w;
     Some (wr_del r w) }"

definition ProcessRemoteMalloc :: rstep where
  "ProcessRemoteMalloc c r w = do {
     wr \<leftarrow> wrs w r;
     (p, s) \<leftarrow> (if flg ALIGNED wr then sb_aligned_malloc (unat (wr_size wr)) (unat BLOCK_SIZE) (w_sb w)
               else sb_malloc (unat (wr_size wr)) (w_sb w));
     let w = w \<lparr> w_sb := s \<rparr>;
     w \<leftarrow> (if p = 0
           then if wr_size wr \<noteq> 0 then None
                else Some (wr_upd r (\<lambda>x. x \<lparr> wr_status := ALLOC_ERROR \<rparr>) w)
           else do {
             let w = on_mem (memset0 p (unat (wr_size wr))) w;
             let w = wr_upd r (\<lambda>x. x \<lparr> wr_addr := ToGlobal w p, wr_status := SUCCESS \<rparr>) w;
             let w = w \<lparr> ghost_size := ghost_size w + wr_size wr \<rparr>;
             if sint (ghost_size w) > sint (cf_ghost_th (w_conf w))
             then SyncMaster UPDATE_MEM_STATS None w else Some w });
     w \<leftarrow> SubmitRequest c r (wr_upd r (\<lambda>x. x \<lparr> wr_op := MALLOC_REPLY \<rparr>) w);
     Some (wr_del r w) }"

definition ProcessRemoteMallocReply :: "step \<Rightarrow> rstep" where
  "ProcessRemoteMallocReply NT c r w = do {
     wr \<leftarrow> wrs w r;
     pr \<leftarrow> GetPendingWork (wr_id wr) w;
     let w = wr_upd pr (\<lambda>x. x \<lparr> wr_addr := wr_addr wr, wr_status := wr_status wr \<rparr>) w;
     w \<leftarrow> NT pr (ErasePendingWork (wr_id wr) w);
     Some (wr_del r w) }"

definition ProcessRemoteGetReply :: "step \<Rightarrow> rstep" where
  "ProcessRemoteGetReply NT c r w = do {
     wr \<leftarrow> wrs w r;
     pr \<leftarrow> GetPendingWork (wr_id wr) w;
     pwr \<leftarrow> wrs w pr;
     let w = wr_upd pr (\<lambda>x. x \<lparr> wr_status := wr_status wr, wr_size := wr_size wr \<rparr>) w;
     let w = (if wr_status wr \<noteq> 0 then w
              else on_mem (memcpy (wr_ptr pwr) (wr_ptr wr) (unat (wr_size wr))) w);
     w \<leftarrow> NT pr w;
     Some (wr_del r (ErasePendingWork (wr_id wr) w)) }"

subsection \<open>Eviction notices and dispatch\<close>

definition clear_sharer :: "32 word \<Rightarrow> WorkRequest \<Rightarrow> Worker \<Rightarrow> Worker option" where
  "clear_sharer c wr w = do {
     g \<leftarrow> cli_ToGlobal w c (wr_ptr wr);
     Some (on_dir (dir_Clear_entry (entry_of wr w) g) w) }"

definition ProcessRemoteEvictShared :: rstep where
  "ProcessRemoteEvictShared c r w = do {
     wr \<leftarrow> wrs w r;
     if dir_InTransition_entry (entry_of wr w) then Some (AddToServeRemoteRequest (wr_addr wr) c r w)
     else do { w \<leftarrow> clear_sharer c wr w; Some (wr_del r w) } }"

definition ProcessRemoteEvictDirty :: rstep where
  "ProcessRemoteEvictDirty c r w = do {
     wr \<leftarrow> wrs w r;
     if dir_InTransition_entry (entry_of wr w) then Some (AddToServeRemoteRequest (wr_addr wr) c r w)
     else do { w \<leftarrow> clear_sharer c wr w; Some (wr_del r (cli_ack c (wr_id wr) w)) } }"

definition ProcessRequest :: "step \<Rightarrow> step \<Rightarrow> rstep" where
  "ProcessRequest NT TS c r w = do {
     wr \<leftarrow> wrs w r;
     case wr_op wr of
       FETCH_MEM_STATS_REPLY \<Rightarrow> ProcessRemoteMemStat c r w
     | BROADCAST_MEM_STATS \<Rightarrow> ProcessRemoteMemStat c r w
     | MALLOC \<Rightarrow> ProcessRemoteMalloc c r w
     | MALLOC_REPLY \<Rightarrow> ProcessRemoteMallocReply NT c r w
     | FREE \<Rightarrow> do { w \<leftarrow> free_here (ToLocal w (wr_addr wr)) w; Some (wr_del r w) }
     | GET_REPLY \<Rightarrow> ProcessRemoteGetReply NT c r w
     | READ \<Rightarrow> ProcessRemoteRead c r w
     | READ_FORWARD \<Rightarrow> ProcessRemoteReadCache c r w
     | FETCH_AND_SHARED \<Rightarrow> ProcessRemoteReadCache c r w
     | READ_REPLY \<Rightarrow> ProcessRemoteReadReply NT TS c r w
     | WRITE \<Rightarrow> ProcessRemoteWrite c r w
     | WRITE_PERMISSION_ONLY \<Rightarrow> ProcessRemoteWrite c r w
     | INVALIDATE \<Rightarrow> ProcessRemoteWriteCache c r w
     | FETCH_AND_INVALIDATE \<Rightarrow> ProcessRemoteWriteCache c r w
     | WRITE_FORWARD \<Rightarrow> ProcessRemoteWriteCache c r w
     | INVALIDATE_FORWARD \<Rightarrow> ProcessRemoteWriteCache c r w
     | WRITE_PERMISSION_ONLY_FORWARD \<Rightarrow> ProcessRemoteWriteCache c r w
     | WRITE_REPLY \<Rightarrow> ProcessRemoteWriteReply NT TS c r w
     | ACTIVE_INVALIDATE \<Rightarrow> ProcessRemoteEvictShared c r w
     | WRITE_BACK \<Rightarrow> ProcessRemoteEvictDirty c r w
     | _ \<Rightarrow> None }"

end
