(* ===== verification/Dispatch.thy ===== *)
theory Dispatch
  imports Remote_Request
begin

text \<open>
  How a worker's handlers call one another (\<open>src/worker.cc\<close>, \<open>src/server.cc\<close>): a finished request
  releases the requests that wait for its block (\<open>ProcessToServeRequest\<close>) or behind its fence
  (\<open>Notify\<close>, \<open>ProcessFenced\<close>), which are handlers again. The nesting is cut off at a depth
  \<open>n\<close>; a computation that needs a deeper nesting is \<open>None\<close> at \<open>n\<close> and defined at a larger depth.
  The events of a worker are the application requests in its queue and the RDMA completions.
\<close>

subsection \<open>Requests that waited for a block\<close>

fun serve_local :: "step \<Rightarrow> nat list \<Rightarrow> Worker \<Rightarrow> Worker option" where
  "serve_local PLR [] w = Some w"
| "serve_local PLR (r # rs) w = do {
     w \<leftarrow> PLR r (wr_upd r (set_flg TO_SERVE) w);
     serve_local PLR rs w }"

fun serve_remote :: "rstep \<Rightarrow> (32 word \<times> nat) list \<Rightarrow> Worker \<Rightarrow> Worker option" where
  "serve_remote PR [] w = Some w"
| "serve_remote PR ((c, r) # rs) w = do {
     w \<leftarrow> PR c r (wr_upd r (set_flg TO_SERVE) w);
     serve_remote PR rs w }"

definition ProcessToServeRequest :: "step \<Rightarrow> rstep \<Rightarrow> step" where
  "ProcessToServeRequest PLR PR r w = do {
     wr \<leftarrow> wrs w r;
     let block = TOBLOCK (wr_addr wr);
     w \<leftarrow> (case to_serve_local_requests w block of
             None \<Rightarrow> Some w
           | Some q \<Rightarrow> serve_local PLR q (w \<lparr> to_serve_local_requests := (to_serve_local_requests w)(block := None) \<rparr>));
     (case to_serve_requests w block of
        None \<Rightarrow> Some w
      | Some q \<Rightarrow> serve_remote PR q (w \<lparr> to_serve_requests := (to_serve_requests w)(block := None) \<rparr>)) }"

subsection \<open>Tying the knot\<close>

definition local_step :: "step \<Rightarrow> step \<Rightarrow> step" where
  "local_step NT TS r w = map_option snd (ProcessLocalRequest NT TS r w)"

primrec handlers :: "nat \<Rightarrow> step \<times> step" where
  "handlers 0 = (\<lambda>_ _. None, \<lambda>_ _. None)"
| "handlers (Suc n) =
     (case handlers n of (NT, TS) \<Rightarrow>
        (Notify n (local_step NT TS), ProcessToServeRequest (local_step NT TS) (ProcessRequest NT TS)))"

definition notify :: "nat \<Rightarrow> step" where "notify n = fst (handlers n)"

definition to_serve :: "nat \<Rightarrow> step" where "to_serve n = snd (handlers n)"

subsection \<open>Events\<close>

definition CompletionCheck :: "nat \<Rightarrow> 32 word \<Rightarrow> Worker \<Rightarrow> Worker option" where
  "CompletionCheck n i w =
     (case pending_works w i of
        None \<Rightarrow> Some w
      | Some r \<Rightarrow> do {
          let w = ErasePendingWork i w;
          wr \<leftarrow> wrs w r;
          if wr_op wr = PENDING_INVALIDATE
          then do {
            w \<leftarrow> cache_ToInvalid_addr (wr_addr wr) w;
            w \<leftarrow> to_serve n r w;
            Some (wr_del r w) }
          else Some w })"

fun LocalRequestChecker :: "nat \<Rightarrow> nat list \<Rightarrow> Worker \<Rightarrow> Worker option" where
  "LocalRequestChecker n [] w = Some w"
| "LocalRequestChecker n (r # rs) w = do {
     w \<leftarrow> local_step (notify n) (to_serve n) r w;
     LocalRequestChecker n rs w }"

text \<open>
  Several requests may arrive in one receive buffer, each followed by a zero byte. The loop
  over a buffer of \<open>k\<close> bytes takes at most \<open>k\<close> rounds, since every round moves on by one byte at
  least.
\<close>

primrec recv_loop :: "nat \<Rightarrow> rstep \<Rightarrow> 32 word \<Rightarrow> ptr \<Rightarrow> byte list \<Rightarrow> Worker \<Rightarrow> Worker option" where
  "recv_loop 0 PR c buf bs w = Some w"
| "recv_loop (Suc k) PR c buf bs w =
     (if bs = [] then Some w
      else do {
        (wr, len) \<leftarrow> Deser buf bs new_WorkRequest;
        let (r, w) = wr_new wr w;
        w \<leftarrow> PR c r w;
        recv_loop k PR c (buf + of_nat (Suc len)) (drop (Suc len) bs) w })"

datatype completion =
    SendDone "32 word"
  | WriteDone "32 word"
  | Received ptr "byte list"
  | ReceivedImm "32 word"
  | UnknownOpcode

definition store_bytes :: "ptr \<Rightarrow> byte list \<Rightarrow> mem \<Rightarrow> mem" where
  "store_bytes p bs m = (\<lambda>a. if unat (a - p) < length bs then bs ! unat (a - p) else m a)"

text \<open>\<open>oc\<close> is the client of the queue pair, if it is known; \<open>ok\<close> is \<open>wc.status == IBV_WC_SUCCESS\<close>.\<close>

definition ProcessRdmaRequest :: "nat \<Rightarrow> 32 word option \<Rightarrow> bool \<Rightarrow> completion \<Rightarrow> Worker \<Rightarrow> Worker option" where
  "ProcessRdmaRequest n oc ok ev w =
     (case oc of
        None \<Rightarrow> Some w
      | Some c \<Rightarrow>
          if \<not> ok then Some w
          else (case ev of
                  SendDone i \<Rightarrow> CompletionCheck n i w
                | WriteDone i \<Rightarrow> CompletionCheck n i w
                | Received buf bs \<Rightarrow>
                    recv_loop (length bs) (ProcessRequest (notify n) (to_serve n)) c buf bs
                      (on_mem (store_bytes buf (bs @ [0])) w)
                | ReceivedImm i \<Rightarrow> ProcessRequest_id (notify n) (to_serve n) c i w
                | UnknownOpcode \<Rightarrow> Some w))"

text \<open>The periodic eviction is \<open>Evict\<close>; the latency histograms of \<open>include/server.h\<close> are not modelled.\<close>

end
