(* ===== verification/Worker_Facts.thy ===== *)
theory Worker_Facts
  imports Dispatch
begin

text \<open>
  What the services of a worker do to its state, in the form the handler proofs use: equations
  for submitting a request, and the fields each service leaves alone.
\<close>

lemmas service_defs =
  wr_upd_def wr_del_def on_cache_def on_dir_def on_mem_def AddToPending_def ErasePendingWork_def
  emit_def cli_Write_def cli_WriteWithImm_def upd_stats_def upd_fence_def
  AddToServeLocalRequest_def AddToServeRemoteRequest_def incr_counter_def decr_counter_def

lemma bind_Some_iff: "Option.bind x f = Some y \<longleftrightarrow> (\<exists>a. x = Some a \<and> f a = Some y)"
  by (cases x) auto

subsection \<open>Request heap\<close>

lemma wrs_upd [simp]: "wrs (wr_upd r f w) = (wrs w)(r := map_option f (wrs w r))"
  by (simp add: wr_upd_def)

lemma wr_upd_upd [simp]: "wr_upd r f (wr_upd r g w) = wr_upd r (f \<circ> g) w"
  by (simp add: wr_upd_def option.map_comp)

lemma wr_upd_id: "(\<And>x. wrs w r = Some x \<Longrightarrow> f x = x) \<Longrightarrow> wr_upd r f w = w"
  by (cases "wrs w r") (simp_all add: wr_upd_def fun_upd_idem)

lemma incr_decr [simp]: "incr_counter r (decr_counter r w) = w" "decr_counter r (incr_counter r w) = w"
  by (simp_all add: incr_counter_def decr_counter_def comp_def wr_upd_id)

lemma wrs_counter [simp]:
  "wrs (incr_counter r w) = (wrs w)(r := map_option (\<lambda>x. x \<lparr> wr_counter := wr_counter x + 1 \<rparr>) (wrs w r))"
  "wrs (decr_counter r w) = (wrs w)(r := map_option (\<lambda>x. x \<lparr> wr_counter := wr_counter x - 1 \<rparr>) (wrs w r))"
  by (simp_all add: incr_counter_def decr_counter_def)

lemma flg_upd [simp]:
  "flg n (x \<lparr> wr_counter := k \<rparr>) = flg n x" "flg n (x \<lparr> wr_id := i \<rparr>) = flg n x"
  "flg n (x \<lparr> wr_wid := i \<rparr>) = flg n x" "flg n (x \<lparr> wr_parent := q \<rparr>) = flg n x"
  "flg n (x \<lparr> wr_status := s \<rparr>) = flg n x" "flg n (x \<lparr> wr_op := op \<rparr>) = flg n x"
  by (simp_all add: flg_def)

subsection \<open>Submission\<close>

text \<open>The message a request goes out as.\<close>

definition wire :: "Worker \<Rightarrow> WorkRequest \<Rightarrow> byte list" where
  "wire w wr = Ser (wr \<lparr> wr_wid := w_id w \<rparr>) (wire_data wr (w_mem w))"

lemma wire_data_wid [simp]: "wire_data (x \<lparr> wr_wid := i \<rparr>) m = wire_data x m" "wire_data (x \<lparr> wr_id := i \<rparr>) m = wire_data x m"
  by (simp_all add: wire_data_def)

lemma SubmitRequest_eq:
  assumes "wrs w r = Some wr"
  shows "SubmitRequest c r w = Some (emit (MSend c (wire w wr)) (wr_upd r (\<lambda>x. x \<lparr> wr_wid := w_id w \<rparr>) w))"
  using assms by (simp add: SubmitRequest_def SubmitRequest_full_def wire_def Let_def) (simp add: wr_upd_def)

lemma SubmitRequest_rec:
  assumes "wrs w r = Some wr"
  shows "SubmitRequest c r w = Some (w \<lparr> wrs := (wrs w)(r \<mapsto> wr \<lparr> wr_wid := w_id w \<rparr>), outbox := outbox w @ [MSend c (wire w wr)] \<rparr>)"
  using SubmitRequest_eq [OF assms] assms by (simp add: emit_def wr_upd_def)

lemma wid_id_commute: "x \<lparr> wr_id := i, wr_wid := j \<rparr> = x \<lparr> wr_wid := j, wr_id := i \<rparr>"
  by (cases x) simp

lemma SubmitPending_eq:
  assumes "wrs w r = Some wr" "\<not> is_reply (wr_op wr)" "GetWorkPsn w = (n, w1)"
  shows "SubmitPending c r w =
    Some (emit (MSend c (wire w (wr \<lparr> wr_id := n \<rparr>)))
      (AddToPending n r (wr_upd r (\<lambda>x. x \<lparr> wr_wid := w_id w, wr_id := n \<rparr>) w1)))"
proof -
  obtain k where w1: "w1 = w \<lparr> wr_psn := k \<rparr>"
    using assms(3) by (auto simp: GetWorkPsn_def Let_def split: if_splits)
  have "GetWorkPsn (wr_upd r (\<lambda>x. x \<lparr> wr_wid := w_id w \<rparr>) w) = (n, wr_upd r (\<lambda>x. x \<lparr> wr_wid := w_id w \<rparr>) w1)"
    using assms(3) by (auto simp: GetWorkPsn_def Let_def wr_upd_def split: if_splits)
  with assms(1,2) show ?thesis
    by (simp add: SubmitPending_def SubmitRequest_full_def wire_def Let_def w1)
      (simp add: wr_upd_def AddToPending_def wid_id_commute)
qed

lemma GetWorkPsn_simps:
  assumes "GetWorkPsn w = (n, w')"
  shows "wrs w' = wrs w" "outbox w' = outbox w" "pending_works w' = pending_works w" "w_dir w' = w_dir w"
    "w_cache w' = w_cache w" "w_mem w' = w_mem w" "w_sb w' = w_sb w" "widCliMap w' = widCliMap w" "w_id w' = w_id w"
    "w_base w' = w_base w" "to_serve_requests w' = to_serve_requests w" "next_wr w' = next_wr w"
    "to_serve_local_requests w' = to_serve_local_requests w" "fences w' = fences w" "widCliMapWorker w' = widCliMapWorker w"
    "GetClient w' = GetClient w"
proof -
  obtain k where w': "w' = w \<lparr> wr_psn := k \<rparr>"
    using assms by (auto simp: GetWorkPsn_def Let_def split: if_splits)
  have m: "most_free (w \<lparr> wr_psn := k \<rparr>) ws x c = most_free w ws x c" for ws x c
    by (induction ws arbitrary: x c) (auto simp: GetFreeMem_def)
  show "wrs w' = wrs w" "outbox w' = outbox w" "pending_works w' = pending_works w" "w_dir w' = w_dir w"
    "w_cache w' = w_cache w" "w_mem w' = w_mem w" "w_sb w' = w_sb w" "widCliMap w' = widCliMap w" "w_id w' = w_id w"
    "w_base w' = w_base w" "to_serve_requests w' = to_serve_requests w" "next_wr w' = next_wr w"
    "to_serve_local_requests w' = to_serve_local_requests w" "fences w' = fences w" "widCliMapWorker w' = widCliMapWorker w"
    by (simp_all add: w')
  show "GetClient w' = GetClient w" by (rule ext) (simp add: w' GetClient_def FindClientWid_def m)
qed

subsection \<open>Clients\<close>

lemma GetClient_cong:
  assumes "widCliMap w' = widCliMap w" "widCliMapWorker w' = widCliMapWorker w" "w_id w' = w_id w"
  shows "GetClient w' a = GetClient w a"
proof -
  have "most_free w' ws x c = most_free w ws x c" for ws x c
    using assms by (induction ws arbitrary: x c) (auto simp: GetFreeMem_def)
  with assms show ?thesis by (simp add: GetClient_def FindClientWid_def)
qed

text \<open>The worker a global address names, when it is known.\<close>

definition wid_of :: "gaddr \<Rightarrow> 32 word" where "wid_of a = ucast (WID a)"

definition known :: "Worker \<Rightarrow> gaddr \<Rightarrow> bool" where
  "known w a \<longleftrightarrow> a \<noteq> 0 \<and> widCliMap w (wid_of a) \<noteq> None"

lemma GetClient_known: "known w a \<Longrightarrow> GetClient w a = Some (wid_of a)"
  by (auto simp: known_def GetClient_def FindClientWid_def wid_of_def)

lemma cli_ToGlobal_upd [simp]:
  "cli_ToGlobal (w \<lparr> wrs := h \<rparr>) c p = cli_ToGlobal w c p" "cli_ToGlobal (w \<lparr> outbox := ms \<rparr>) c p = cli_ToGlobal w c p"
  "cli_ToGlobal (w \<lparr> w_dir := d \<rparr>) c p = cli_ToGlobal w c p"
  by (simp_all add: cli_ToGlobal_def)

lemma scast_inj: "(scast (a :: 32 word) :: 64 word) = scast b \<longleftrightarrow> a = b"
proof
  assume e: "(scast a :: 64 word) = scast b"
  have "bit a n = bit b n" if "n < 32" for n
  proof -
    have "bit (scast a :: 64 word) n = bit (scast b :: 64 word) n" by (simp only: e)
    with that show ?thesis by (cases "n = 31") (simp_all add: bit_simps min_def)
  qed
  then show "a = b" by (auto simp: bit_eq_iff bit_simps)
qed simp

text \<open>References handed out from now on are unused.\<close>

definition heap_ok :: "Worker \<Rightarrow> bool" where
  "heap_ok w \<longleftrightarrow> (\<forall>i \<ge> next_wr w. wrs w i = None)"

lemma heap_ok_fresh: "heap_ok w \<Longrightarrow> wrs w r = Some wr \<Longrightarrow> r \<noteq> next_wr w"
  by (auto simp: heap_ok_def)

subsection \<open>A worker to evaluate on\<close>

text \<open>Worker \<open>1\<close> of a cluster of four, just started.\<close>

definition demo_client :: Client where
  "demo_client = \<lparr> cl_base = 0x10000, cl_size = 0x100000, cl_free = 0x80000 \<rparr>"

definition demo_worker :: Worker where
  "demo_worker = (new_Worker 1 new_Conf new_SlabAllocator (\<lambda>_. 0) (\<lambda>_. 0x9000) (\<lambda>_. 0) (\<lambda>_ _ _ m. m))
     \<lparr> widCliMap := [0 \<mapsto> demo_client, 2 \<mapsto> demo_client, 3 \<mapsto> demo_client, 4 \<mapsto> demo_client],
       widCliMapWorker := [2, 3, 4] \<rparr>"

text \<open>A block of its memory that workers \<open>2\<close> and \<open>3\<close> share, and a request for it.\<close>

definition demo_entry :: DirEntry where
  "demo_entry = \<lparr> d_state = DIR_SHARED, d_shared = [0x2000000004000, 0x3000000004000], d_addr = 0x2000, d_locks = [] \<rparr>"

definition demo_request :: "Work \<Rightarrow> WorkRequest" where
  "demo_request op = new_WorkRequest
     \<lparr> wr_op := op, wr_id := 7, wr_addr := 0x1000000002000, wr_size := 4096, wr_ptr := 0x18000 \<rparr>"

definition demo_home :: "Work \<Rightarrow> Worker" where
  "demo_home op = demo_worker \<lparr> wrs := [0 \<mapsto> demo_request op], next_wr := 1, w_dir := [0x2000 \<mapsto> demo_entry] \<rparr>"

lemmas demo_defs = demo_worker_def demo_client_def new_Worker_def new_Conf_def new_Cache_def new_Stats_def new_SlabAllocator_def
  demo_entry_def demo_request_def demo_home_def new_WorkRequest_def

lemmas addr_defs = WID_def OFF_def OFF_MASK_def TO_LOCAL_def TO_GLOB_def TOBLOCK_def BLOCK_MASK_def BLOCK_SIZE_def
  GADD_def GMINUS_def EMPTY_GLOB_def wid_of_def ToLocal_def IsLocal_def

lemma demo_home_simps [simp]:
  "wrs (demo_home op) = [0 \<mapsto> demo_request op]" "next_wr (demo_home op) = 1" "outbox (demo_home op) = []"
  "entry_of (demo_request op) (demo_home op) = Some demo_entry" "d_state demo_entry = DIR_SHARED" "d_locks demo_entry = []"
  "d_addr demo_entry = TOBLOCK (ToLocal (demo_home op) (wr_addr (demo_request op)))"
  "\<forall>a \<in> set (d_shared demo_entry). known (demo_home op) a"
  by (simp_all add: demo_defs addr_defs entry_of_def dir_GetEntry_def known_def)

end
