(* ===== verification/Write_Protocol.thy ===== *)
theory Write_Protocol
  imports Worker_Facts Cache_Invariant
begin

text \<open>
  The write protocol: how ownership of a block moves, seen from the requester, which waits for
  the old owner and the home node, and from the home node, which waits for the sharers it
  has told to invalidate. \<open>NT\<close> and \<open>TS\<close> are arbitrary throughout.
\<close>

subsection \<open>The requester\<close>

lemma count_answer_eq:
  assumes "\<not> flg REPEATED wr" "\<not> flg REQUEST_DONE wr" "WID (wr_addr wr) = scast home"
  shows "count_answer c wr r w = (if c = home then incr_counter r w else decr_counter r w)"
  using assms by (auto simp: count_answer_def scast_inj)

lemma PendingWrite_step:
  assumes "wrs w r = Some wr" "wr_parent wr = Some p" "wrs w p = Some parent" "wr_status wr = 0"
    and "\<not> flg REPEATED wr" "\<not> flg REQUEST_DONE wr" "flg CACHED wr" "WID (wr_addr wr) = scast home"
  shows "ProcessPendingWrite NT TS c r w =
    (let w' = (if c = home then incr_counter r w else decr_counter r w)
     in if wr_counter wr + (if c = home then 1 else -1) = 0 then pending_write_done NT TS r p w' else Some w')"
  using assms
  by (simp add: ProcessPendingWrite_def count_answer_eq drop_sharer_def Let_def)

text \<open>The state of a cached line after \<open>ToDirty\<close>.\<close>

lemma cache_state_LinkLRU: "cache_GetState (LinkLRU a c) b = cache_GetState c b"
proof -
  obtain i q where "LinkLRU a c = lru_push a i (c \<lparr> c_rpos := q \<rparr>)" using LinkLRU_push by blast
  then have "map_option c_state (caches (LinkLRU a c) x) = map_option c_state (caches c x)" for x
    by (auto simp: lru_push_def Let_def option.map_comp comp_def split: option.splits)
  from this [of "TOBLOCK b"] show ?thesis
    by (auto simp: cache_GetState_def split: option.splits)
qed

lemma cache_state_ToDirty:
  "caches c (TOBLOCK b) = Some cl \<Longrightarrow> cache_GetState (cache_ToDirty (TOBLOCK b) c) b = CACHE_DIRTY"
  by (simp add: cache_ToDirty_def cache_state_LinkLRU) (simp add: cache_GetState_def set_cstate_def)

text \<open>
  C8: when a node asks for ownership of a block that another node has dirty, two answers arrive: the
  data from the old owner and an acknowledgement from the home node, in either order. The
  first one only moves the counter of the pending request, and the second completes the request
  in the state it was in before either arrived; the order makes no difference.
\<close>

theorem ownership_answers_commute:
  assumes "wrs w r = Some wr" "wr_parent wr = Some p" "wrs w p = Some parent" "wr_status wr = 0" "wr_counter wr = 0"
    and "\<not> flg REPEATED wr" "\<not> flg REQUEST_DONE wr" "flg CACHED wr" "WID (wr_addr wr) = scast home" "owner \<noteq> home" "p \<noteq> r"
  shows "ProcessPendingWrite NT TS owner r w = Some (decr_counter r w) \<and>
    ProcessPendingWrite NT TS home r (decr_counter r w) = pending_write_done NT TS r p w \<and>
    ProcessPendingWrite NT TS home r w = Some (incr_counter r w) \<and>
    ProcessPendingWrite NT TS owner r (incr_counter r w) = pending_write_done NT TS r p w"
proof -
  note step = PendingWrite_step [where NT = NT and TS = TS and home = home]
  have d: "wrs (decr_counter r w) r = Some (wr \<lparr> wr_counter := -1 \<rparr>)" "wrs (decr_counter r w) p = Some parent"
    and i: "wrs (incr_counter r w) r = Some (wr \<lparr> wr_counter := 1 \<rparr>)" "wrs (incr_counter r w) p = Some parent"
    using assms by simp_all
  have "incr_counter r (decr_counter r w) = w" "decr_counter r (incr_counter r w) = w" by simp_all
  with assms d i show ?thesis
    by (simp add: step [OF assms(1-4,6-9)] step [OF d(1) _ d(2)] step [OF i(1) _ i(2)] Let_def
          del: wrs_counter fun_upd_apply)
qed

theorem ownership_answers_commute_witness:
  "let parent = new_WorkRequest \<lparr> wr_op := WRITE, wr_addr := 0x2000000002010, wr_size := 16, wr_ptr := 0x9000, wr_counter := 1 \<rparr>;
       wr = new_WorkRequest \<lparr> wr_op := WRITE, wr_addr := 0x2000000002000, wr_size := 4096, wr_ptr := 0x5000,
                               wr_flag := 2 ^ CACHED, wr_parent := Some 0 \<rparr>;
       w = demo_worker \<lparr> wrs := [0 \<mapsto> parent, 1 \<mapsto> wr] \<rparr>
   in ProcessPendingWrite (\<lambda>_. Some) (\<lambda>_. Some) 3 1 w = Some (decr_counter 1 w) \<and>
      ProcessPendingWrite (\<lambda>_. Some) (\<lambda>_. Some) 2 1 (decr_counter 1 w) = pending_write_done (\<lambda>_. Some) (\<lambda>_. Some) 1 0 w"
proof -
  let ?p = "new_WorkRequest \<lparr> wr_op := WRITE, wr_addr := 0x2000000002010, wr_size := 16, wr_ptr := 0x9000, wr_counter := 1 \<rparr>"
  let ?r = "new_WorkRequest \<lparr> wr_op := WRITE, wr_addr := 0x2000000002000, wr_size := 4096, wr_ptr := 0x5000,
                              wr_flag := 2 ^ CACHED, wr_parent := Some 0 \<rparr>"
  have "\<not> flg REPEATED ?r" "\<not> flg REQUEST_DONE ?r" "flg CACHED ?r" "WID (wr_addr ?r) = scast (2 :: 32 word)"
    by (simp_all add: flg_def WID_def bit_simps)
  then show ?thesis
    using ownership_answers_commute [of "demo_worker \<lparr> wrs := [0 \<mapsto> ?p, 1 \<mapsto> ?r] \<rparr>" 1 ?r 0 ?p 2 3]
    by (simp add: Let_def new_WorkRequest_def)
qed

subsection \<open>The home node tells the sharers\<close>

text \<open>The workers other than \<open>c\<close> that the addresses \<open>as\<close> belong to, in order.\<close>

definition others :: "32 word \<Rightarrow> gaddr list \<Rightarrow> 32 word list" where
  "others c as = filter (\<lambda>x. x \<noteq> c) (map wid_of as)"

lemma others_simps [simp]:
  "others c [] = []" "others c (a # as) = (if wid_of a = c then others c as else wid_of a # others c as)"
  by (simp_all add: others_def)

lemma decr_counter_Some:
  "wrs w l = Some x \<Longrightarrow> decr_counter l w = w \<lparr> wrs := (wrs w)(l \<mapsto> x \<lparr> wr_counter := wr_counter x - 1 \<rparr>) \<rparr>"
  by (simp add: decr_counter_def wr_upd_def)

lemma wire_forward:
  assumes "wr_op x = INVALIDATE_FORWARD"
  shows "wire w (x \<lparr> wr_counter := k \<rparr>) = wire w x" "wire w (x \<lparr> wr_wid := i \<rparr>) = wire w x"
    "wire (w \<lparr> wrs := h \<rparr>) x = wire w x" "wire (w \<lparr> pending_works := q \<rparr>) x = wire w x" "wire (w \<lparr> outbox := out \<rparr>) x = wire w x"
  using assms by (simp_all add: wire_def Ser_def wire_data_def)

lemma forward_invalidate_eq:
  assumes "\<forall>a \<in> set as. known w a" "wrs w l = Some lwr" "wr_op lwr = INVALIDATE_FORWARD"
  shows "forward_invalidate c l first as w = Some (w
     \<lparr> wrs := (wrs w)(l \<mapsto> lwr \<lparr> wr_counter := wr_counter lwr - int (length as) + int (length (others c as)),
                              wr_wid := (if others c as = [] then wr_wid lwr else w_id w) \<rparr>),
       pending_works := (if first \<and> others c as \<noteq> [] then (pending_works w)(wr_id lwr \<mapsto> l) else pending_works w),
       outbox := outbox w @ map (\<lambda>t. MSend t (wire w lwr)) (others c as) \<rparr>)"
  using assms
proof (induction as arbitrary: w lwr first)
  case Nil
  then show ?case by (simp add: fun_upd_idem)
next
  case (Cons a as)
  have g: "GetClient w a = Some (wid_of a)" using Cons.prems(1) by (simp add: GetClient_known)
  show ?case
  proof (cases "wid_of a = c")
    case True
    let ?x = "lwr \<lparr> wr_counter := wr_counter lwr - 1 \<rparr>"
    let ?w = "w \<lparr> wrs := (wrs w)(l \<mapsto> ?x) \<rparr>"
    have "\<forall>b \<in> set as. known ?w b" "wrs ?w l = Some ?x" "wr_op ?x = INVALIDATE_FORWARD"
      using Cons.prems by (simp_all add: known_def)
    from Cons.IH [OF this, of first] True g Cons.prems(3) show ?thesis
      by (cases "others c as") (simp_all add: wire_forward decr_counter_Some [OF Cons.prems(2)] algebra_simps cong: if_cong)
  next
    case False
    let ?w1 = "if first then w \<lparr> pending_works := (pending_works w)(wr_id lwr \<mapsto> l) \<rparr> else w"
    let ?x = "lwr \<lparr> wr_wid := w_id w \<rparr>"
    let ?w = "?w1 \<lparr> outbox := outbox w @ [MSend (wid_of a) (wire w lwr)], wrs := (wrs w)(l \<mapsto> ?x) \<rparr>"
    have s: "SubmitRequest (wid_of a) l ?w1 = Some ?w"
      using Cons.prems(2,3) by (subst SubmitRequest_eq) (auto simp: emit_def wr_upd_def wire_forward)
    have "\<forall>b \<in> set as. known ?w b" "wrs ?w l = Some ?x" "wr_op ?x = INVALIDATE_FORWARD"
      using Cons.prems by (simp_all add: known_def)
    from Cons.IH [OF this, of False] False g s Cons.prems(2,3) show ?thesis
      by (cases "others c as"; cases first) (simp_all add: wire_forward AddToPending_def algebra_simps cong: if_cong)
  qed
qed

lemma remote_write_shared_eq:
  assumes "\<forall>a \<in> set (d_shared e). known w a" "wrs w r = Some wr" "GetWorkPsn w = (n, w1)" "others c (d_shared e) \<noteq> []"
  defines "lwr \<equiv> (copy_WorkRequest wr) \<lparr> wr_op := INVALIDATE_FORWARD, wr_parent := Some r, wr_id := n, wr_pwid := c,
    wr_counter := int (length (d_shared e)) \<rparr>"
  shows "remote_write_shared e c r w = Some (w1
    \<lparr> next_wr := Suc (next_wr w),
      wrs := (wrs w)(next_wr w \<mapsto> lwr \<lparr> wr_counter := int (length (others c (d_shared e))), wr_wid := w_id w \<rparr>),
      pending_works := (pending_works w)(n \<mapsto> next_wr w),
      outbox := outbox w @ map (\<lambda>t. MSend t (wire w lwr)) (others c (d_shared e)),
      w_dir := dir_ToToDirty_entry e (w_dir w) \<rparr>)"
proof -
  obtain k where w1: "w1 = w \<lparr> wr_psn := k \<rparr>"
    using assms(3) by (auto simp: GetWorkPsn_def Let_def split: if_splits)
  let ?w = "w1 \<lparr> wrs := (wrs w1)(next_wr w1 \<mapsto> lwr), next_wr := Suc (next_wr w1) \<rparr>"
  have f: "\<forall>a \<in> set (d_shared e). known ?w a" "wrs ?w (next_wr w) = Some lwr" "wr_op lwr = INVALIDATE_FORWARD"
    using assms(1) by (simp_all add: known_def lwr_def w1)
  have wi: "wire ?w lwr = wire w lwr" using f(3) by (simp add: wire_def wire_data_def w1)
  show ?thesis
    using forward_invalidate_eq [OF f, of c True] assms(2,3,4)
    by (simp add: remote_write_shared_def Let_def wr_new_def lwr_def [symmetric] wi on_dir_def)
      (simp add: w1 lwr_def on_dir_def)
qed

text \<open>
  C7: a write request for a block that other nodes share makes the home node send one
  \<open>INVALIDATE_FORWARD\<close> message to every sharer but the requester, all under one fresh
  pending id. The pending request waits for exactly as many acknowledgements as messages were
  sent, and the block is marked so that later requests for it wait.
\<close>

theorem invalidation_reaches_every_sharer:
  assumes "wrs w r = Some wr" "entry_of wr w = Some e" "d_state e = DIR_SHARED" "d_locks e = []"
    and "\<forall>a \<in> set (d_shared e). known w a" "others c (d_shared e) \<noteq> []" "d_addr e = TOBLOCK (ToLocal w (wr_addr wr))"
  shows "\<exists>w' x n m. ProcessRemoteWrite c r w = Some w' \<and>
    outbox w' = outbox w @ map (\<lambda>t. MSend t m) (others c (d_shared e)) \<and>
    GetPendingWork n w' = Some (next_wr w) \<and> n \<noteq> 0 \<and> wrs w' (next_wr w) = Some x \<and>
    m = wire w x \<and> wr_op x = INVALIDATE_FORWARD \<and> wr_id x = n \<and> wr_addr x = wr_addr wr \<and> wr_parent x = Some r \<and>
    wr_counter x = int (length (others c (d_shared e))) \<and> dir_InTransition_entry (entry_of wr w')"
proof -
  obtain n w1 where n: "GetWorkPsn w = (n, w1)" by fastforce
  have "n \<noteq> 0" using n by (auto simp: GetWorkPsn_def Let_def split: if_splits)
  moreover have "ProcessRemoteWrite c r w = remote_write_shared e c r w"
    using assms(1-4) by (simp add: ProcessRemoteWrite_def dir_GetState_def dir_InTransition_def dir_IsBlockLocked_def Let_def)
  ultimately show ?thesis
    using remote_write_shared_eq [OF assms(5,1) n assms(6)] GetWorkPsn_simps [OF n] assms(7)
    by (simp add: GetPendingWork_def wire_forward copy_WorkRequest_def dir_InTransition_entry_def dir_InTransition_def
        entry_of_def dir_GetEntry_def dir_ToToDirty_entry_def put_entry_def ToLocal_def)
qed

theorem invalidation_reaches_every_sharer_witness:
  "\<exists>w' x n m. ProcessRemoteWrite 4 0 (demo_home WRITE) = Some w' \<and> outbox w' = [MSend 2 m, MSend 3 m] \<and>
    GetPendingWork n w' = Some 1 \<and> wrs w' 1 = Some x \<and> wr_op x = INVALIDATE_FORWARD \<and> wr_counter x = 2"
proof -
  have "others 4 (d_shared demo_entry) = [2, 3]" by (simp add: others_def demo_defs addr_defs)
  then show ?thesis
    using invalidation_reaches_every_sharer [of "demo_home WRITE" 0 "demo_request WRITE" demo_entry 4]
    by auto
qed

subsection \<open>The sharers acknowledge\<close>

text \<open>The acknowledgements of \<open>cs\<close>, one after the other.\<close>

fun acks :: "step \<Rightarrow> nat \<Rightarrow> 32 word list \<Rightarrow> Worker \<Rightarrow> Worker option" where
  "acks TS r [] w = Some w"
| "acks TS r (c # cs) w = Option.bind (ProcessPendingInvalidateForward TS c r w) (acks TS r cs)"

definition without :: "32 word list \<Rightarrow> gaddr list \<Rightarrow> gaddr list" where
  "without cs as = fold (\<lambda>c. erase_first (\<lambda>a. WID a = scast c)) cs as"

lemma without_simps [simp]:
  "without [] as = as" "without (c # cs) as = without cs (erase_first (\<lambda>a. WID a = scast c) as)" "without cs [] = []"
proof -
  show "without cs [] = []" by (induction cs) (simp_all add: without_def)
qed (simp_all add: without_def)

lemma without_filter:
  "distinct (map WID as) \<Longrightarrow> without cs as = filter (\<lambda>a. WID a \<notin> scast ` set cs) as"
proof (induction cs arbitrary: as)
  case (Cons c cs)
  have *: "erase_first (\<lambda>a. WID a = x) as = filter (\<lambda>a. WID a \<noteq> x) as" if "distinct (map WID as)" for x as
    using that by (induction as) (auto simp: image_iff intro!: filter_True [symmetric])
  show ?case
    using Cons by (simp add: * distinct_map_filter)
qed simp

text \<open>The directory after all of \<open>cs\<close> have been removed from a block nobody locks.\<close>

definition after_acks :: "DirEntry \<Rightarrow> 32 word list \<Rightarrow> Directory \<Rightarrow> Directory" where
  "after_acks e cs d = d(d_addr e := (let s = without cs (d_shared e) in if s = [] then None else Some (e \<lparr> d_shared := s \<rparr>)))"

lemma ack_step:
  assumes "wrs w r = Some wr" "wr_status wr = 0" "wr_parent wr = Some p" "wrs w p = Some parent"
    and "entry_of wr w = Some e" "d_locks e = []"
  shows "ProcessPendingInvalidateForward TS c r w =
    (let w' = w \<lparr> wrs := (wrs w)(r \<mapsto> wr \<lparr> wr_counter := wr_counter wr - 1 \<rparr>), w_dir := after_acks e [c] (w_dir w) \<rparr>
     in if wr_counter wr = 1 then inv_forward_done TS r p w' else Some w')"
  using assms
  by (simp add: ProcessPendingInvalidateForward_def decr_counter_Some entry_of_def ToLocal_def Let_def on_dir_def
      after_acks_def dir_Remove_entry_def erase_entry_def put_entry_def dir_IsBlockLocked_def)

lemma acks_append: "acks TS r (cs @ ds) w = Option.bind (acks TS r cs w) (acks TS r ds)"
proof (induction cs arbitrary: w)
  case (Cons c cs)
  then show ?case by (cases "ProcessPendingInvalidateForward TS c r w") simp_all
qed simp

text \<open>All but the last acknowledgement only count.\<close>

lemma acks_wait:
  assumes "wrs w r = Some wr" "wr_status wr = 0" "wr_parent wr = Some p" "wrs w p = Some parent" "p \<noteq> r"
    and "entry_of wr w = Some e" "d_addr e = TOBLOCK (ToLocal w (wr_addr wr))" "d_locks e = []"
    and "int (length cs) < wr_counter wr" "length cs < length (d_shared e)"
  shows "acks TS r cs w = Some
    (w \<lparr> wrs := (wrs w)(r \<mapsto> wr \<lparr> wr_counter := wr_counter wr - int (length cs) \<rparr>), w_dir := after_acks e cs (w_dir w) \<rparr>)
    \<and> without cs (d_shared e) \<noteq> []"
  using assms
proof (induction cs arbitrary: w wr e)
  case Nil
  then have "w_dir w (d_addr e) = Some e" by (simp add: entry_of_def dir_GetEntry_def)
  with Nil show ?case by (simp add: after_acks_def fun_upd_idem)
next
  case (Cons c cs)
  let ?e = "e \<lparr> d_shared := erase_first (\<lambda>a. WID a = scast c) (d_shared e) \<rparr>"
  let ?wr = "wr \<lparr> wr_counter := wr_counter wr - 1 \<rparr>"
  let ?w = "w \<lparr> wrs := (wrs w)(r \<mapsto> ?wr), w_dir := after_acks e [c] (w_dir w) \<rparr>"
  have l: "length cs < length (d_shared ?e)"
    using Cons.prems(10) length_erase_first [of "\<lambda>a. WID a = scast c" "d_shared e"] by (auto split: if_splits)
  then have ne: "d_shared ?e \<noteq> []" by auto
  have "acks TS r cs ?w = Some
      (?w \<lparr> wrs := (wrs ?w)(r \<mapsto> ?wr \<lparr> wr_counter := wr_counter ?wr - int (length cs) \<rparr>), w_dir := after_acks ?e cs (w_dir ?w) \<rparr>)
      \<and> without cs (d_shared ?e) \<noteq> []"
    using Cons.prems ne l
    by (intro Cons.IH) (auto simp: entry_of_def ToLocal_def dir_GetEntry_def after_acks_def Let_def)
  moreover have "after_acks ?e cs (after_acks e [c] (w_dir w)) = after_acks e (c # cs) (w_dir w)"
    by (simp add: after_acks_def Let_def)
  ultimately show ?case
    using ack_step [OF Cons.prems(1-4,6,8), of TS c] Cons.prems(9) by (simp add: Let_def algebra_simps del: fun_upd_apply)
qed

lemma acks_eq:
  assumes "wrs w r = Some wr" "wr_status wr = 0" "wr_parent wr = Some p" "wrs w p = Some parent" "p \<noteq> r"
    and "entry_of wr w = Some e" "d_addr e = TOBLOCK (ToLocal w (wr_addr wr))" "d_locks e = []"
    and "wr_counter wr = int (length cs)" "cs \<noteq> []" "length cs \<le> length (d_shared e)"
  shows "acks TS r cs w = inv_forward_done TS r p
    (w \<lparr> wrs := (wrs w)(r \<mapsto> wr \<lparr> wr_counter := 0 \<rparr>), w_dir := after_acks e cs (w_dir w) \<rparr>)"
proof -
  obtain ds c where cs: "cs = ds @ [c]" using assms(10) by (cases cs rule: rev_cases) auto
  let ?e = "e \<lparr> d_shared := without ds (d_shared e) \<rparr>"
  let ?wr = "wr \<lparr> wr_counter := 1 \<rparr>"
  let ?w = "w \<lparr> wrs := (wrs w)(r \<mapsto> ?wr), w_dir := after_acks e ds (w_dir w) \<rparr>"
  have 1: "acks TS r ds w = Some ?w" and ne: "without ds (d_shared e) \<noteq> []"
    using acks_wait [OF assms(1-8), of ds TS] assms(9,11) by (simp_all add: cs)
  have "ProcessPendingInvalidateForward TS c r ?w = inv_forward_done TS r p
      (?w \<lparr> wrs := (wrs ?w)(r \<mapsto> ?wr \<lparr> wr_counter := 0 \<rparr>), w_dir := after_acks ?e [c] (w_dir ?w) \<rparr>)"
    using assms ne by (subst ack_step [of _ _ ?wr _ parent ?e])
      (auto simp: entry_of_def ToLocal_def dir_GetEntry_def after_acks_def Let_def)
  moreover have "after_acks ?e [c] (after_acks e ds (w_dir w)) = after_acks e cs (w_dir w)"
    by (simp add: after_acks_def cs without_def Let_def)
  moreover have "acks TS r [] = Some" by (rule ext) simp
  ultimately show ?thesis using 1 by (simp add: cs acks_append del: fun_upd_apply)
qed

lemma inv_forward_done_eq:
  assumes "wrs w r = Some wr" "wrs w p = Some parent" "widCliMap w (wr_pwid wr) = Some cl" "p \<noteq> r"
    and "laddr = ToLocal w (wr_addr wr)" "cli_ToGlobal w (wr_pwid wr) (wr_ptr parent) = Some g"
  defines "reply \<equiv> parent \<lparr> wr_op := WRITE_REPLY, wr_status := SUCCESS, wr_counter := 0 \<rparr>"
  shows "inv_forward_done TS r p w = do {
    w' \<leftarrow> TS r (w \<lparr>
      w_dir := (case dir_GetEntry (w_dir w) laddr of Some e \<Rightarrow> dir_ToDirty_entry e g | None \<Rightarrow> dir_ToDirty laddr g) (w_dir w),
      wrs := (wrs w)(p \<mapsto> reply \<lparr> wr_wid := w_id w \<rparr>),
      outbox := outbox w @
        (if wr_op parent = WRITE \<or> dir_GetState (dir_GetEntry (w_dir w) laddr) = DIR_UNSHARED
         then [MWrite (wr_pwid wr) (wr_ptr parent) (load laddr (unat (wr_size parent)) (w_mem w))] else []) @
        [MSend (wr_pwid wr) (wire w reply)],
      pending_works := (pending_works w)(wr_id wr := None) \<rparr>);
    Some (wr_del p (wr_del r w')) }"
proof -
  have *: "wire_data reply m = []" for m by (simp add: reply_def wire_data_def)
  show ?thesis
    using assms(1-4,6)
    by (simp add: inv_forward_done_def SubmitRequest_rec [where wr = reply] FindClientWid_def cli_Write_def wire_def *
        emit_def on_dir_def ErasePendingWork_def wr_upd_def Let_def reply_def [symmetric] assms(5) [symmetric] cli_ToGlobal_def fun_upd_same
        del: fun_upd_apply cong: option.case_cong)
qed

lemma after_acks_dirty:
  assumes "d_addr e = TOBLOCK laddr" "d_locks e = []"
  shows "(case dir_GetEntry (after_acks e cs d) laddr of Some e \<Rightarrow> dir_ToDirty_entry e g | None \<Rightarrow> dir_ToDirty laddr g) (after_acks e cs d) =
    d(d_addr e \<mapsto> \<lparr> d_state = DIR_DIRTY, d_shared = [g], d_addr = d_addr e, d_locks = [] \<rparr>)"
  using assms
  by (cases e) (simp add: dir_GetEntry_def after_acks_def dir_ToDirty_entry_def dir_ToDirty_def put_entry_def new_DirEntry_def Let_def)

lemma after_acks_state:
  assumes "d_addr e = TOBLOCK laddr" "d_state e \<noteq> DIR_UNSHARED" "distinct (map WID (d_shared e))"
  shows "dir_GetState (dir_GetEntry (after_acks e cs d) laddr) = DIR_UNSHARED \<longleftrightarrow> (\<forall>a \<in> set (d_shared e). WID a \<in> scast ` set cs)"
  using assms by (simp add: dir_GetEntry_def after_acks_def Let_def dir_GetState_def without_filter filter_empty_conv)

text \<open>The state of the home node when the last acknowledgement has come.\<close>

definition granted :: "nat \<Rightarrow> nat \<Rightarrow> WorkRequest \<Rightarrow> WorkRequest \<Rightarrow> DirEntry \<Rightarrow> 32 word list \<Rightarrow> gaddr \<Rightarrow> Worker \<Rightarrow> Worker" where
  "granted r p wr parent e cs g w =
    (let reply = parent \<lparr> wr_op := WRITE_REPLY, wr_status := SUCCESS, wr_counter := 0 \<rparr>
     in w \<lparr>
      w_dir := (w_dir w)(d_addr e \<mapsto> \<lparr> d_state = DIR_DIRTY, d_shared = [g], d_addr = d_addr e, d_locks = [] \<rparr>),
      wrs := (wrs w)(r \<mapsto> wr \<lparr> wr_counter := 0 \<rparr>, p \<mapsto> reply \<lparr> wr_wid := w_id w \<rparr>),
      outbox := outbox w @
        (if wr_op parent = WRITE \<or> (\<forall>a \<in> set (d_shared e). WID a \<in> scast ` set cs)
         then [MWrite (wr_pwid wr) (wr_ptr parent) (load (ToLocal w (wr_addr wr)) (unat (wr_size parent)) (w_mem w))] else []) @
        [MSend (wr_pwid wr) (wire w reply)],
      pending_works := (pending_works w)(wr_id wr := None) \<rparr>)"

lemma acks_granted:
  assumes "wrs w r = Some wr" "wr_status wr = 0" "wr_parent wr = Some p" "wrs w p = Some parent" "p \<noteq> r"
    and "entry_of wr w = Some e" "d_addr e = TOBLOCK (ToLocal w (wr_addr wr))" "d_locks e = []" "d_state e = DIR_TO_DIRTY"
    and "wr_counter wr = int (length cs)" "cs \<noteq> []" "length cs \<le> length (d_shared e)" "distinct (map WID (d_shared e))"
    and "cli_ToGlobal w (wr_pwid wr) (wr_ptr parent) = Some g"
  shows "acks TS r cs w = do { w' \<leftarrow> TS r (granted r p wr parent e cs g w); Some (wr_del p (wr_del r w')) }"
proof -
  let ?w = "w \<lparr> wrs := (wrs w)(r \<mapsto> wr \<lparr> wr_counter := 0 \<rparr>), w_dir := after_acks e cs (w_dir w) \<rparr>"
  let ?reply = "parent \<lparr> wr_op := WRITE_REPLY, wr_status := SUCCESS, wr_counter := 0 \<rparr>"
  obtain cl where cl: "widCliMap w (wr_pwid wr) = Some cl" using assms(14) by (auto simp: cli_ToGlobal_def)
  have wi: "wire ?w ?reply = wire w ?reply" by (simp add: wire_def wire_data_def)
  have g: "cli_ToGlobal ?w (wr_pwid wr) (wr_ptr parent) = Some g" using assms(14) by (simp add: cli_ToGlobal_def)
  have st: "dir_GetState (dir_GetEntry (after_acks e cs (w_dir w)) (ToLocal w (wr_addr wr))) = DIR_UNSHARED \<longleftrightarrow>
      (\<forall>a \<in> set (d_shared e). WID a \<in> scast ` set cs)"
    using assms(7,9,13) by (intro after_acks_state) simp_all
  show ?thesis
    unfolding acks_eq [OF assms(1-8,10-12)]
    using inv_forward_done_eq [of ?w r "wr \<lparr> wr_counter := 0 \<rparr>" p parent cl "ToLocal w (wr_addr wr)" g TS]
      assms(4,5) cl g after_acks_dirty [OF assms(7,8), where cs = cs and d = "w_dir w" and g = g] wi st
    by (simp add: ToLocal_def granted_def Let_def fun_upd_other fun_upd_same del: fun_upd_apply)
qed

text \<open>
  C6: the acknowledgements of the sharers may arrive in any order. Until the last of them the home
  node sends nothing. With the last one the requester becomes the only owner in the directory and
  gets the permission; it also gets the data when its request was a plain write, or when its own
  copy was invalidated while it waited.
\<close>

theorem acknowledgements_grant_ownership:
  assumes "wrs w r = Some wr" "wr_status wr = 0" "wr_parent wr = Some p" "wrs w p = Some parent" "p \<noteq> r"
    and "entry_of wr w = Some e" "d_addr e = TOBLOCK (ToLocal w (wr_addr wr))" "d_locks e = []" "d_state e = DIR_TO_DIRTY"
    and "wr_counter wr = int (length cs)" "cs \<noteq> []" "length cs \<le> length (d_shared e)" "distinct (map WID (d_shared e))"
    and "cli_ToGlobal w (wr_pwid wr) (wr_ptr parent) = Some g"
  shows "(\<forall>k < length cs. \<exists>w'. acks TS r (take k cs) w = Some w' \<and> outbox w' = outbox w) \<and>
    (\<exists>W. acks TS r cs w = do { w' \<leftarrow> TS r W; Some (wr_del p (wr_del r w')) } \<and>
      w_dir W = (w_dir w)(d_addr e \<mapsto> \<lparr> d_state = DIR_DIRTY, d_shared = [g], d_addr = d_addr e, d_locks = [] \<rparr>) \<and>
      outbox W = outbox w @
        (if wr_op parent = WRITE \<or> (\<forall>a \<in> set (d_shared e). WID a \<in> scast ` set cs)
         then [MWrite (wr_pwid wr) (wr_ptr parent) (load (ToLocal w (wr_addr wr)) (unat (wr_size parent)) (w_mem w))] else []) @
        [MSend (wr_pwid wr) (wire w (parent \<lparr> wr_op := WRITE_REPLY, wr_status := SUCCESS, wr_counter := 0 \<rparr>))] \<and>
      GetPendingWork (wr_id wr) W = None)"
proof
  show "\<forall>k < length cs. \<exists>w'. acks TS r (take k cs) w = Some w' \<and> outbox w' = outbox w"
  proof (intro allI impI)
    fix k
    assume "k < length cs"
    with acks_wait [OF assms(1-8), of "take k cs" TS] assms(10,12)
    show "\<exists>w'. acks TS r (take k cs) w = Some w' \<and> outbox w' = outbox w" by (simp add: min_def)
  qed
next
  show "\<exists>W. acks TS r cs w = do { w' \<leftarrow> TS r W; Some (wr_del p (wr_del r w')) } \<and>
      w_dir W = (w_dir w)(d_addr e \<mapsto> \<lparr> d_state = DIR_DIRTY, d_shared = [g], d_addr = d_addr e, d_locks = [] \<rparr>) \<and>
      outbox W = outbox w @
        (if wr_op parent = WRITE \<or> (\<forall>a \<in> set (d_shared e). WID a \<in> scast ` set cs)
         then [MWrite (wr_pwid wr) (wr_ptr parent) (load (ToLocal w (wr_addr wr)) (unat (wr_size parent)) (w_mem w))] else []) @
        [MSend (wr_pwid wr) (wire w (parent \<lparr> wr_op := WRITE_REPLY, wr_status := SUCCESS, wr_counter := 0 \<rparr>))] \<and>
      GetPendingWork (wr_id wr) W = None"
    using acks_granted [OF assms, of TS]
    by (intro exI [of _ "granted r p wr parent e cs g w"]) (simp add: granted_def Let_def GetPendingWork_def)
qed

theorem acknowledgements_grant_ownership_witness:
  "\<exists>W g. acks (\<lambda>_. Some) 1 [3, 2] ((demo_home WRITE)
     \<lparr> wrs := [0 \<mapsto> demo_request WRITE, 1 \<mapsto> (demo_request INVALIDATE_FORWARD) \<lparr> wr_parent := Some 0, wr_pwid := 4, wr_counter := 2 \<rparr>],
       w_dir := [0x2000 \<mapsto> demo_entry \<lparr> d_state := DIR_TO_DIRTY \<rparr>] \<rparr>) = Some W \<and>
     w_dir W 0x2000 = Some \<lparr> d_state = DIR_DIRTY, d_shared = [g], d_addr = 0x2000, d_locks = [] \<rparr> \<and> WID g = 4"
proof -
  let ?r = "(demo_request INVALIDATE_FORWARD) \<lparr> wr_parent := Some 0, wr_pwid := 4, wr_counter := 2 \<rparr>"
  let ?e = "demo_entry \<lparr> d_state := DIR_TO_DIRTY \<rparr>"
  let ?w = "(demo_home WRITE) \<lparr> wrs := [0 \<mapsto> demo_request WRITE, 1 \<mapsto> ?r], w_dir := [0x2000 \<mapsto> ?e] \<rparr>"
  have "entry_of ?r ?w = Some ?e" "d_addr ?e = TOBLOCK (ToLocal ?w (wr_addr ?r))" "d_locks ?e = []"
    "length (d_shared ?e) = 2" "distinct (map WID (d_shared ?e))" "wr_status ?r = 0" "d_addr ?e = 0x2000"
    "cli_ToGlobal ?w 4 (wr_ptr (demo_request WRITE)) = Some 0x4000000008000"
    by (simp_all add: demo_defs addr_defs entry_of_def dir_GetEntry_def cli_ToGlobal_def)
  moreover have "WID 0x4000000008000 = 4" by (simp add: WID_def)
  ultimately show ?thesis
    using acknowledgements_grant_ownership [of ?w 1 ?r 0 "demo_request WRITE" ?e "[3, 2]" "0x4000000008000" "\<lambda>_. Some"]
    by (auto simp: wr_del_def intro!: exI [of _ "0x4000000008000"])
qed

end
