(* ===== verification/Coherence.thy ===== *)
theory Coherence
  imports Write_Protocol
begin

text \<open>
  Safety of the protocol at the two ends of a request: a node that answers an invalidation or
  hands a block over has no usable copy left, and a home node lets a block go only when its
  directory entry allows it.
\<close>

subsection \<open>State of a cached block\<close>



lemma set_cstate_at [simp]: "caches c a = Some cl \<Longrightarrow> caches (set_cstate s a c) a = Some (cl \<lparr> c_state := s \<rparr>)"
  by (simp add: set_cstate_def)

lemma outbox_steps [simp]:
  "outbox (wr_upd r f w) = outbox w" "outbox (wr_del r w) = outbox w" "outbox (on_cache g w) = outbox w"
  "outbox (on_dir h w) = outbox w" "outbox (AddToPending i r w) = outbox w" "outbox (ErasePendingWork i w) = outbox w"
  "outbox (count_invalid w) = outbox w" "outbox (cli_WriteWithImm c d s n i sg w) = outbox w @ [MWriteImm c d (load s n (w_mem w)) i sg]"
  "outbox (AddToServeRemoteRequest b c r w) = outbox w"
  by (simp_all add: service_defs count_invalid_def AddToServeRemoteRequest_def)

lemma w_cache_steps [simp]:
  "w_cache (wr_upd r f w) = w_cache w" "w_cache (wr_del r w) = w_cache w" "w_cache (on_cache g w) = g (w_cache w)"
  "w_cache (on_dir h w) = w_cache w" "w_cache (AddToPending i r w) = w_cache w" "w_cache (ErasePendingWork i w) = w_cache w"
  "w_cache (count_invalid w) = w_cache w" "w_cache (cli_WriteWithImm c d s n i sg w) = w_cache w"
  "w_cache (AddToServeRemoteRequest b c r w) = w_cache w"
  by (simp_all add: service_defs count_invalid_def AddToServeRemoteRequest_def)

lemma w_cache_GetWorkPsn [simp]: "w_cache (snd (GetWorkPsn w)) = w_cache w" "outbox (snd (GetWorkPsn w)) = outbox w"
  by (simp_all add: GetWorkPsn_def Let_def)






subsection \<open>A node that gives a block up\<close>






text \<open>Worker \<open>1\<close> with a copy of a block of worker \<open>2\<close>, and a request about it.\<close>

definition demo_line :: "CacheState \<Rightarrow> CacheLine" where
  "demo_line st = new_CacheLine \<lparr> c_line := 0x5000, c_addr := 0x2000000002000, c_state := st \<rparr>"

definition demo_sharer :: "Work \<Rightarrow> CacheState \<Rightarrow> Worker" where
  "demo_sharer op st = demo_worker
     \<lparr> wrs := [0 \<mapsto> (demo_request op) \<lparr> wr_addr := 0x2000000002000, wr_pwid := 4 \<rparr>], next_wr := 1,
       w_cache := (new_Cache new_Conf (\<lambda>_. 0)) \<lparr> caches := [0x2000000002000 \<mapsto> demo_line st] \<rparr> \<rparr>"

lemma demo_sharer_simps [simp]:
  "wrs (demo_sharer op st) = [0 \<mapsto> (demo_request op) \<lparr> wr_addr := 0x2000000002000, wr_pwid := 4 \<rparr>]" "outbox (demo_sharer op st) = []"
  "caches (w_cache (demo_sharer op st)) = [0x2000000002000 \<mapsto> demo_line st]" "c_addr (demo_line st) = 0x2000000002000"
  "TOBLOCK 0x2000000002000 = 0x2000000002000" "c_state (demo_line st) = st" "c_locks (demo_line st) = []" "wr_op (demo_request op) = op"
  by (simp_all add: demo_sharer_def demo_line_def demo_defs new_CacheLine_def TOBLOCK_def BLOCK_MASK_def)


subsection \<open>A home node that lets a block go\<close>

text \<open>
  What a home node relies on: its directory is well formed, everybody who shares a block is a
  client, and references that were not handed out are free.
\<close>

definition home_ok :: "Worker \<Rightarrow> bool" where
  "home_ok w \<longleftrightarrow> dir_wf (w_dir w) \<and> heap_ok w \<and>
     (\<forall>p e. w_dir w p = Some e \<longrightarrow> (\<forall>a \<in> set (d_shared e). known w a))"

lemma home_okD:
  assumes "home_ok w" "entry_of wr w = Some e"
  shows "d_addr e = TOBLOCK (ToLocal w (wr_addr wr))" "entry_wf e" "\<forall>a \<in> set (d_shared e). known w a"
  using assms by (auto simp: home_ok_def dir_wf_def entry_of_def dir_GetEntry_def)

text \<open>The entry of a block after its owner was recorded.\<close>

lemma ToDirty_at:
  assumes "\<forall>e. d (TOBLOCK laddr) = Some e \<longrightarrow> d_addr e = TOBLOCK laddr"
  shows "\<exists>e'. (case dir_GetEntry d laddr of Some e \<Rightarrow> dir_ToDirty_entry e g | None \<Rightarrow> dir_ToDirty laddr g) d = d(TOBLOCK laddr \<mapsto> e') \<and>
    d_state e' = DIR_DIRTY \<and> d_shared e' = [g]"
  using assms
  by (auto simp: dir_GetEntry_def dir_ToDirty_entry_def dir_ToDirty_def put_entry_def new_DirEntry_def Let_def split: option.splits)

lemma remote_write_grant_eq:
  assumes "wrs w r = Some wr" "cli_ToGlobal w c (wr_ptr wr) = Some g"
  shows "remote_write_grant c r w = Some (w \<lparr> outbox := outbox w @ [MSend c (wire w (wr \<lparr> wr_op := WRITE_REPLY, wr_status := SUCCESS, wr_counter := 0 \<rparr>))],
    w_dir := (case dir_GetEntry (w_dir w) (ToLocal w (wr_addr wr)) of
      Some e \<Rightarrow> dir_ToDirty_entry e g | None \<Rightarrow> dir_ToDirty (ToLocal w (wr_addr wr)) g) (w_dir w),
    wrs := (wrs w)(r := None) \<rparr>)"
  using assms
  by (simp add: remote_write_grant_def SubmitRequest_rec wr_upd_def fun_upd_same Let_def on_dir_def wr_del_def wire_def
      wire_data_def cong: option.case_cong del: fun_upd_apply)

lemma remote_write_sole_eq:
  assumes "\<forall>a \<in> set (d_shared e). known w a" "wrs w r = Some wr" "others c (d_shared e) = []" "heap_ok w"
  shows "\<exists>w1. remote_write_shared e c r w = remote_write_grant c r w1 \<and> wrs w1 = wrs w \<and> w_dir w1 = w_dir w \<and>
    outbox w1 = outbox w \<and> widCliMap w1 = widCliMap w \<and> w_base w1 = w_base w \<and> w_id w1 = w_id w \<and> w_mem w1 = w_mem w \<and>
    next_wr w \<le> next_wr w1"
proof -
  obtain n k where n: "GetWorkPsn w = (n, w \<lparr> wr_psn := k \<rparr>)"
    by (cases "wr_psn w + 1 = 0") (auto simp: GetWorkPsn_def Let_def)
  let ?l = "(copy_WorkRequest wr) \<lparr> wr_op := INVALIDATE_FORWARD, wr_parent := Some r, wr_id := n, wr_pwid := c,
    wr_counter := int (length (d_shared e)) \<rparr>"
  let ?w = "w \<lparr> wr_psn := k, wrs := (wrs w)(next_wr w \<mapsto> ?l), next_wr := Suc (next_wr w) \<rparr>"
  have f: "\<forall>a \<in> set (d_shared e). known ?w a" "wrs ?w (next_wr w) = Some ?l" "wr_op ?l = INVALIDATE_FORWARD"
    using assms(1) by (simp_all add: known_def)
  have "wrs w (next_wr w) = None" using assms(4) by (simp add: heap_ok_def)
  then have "(wrs w)(next_wr w := None) = wrs w" by (simp add: fun_upd_idem)
  then show ?thesis
    using forward_invalidate_eq [OF f, of c True] assms(2,3) n
    by (intro exI [of _ "wr_del (next_wr w) (?w \<lparr> wrs := (wrs ?w)(next_wr w \<mapsto> ?l \<lparr> wr_counter := 0 \<rparr>) \<rparr>)"])
      (simp add: remote_write_shared_def Let_def wr_new_def wr_del_def)
qed

lemma ProcessRemoteWrite_cases:
  assumes "wrs w r = Some wr" "home_ok w"
  obtains (queued) "ProcessRemoteWrite c r w = Some (AddToServeRemoteRequest (wr_addr wr) c r w)"
      "dir_InTransition_entry (entry_of wr w) \<or> dir_IsBlockLocked (entry_of wr w)"
  | (refused) "ProcessRemoteWrite c r w = refuse_lock WRITE_REPLY c r (wr_upd r (\<lambda>x. x \<lparr> wr_counter := 0 \<rparr>) w)"
      "dir_IsBlockLocked (entry_of wr w)" "flg TRY_LOCK wr"
  | (granted) w1 ms where "ProcessRemoteWrite c r w = remote_write_grant c r w1" "wrs w1 = wrs w" "w_dir w1 = w_dir w"
      "outbox w1 = outbox w @ ms" "\<forall>m \<in> set ms. \<exists>d p. m = MWrite c d p" "widCliMap w1 = widCliMap w" "w_base w1 = w_base w" "w_id w1 = w_id w"
      "\<not> dir_InTransition_entry (entry_of wr w)" "\<not> dir_IsBlockLocked (entry_of wr w)" "dir_GetState (entry_of wr w) \<noteq> DIR_DIRTY"
      "\<forall>e. entry_of wr w = Some e \<longrightarrow> others c (d_shared e) = []" "next_wr w \<le> next_wr w1"
  | (invalidating) e where "ProcessRemoteWrite c r w = remote_write_shared e c r w" "entry_of wr w = Some e"
      "others c (d_shared e) \<noteq> []" "d_state e = DIR_SHARED" "d_locks e = []"
  | (forwarded) e where "ProcessRemoteWrite c r w = remote_write_forward c r w" "entry_of wr w = Some e" "d_state e = DIR_DIRTY"
proof -
  consider "dir_InTransition (dir_GetState (entry_of wr w))" | "dir_GetState (entry_of wr w) = DIR_DIRTY"
    | "dir_GetState (entry_of wr w) \<in> {DIR_SHARED, DIR_UNSHARED}" "dir_IsBlockLocked (entry_of wr w)"
    | "dir_GetState (entry_of wr w) = DIR_SHARED" "\<not> dir_IsBlockLocked (entry_of wr w)"
    | "dir_GetState (entry_of wr w) = DIR_UNSHARED" "\<not> dir_IsBlockLocked (entry_of wr w)"
    by (cases "dir_GetState (entry_of wr w)") (auto simp: dir_InTransition_def)
  then show thesis
  proof cases
    case 1
    with assms(1) queued show ?thesis
      by (auto simp: ProcessRemoteWrite_def Let_def dir_InTransition_entry_def dir_GetState_def dir_InTransition_def split: option.splits)
  next
    case 2
    with assms(1) forwarded show ?thesis
      by (auto simp: ProcessRemoteWrite_def Let_def dir_GetState_def dir_InTransition_def split: option.splits)
  next
    case 3
    then have "\<not> dir_InTransition (dir_GetState (entry_of wr w))" by (auto simp: dir_InTransition_def)
    with 3 assms(1) queued refused show ?thesis by (cases "flg TRY_LOCK wr") (auto simp: ProcessRemoteWrite_def Let_def)
  next
    case 4
    then obtain e where e: "entry_of wr w = Some e" "d_state e = DIR_SHARED" "d_locks e = []"
      by (auto simp: dir_GetState_def dir_IsBlockLocked_def split: option.splits)
    then have p: "ProcessRemoteWrite c r w = remote_write_shared e c r w"
      using assms(1) by (simp add: ProcessRemoteWrite_def Let_def dir_GetState_def dir_InTransition_def dir_IsBlockLocked_def)
    show ?thesis
    proof (cases "others c (d_shared e) = []")
      case True
      obtain w1 where "remote_write_shared e c r w = remote_write_grant c r w1" "wrs w1 = wrs w" "w_dir w1 = w_dir w"
        "outbox w1 = outbox w" "widCliMap w1 = widCliMap w" "w_base w1 = w_base w" "w_id w1 = w_id w" "next_wr w \<le> next_wr w1"
        using remote_write_sole_eq [OF home_okD(3) [OF assms(2) e(1)] assms(1) True] assms(2) by (auto simp: home_ok_def)
      with p e True 4 granted [of w1 "[]"] show ?thesis by (auto simp: dir_InTransition_entry_def dir_InTransition_def)
    qed (use invalidating p e in blast)
  next
    case 5
    have "d_shared e = []" if "entry_of wr w = Some e" for e
      using home_okD(2) [OF assms(2) that] 5 that by (simp add: entry_wf_def dir_GetState_def)
    moreover have "ProcessRemoteWrite c r w = remote_write_grant c r (cli_Write c (wr_ptr wr) (ToLocal w (wr_addr wr)) (unat (wr_size wr)) w)"
      using 5 assms(1) by (simp add: ProcessRemoteWrite_def Let_def dir_InTransition_def remote_write_unshared_def)
    ultimately show ?thesis
      using 5 granted [of "cli_Write c (wr_ptr wr) (ToLocal w (wr_addr wr)) (unat (wr_size wr)) w"
          "[MWrite c (wr_ptr wr) (load (ToLocal w (wr_addr wr)) (unat (wr_size wr)) (w_mem w))]"]
      by (auto simp: cli_Write_def emit_def dir_InTransition_entry_def dir_InTransition_def dir_GetState_def split: option.splits)
  qed
qed

lemma refuse_lock_eq:
  assumes "wrs w r = Some wr"
  shows "refuse_lock op c r w = Some (w \<lparr> outbox := outbox w @ [MSend c (wire w (wr \<lparr> wr_status := LOCK_FAILED, wr_op := op \<rparr>))],
    wrs := (wrs w)(r := None) \<rparr>)"
  using assms by (simp add: refuse_lock_def SubmitRequest_rec wr_upd_def wr_del_def wire_def wire_data_def fun_upd_same del: fun_upd_apply)

lemma entry_of_simps [simp]:
  "entry_of x (w \<lparr> wrs := h \<rparr>) = entry_of x w" "entry_of x (w \<lparr> outbox := ms \<rparr>) = entry_of x w"
  "entry_of x (AddToServeRemoteRequest a c r w) = entry_of x w"
  by (simp_all add: entry_of_def ToLocal_def AddToServeRemoteRequest_def)

lemma granted_entry:
  assumes "remote_write_grant c r w1 = Some w'" "wrs w1 r = Some wr" "cli_ToGlobal w1 c (wr_ptr wr) = Some g" "dir_wf (w_dir w1)"
  shows "\<exists>e'. entry_of wr w' = Some e' \<and> d_state e' = DIR_DIRTY \<and> d_shared e' = [g]"
proof -
  let ?l = "ToLocal w1 (wr_addr wr)"
  have "\<forall>e. w_dir w1 (TOBLOCK ?l) = Some e \<longrightarrow> d_addr e = TOBLOCK ?l" using assms(4) by (auto simp: dir_wf_def)
  from ToDirty_at [of "w_dir w1" ?l g] this remote_write_grant_eq [OF assms(2,3)] assms(1) show ?thesis
    by (auto simp: entry_of_def ToLocal_def dir_GetEntry_def)
qed

text \<open>
  C3: a home node gives a block to a writer only if no other node shares it, no thread holds
  a lock on it and no request for it is under way; afterwards the writer is the only
  owner the directory knows.
\<close>

theorem write_granted_to_sole_holder:
  assumes "wrs w r = Some wr" "home_ok w" "cli_ToGlobal w c (wr_ptr wr) = Some g"
    and "ProcessRemoteWrite c r w = Some w'" "dir_GetState (entry_of wr w') = DIR_DIRTY" "dir_GetState (entry_of wr w) \<noteq> DIR_DIRTY"
  shows "\<not> dir_InTransition_entry (entry_of wr w) \<and> \<not> dir_IsBlockLocked (entry_of wr w) \<and>
    (\<forall>e. entry_of wr w = Some e \<longrightarrow> others c (d_shared e) = []) \<and> (\<exists>e'. entry_of wr w' = Some e' \<and> d_shared e' = [g])"
  using assms(1,2)
proof (cases rule: ProcessRemoteWrite_cases [where c = c])
  case queued
  with assms(4-6) show ?thesis by auto
next
  case refused
  have "wrs (wr_upd r (\<lambda>x. x \<lparr> wr_counter := 0 \<rparr>) w) r = Some (wr \<lparr> wr_counter := 0 \<rparr>)" using assms(1) by simp
  from refuse_lock_eq [OF this] refused(1) assms(4-6) show ?thesis by (auto simp: wr_upd_def)
next
  case (granted w1 ms)
  have "remote_write_grant c r w1 = Some w'" using granted(1) assms(4) by simp
  moreover have "wrs w1 r = Some wr" "dir_wf (w_dir w1)" using granted(2,3) assms(1,2) by (simp_all add: home_ok_def)
  moreover have "cli_ToGlobal w1 c (wr_ptr wr) = Some g" using granted(6) assms(3) by (simp add: cli_ToGlobal_def)
  ultimately have "\<exists>e'. entry_of wr w' = Some e' \<and> d_state e' = DIR_DIRTY \<and> d_shared e' = [g]" by (intro granted_entry)
  with granted(9,10,12) show ?thesis by blast
next
  case (invalidating e)
  obtain n w1 where n: "GetWorkPsn w = (n, w1)" by fastforce
  have "w_dir w' = dir_ToToDirty_entry e (w_dir w)" "w_base w' = w_base w"
    using remote_write_shared_eq [OF home_okD(3) [OF assms(2) invalidating(2)] assms(1) n invalidating(3)]
      invalidating(1) assms(4) GetWorkPsn_simps(10) [OF n] by auto
  then have "entry_of wr w' = Some (e \<lparr> d_state := DIR_TO_DIRTY \<rparr>)"
    using home_okD(1) [OF assms(2) invalidating(2)]
    by (simp add: entry_of_def ToLocal_def dir_GetEntry_def dir_ToToDirty_entry_def put_entry_def)
  with assms(5) show ?thesis by (simp add: dir_GetState_def)
next
  case (forwarded e)
  with assms(6) show ?thesis by (simp add: dir_GetState_def)
qed

subsection \<open>No request is lost at the home node\<close>

text \<open>The three things that can happen to request \<open>r\<close> of client \<open>c\<close>.\<close>

definition queued :: "32 word \<Rightarrow> nat \<Rightarrow> WorkRequest \<Rightarrow> Worker \<Rightarrow> Worker \<Rightarrow> bool" where
  "queued c r wr w w' \<longleftrightarrow> (\<exists>q. to_serve_requests w' (wr_addr wr) = Some (q @ [(c, r)])) \<and> outbox w' = outbox w \<and> wrs w' r = Some wr"

definition answered :: "32 word \<Rightarrow> nat \<Rightarrow> WorkRequest \<Rightarrow> Worker \<Rightarrow> Worker \<Rightarrow> bool" where
  "answered c r wr w w' \<longleftrightarrow> wrs w' r = None \<and>
     ((\<exists>ms x. outbox w' = outbox w @ ms @ [MSend c (wire w x)] \<and> is_reply (wr_op x) \<and> wr_id x = wr_id wr) \<or>
      (\<exists>d. outbox w' = outbox w @ [MWriteImm c (wr_ptr wr) d (wr_id wr) None]))"

definition under_way :: "nat \<Rightarrow> WorkRequest \<Rightarrow> Worker \<Rightarrow> Worker \<Rightarrow> bool" where
  "under_way r wr w w' \<longleftrightarrow> wrs w' r = Some wr \<and>
     (\<exists>n l x to tos. pending_works w' n = Some l \<and> wrs w' l = Some x \<and> wr_parent x = Some r \<and>
        outbox w' = outbox w @ map (\<lambda>t. MSend t (wire w x)) (to # tos))"

lemma under_wayI:
  "wrs w' r = Some wr \<Longrightarrow> pending_works w' n = Some l \<Longrightarrow> wrs w' l = Some x \<Longrightarrow> wr_parent x = Some r \<Longrightarrow>
   outbox w' = outbox w @ map (\<lambda>t. MSend t (wire w x)) (to # tos) \<Longrightarrow> under_way r wr w w'"
  unfolding under_way_def by blast

lemma replies: "\<not> is_reply READ_FORWARD" "\<not> is_reply WRITE_FORWARD" "is_reply WRITE_REPLY" "is_reply READ_REPLY"
  by code_simp+

lemma forward_pending:
  assumes "wrs w r = Some wr" "heap_ok w" "\<not> is_reply op" "l = forward_request wr op r c"
  shows "\<exists>w'. SubmitPending cli (next_wr w) (on_dir f (snd (wr_new l w))) = Some w' \<and> under_way r wr w w'"
proof -
  let ?w = "on_dir f (snd (wr_new l w))" and ?x = "l \<lparr> wr_wid := w_id w \<rparr>"
  obtain n w1 where n: "GetWorkPsn ?w = (n, w1)" by fastforce
  let ?w' = "emit (MSend cli (wire ?w (l \<lparr> wr_id := n \<rparr>)))
      (AddToPending n (next_wr w) (wr_upd (next_wr w) (\<lambda>x. x \<lparr> wr_wid := w_id ?w, wr_id := n \<rparr>) w1))"
  have r: "r \<noteq> next_wr w" using heap_ok_fresh [OF assms(2,1)] .
  have op: "wr_op l = op" "wr_parent l = Some r" by (simp_all add: assms(4) forward_request_def)
  have "wrs ?w (next_wr w) = Some l" by (simp add: wr_new_def on_dir_def)
  from SubmitPending_eq [OF this _ n, of cli] op assms(3) have "SubmitPending cli (next_wr w) ?w = Some ?w'" by simp
  moreover have "wire ?w (l \<lparr> wr_id := n \<rparr>) = wire w (?x \<lparr> wr_id := n \<rparr>)"
    by (simp add: wire_def wire_data_def wr_new_def on_dir_def wid_id_commute)
  with GetWorkPsn_simps(1-3) [OF n] r op(2) assms(1) have "under_way r wr w ?w'"
    by (intro under_wayI [of ?w' r wr n "next_wr w" "?x \<lparr> wr_id := n \<rparr>" w cli "[]"])
      (simp_all add: emit_def AddToPending_def wr_upd_def wr_new_def on_dir_def)
  ultimately show ?thesis by blast
qed

lemma fst_wr_new [simp]: "fst (wr_new l w) = next_wr w"
  by (simp add: wr_new_def)

lemma GetClient_new: "known w a \<Longrightarrow> GetClient (snd (wr_new l w)) a = Some (wid_of a)"
  by (rule GetClient_known) (simp add: known_def wr_new_def)

lemma forward_under_way:
  assumes "wrs w r = Some wr" "home_ok w" "entry_of wr w = Some e" "d_state e = DIR_DIRTY"
  shows "\<exists>w'. remote_read_forward c r w = Some w' \<and> under_way r wr w w'"
    and "wr_op wr \<in> {WRITE, WRITE_PERMISSION_ONLY} \<Longrightarrow> \<exists>w'. remote_write_forward c r w = Some w' \<and> under_way r wr w w'"
proof -
  obtain a where a: "d_shared e = [a]"
    using home_okD(2) [OF assms(2,3)] assms(4) by (auto simp: entry_wf_def length_Suc_conv)
  then have k: "known w a" using home_okD(3) [OF assms(2,3)] by simp
  have h: "heap_ok w" using assms(2) by (simp add: home_ok_def)
  note fwd = forward_pending [OF assms(1) h _ refl] GetClient_new [OF k]
  show "\<exists>w'. remote_read_forward c r w = Some w' \<and> under_way r wr w w'"
    using fwd(1) [where op = READ_FORWARD and c = c and cli = "wid_of a" and f = "dir_ToToShared_entry e"] fwd(2) assms(1,3) a
    by (simp add: remote_read_forward_def Let_def front_sharer_def split_beta replies)
  show "wr_op wr \<in> {WRITE, WRITE_PERMISSION_ONLY} \<Longrightarrow> \<exists>w'. remote_write_forward c r w = Some w' \<and> under_way r wr w w'"
    using fwd(1) [where op = WRITE_FORWARD and c = c and cli = "wid_of a" and f = "dir_ToToDirty_entry e"] fwd(2) assms(1,3) a
    by (auto simp: remote_write_forward_def Let_def front_sharer_def split_beta replies)
qed

lemma queuedI: "wrs w r = Some wr \<Longrightarrow> queued c r wr w (AddToServeRemoteRequest (wr_addr wr) c r w)"
  by (auto simp: queued_def AddToServeRemoteRequest_def split: option.splits)

lemma answeredI:
  "wrs w' r = None \<Longrightarrow> outbox w' = outbox w @ ms @ [MSend c (wire w x)] \<Longrightarrow> is_reply (wr_op x) \<Longrightarrow> wr_id x = wr_id wr \<Longrightarrow>
   answered c r wr w w'"
  unfolding answered_def by blast

lemma refuse_answered:
  assumes "wrs w r = Some x" "is_reply op" "wr_id x = wr_id wr" "outbox w = outbox w0" "w_id w = w_id w0" "w_mem w = w_mem w0"
  shows "\<exists>w'. refuse_lock op c r w = Some w' \<and> answered c r wr w0 w'"
proof -
  let ?x = "x \<lparr> wr_status := LOCK_FAILED, wr_op := op \<rparr>"
  let ?w = "w \<lparr> outbox := outbox w @ [MSend c (wire w ?x)], wrs := (wrs w)(r := None) \<rparr>"
  have "answered c r wr w0 ?w"
    using assms by (intro answeredI [where ms = "[]" and x = ?x]) (simp_all add: wire_def)
  with refuse_lock_eq [OF assms(1), of op c] show ?thesis by blast
qed

lemma read_grant_answered:
  assumes "wrs w r = Some wr" "cli_ToGlobal w c (wr_ptr wr) = Some g"
  shows "\<exists>w'. remote_read_grant c r w = Some w' \<and> answered c r wr w w'"
  using assms
  by (auto simp: remote_read_grant_def Let_def answered_def cli_WriteWithImm_def emit_def on_dir_def wr_del_def)

lemma write_grant_answered:
  assumes "wrs w1 r = Some wr" "cli_ToGlobal w1 c (wr_ptr wr) = Some g" "outbox w1 = outbox w @ ms" "w_id w1 = w_id w"
  shows "\<exists>w'. remote_write_grant c r w1 = Some w' \<and> answered c r wr w w'"
proof -
  let ?x = "wr \<lparr> wr_op := WRITE_REPLY, wr_status := SUCCESS, wr_counter := 0 \<rparr>"
  have "wire w1 ?x = wire w ?x" using assms(4) by (simp add: wire_def wire_data_def)
  with remote_write_grant_eq [OF assms(1,2)] assms(3) replies(3) show ?thesis
    by (auto intro!: answeredI [where ms = ms and x = ?x])
qed


lemma read_fate:
  assumes "wrs w r = Some wr" "home_ok w" "cli_ToGlobal w c (wr_ptr wr) = Some g"
  shows "\<exists>w'. ProcessRemoteRead c r w = Some w' \<and> (queued c r wr w w' \<or> answered c r wr w w' \<or> under_way r wr w w')"
proof -
  consider (wait) "dir_InTransition_entry (entry_of wr w)"
    | (locked) "\<not> dir_InTransition_entry (entry_of wr w)" "dir_GetState (entry_of wr w) \<noteq> DIR_DIRTY" "dir_IsBlockWLocked (entry_of wr w)"
    | (grant) "\<not> dir_InTransition_entry (entry_of wr w)" "dir_GetState (entry_of wr w) \<noteq> DIR_DIRTY" "\<not> dir_IsBlockWLocked (entry_of wr w)"
    | (owner) e where "\<not> dir_InTransition_entry (entry_of wr w)" "entry_of wr w = Some e" "d_state e = DIR_DIRTY"
    by (cases "entry_of wr w") (auto simp: dir_GetState_def)
  then show ?thesis
  proof cases
    case wait
    with assms(1) queuedI [OF assms(1)] show ?thesis by (auto simp: ProcessRemoteRead_def Let_def)
  next
    case locked
    with assms(1) queuedI [OF assms(1)] refuse_answered [OF assms(1) replies(4), of wr w c] show ?thesis
      by (auto simp: ProcessRemoteRead_def Let_def)
  next
    case grant
    with assms(1) read_grant_answered [OF assms(1,3)] show ?thesis by (auto simp: ProcessRemoteRead_def Let_def)
  next
    case owner
    with assms(1) forward_under_way(1) [OF assms(1,2) owner(2,3), of c] show ?thesis
      by (auto simp: ProcessRemoteRead_def Let_def dir_GetState_def)
  qed
qed

lemma write_fate:
  assumes "wrs w r = Some wr" "home_ok w" "cli_ToGlobal w c (wr_ptr wr) = Some g" "wr_op wr \<in> {WRITE, WRITE_PERMISSION_ONLY}"
  shows "\<exists>w'. ProcessRemoteWrite c r w = Some w' \<and> (queued c r wr w w' \<or> answered c r wr w w' \<or> under_way r wr w w')"
  using assms(1,2)
proof (cases rule: ProcessRemoteWrite_cases [where c = c])
  case queued
  with queuedI [OF assms(1)] show ?thesis by auto
next
  case refused
  with refuse_answered [of "wr_upd r (\<lambda>x. x \<lparr> wr_counter := 0 \<rparr>) w" r "wr \<lparr> wr_counter := 0 \<rparr>" WRITE_REPLY wr w c] assms(1) replies(3)
  show ?thesis by (auto simp: wr_upd_def)
next
  case (granted w1 ms)
  have "cli_ToGlobal w1 c (wr_ptr wr) = Some g" using granted(6) assms(3) by (simp add: cli_ToGlobal_def)
  from write_grant_answered [OF _ this granted(4,8)] granted(1,2) assms(1) show ?thesis by auto
next
  case (invalidating e)
  obtain n w1 where n: "GetWorkPsn w = (n, w1)" by fastforce
  obtain t ts where o: "others c (d_shared e) = t # ts" using invalidating(3) by (cases "others c (d_shared e)") auto
  have "r \<noteq> next_wr w" using assms(1,2) heap_ok_fresh by (auto simp: home_ok_def)
  with remote_write_shared_eq [OF home_okD(3) [OF assms(2) invalidating(2)] assms(1) n invalidating(3)] invalidating(1) assms(1) o
  show ?thesis by (auto simp: wire_forward intro!: under_wayI [where n = n and to = t and tos = ts])
next
  case (forwarded e)
  with forward_under_way(2) [OF assms(1,2) forwarded(2,3) assms(4), of c] show ?thesis by auto
qed

text \<open>
  C1: a home node that gets a read or write request always comes to an end with it, and the request
  is never lost. It is appended to the queue of its block, or answered with its own id and
  then released, or it stays in memory as the parent of a pending request of the home node
  which at least one other node has been asked to serve.
\<close>

theorem home_never_loses_a_request:
  assumes "wrs w r = Some wr" "wr_op wr \<in> {READ, WRITE, WRITE_PERMISSION_ONLY}" "home_ok w" "widCliMap w c \<noteq> None"
  shows "\<exists>w'. ProcessRequest NT TS c r w = Some w' \<and> (queued c r wr w w' \<or> answered c r wr w w' \<or> under_way r wr w w')"
proof -
  obtain g where "cli_ToGlobal w c (wr_ptr wr) = Some g" using assms(4) by (auto simp: cli_ToGlobal_def)
  from read_fate [OF assms(1,3) this] write_fate [OF assms(1,3) this] assms(1,2) show ?thesis
    by (auto simp: ProcessRequest_def)
qed

lemma demo_home_ok: "home_ok (demo_home op)" "home_ok ((demo_home op) \<lparr> w_dir := Map.empty \<rparr>)"
proof -
  have "entry_wf demo_entry"
    by (simp add: entry_wf_def demo_defs locks_wf_def locks_in_def BLOCK_ALIGNED_def BLOCK_MASK_def WID_def locks_block_wlocked_def)
  moreover have "w_dir (demo_home op) = [0x2000 \<mapsto> demo_entry]" "d_addr demo_entry = 0x2000" by (simp_all add: demo_defs)
  moreover have "known ((demo_home op) \<lparr> w_dir := d \<rparr>) a = known (demo_home op) a" for d a by (simp add: known_def)
  ultimately show "home_ok (demo_home op)" "home_ok ((demo_home op) \<lparr> w_dir := Map.empty \<rparr>)"
    by (auto simp: home_ok_def dir_wf_def heap_ok_def split: if_splits)
qed

theorem home_never_loses_a_request_witness:
  "\<exists>w'. ProcessRequest (\<lambda>_. Some) (\<lambda>_. Some) 4 0 (demo_home READ) = Some w' \<and>
     (queued 4 0 (demo_request READ) (demo_home READ) w' \<or> answered 4 0 (demo_request READ) (demo_home READ) w' \<or>
      under_way 0 (demo_request READ) (demo_home READ) w')"
  using home_never_loses_a_request [of "demo_home READ" 0 "demo_request READ" 4] demo_home_ok
  by (simp add: demo_request_def) (simp add: demo_home_def demo_worker_def)

theorem write_granted_to_sole_holder_witness:
  "\<exists>w' e'. ProcessRemoteWrite 4 0 ((demo_home WRITE) \<lparr> w_dir := Map.empty \<rparr>) = Some w' \<and>
     entry_of (demo_request WRITE) w' = Some e' \<and> d_shared e' = [0x4000000008000]"
proof -
  let ?w = "(demo_home WRITE) \<lparr> w_dir := Map.empty \<rparr>" and ?r = "demo_request WRITE"
  have r: "wrs ?w 0 = Some ?r" by simp
  have n: "entry_of ?r ?w = None" by (simp add: entry_of_def dir_GetEntry_def)
  have g: "cli_ToGlobal ?w 4 (wr_ptr ?r) = Some 0x4000000008000"
    by (simp add: demo_defs cli_ToGlobal_def TO_GLOB_def)
  let ?w1 = "cli_Write 4 (wr_ptr ?r) (ToLocal ?w (wr_addr ?r)) (unat (wr_size ?r)) ?w"
  have 1: "ProcessRemoteWrite 4 0 ?w = remote_write_grant 4 0 ?w1"
    using r n by (simp add: ProcessRemoteWrite_def Let_def dir_GetState_def dir_InTransition_def dir_IsBlockLocked_def remote_write_unshared_def)
  have w1: "wrs ?w1 0 = Some ?r" "cli_ToGlobal ?w1 4 (wr_ptr ?r) = Some 0x4000000008000" "dir_wf (w_dir ?w1)"
    using r g by (simp_all add: cli_Write_def emit_def dir_wf_def)
  obtain w' where w': "remote_write_grant 4 0 ?w1 = Some w'" using remote_write_grant_eq [OF w1(1,2)] by blast
  have "dir_GetState (entry_of ?r w') = DIR_DIRTY" using granted_entry [OF w' w1] by (auto simp: dir_GetState_def)
  with write_granted_to_sole_holder [OF r demo_home_ok(2) g] 1 w' n show ?thesis by (auto simp: dir_GetState_def)
qed

end
