(* ===== verification/Local_Access.thy ===== *)
theory Local_Access
  imports Worker_Facts
begin

text \<open>
  Reads and writes of an application thread on memory of its own node. The handlers copy block by
  block and look every block up in the directory; here the loop is shown to be one \<open>memcpy\<close> as
  long as no block is dirty elsewhere or in transition (for a write, shared).
\<close>

subsection \<open>Copying in pieces\<close>

text \<open>Two buffers of \<open>n\<close> bytes without a common byte.\<close>

definition apart :: "ptr \<Rightarrow> ptr \<Rightarrow> nat \<Rightarrow> bool" where
  "apart p q n \<longleftrightarrow> (\<forall>x. \<not> (in_range p n x \<and> in_range q n x))"

lemma apart_sym: "apart p q n \<longleftrightarrow> apart q p n"
  by (auto simp: apart_def)

lemma apart_mono: "apart p q n \<Longrightarrow> k \<le> n \<Longrightarrow> apart p q k"
  unfolding apart_def in_range_def by (meson less_le_trans)

lemma apart_dist:
  assumes "n \<le> unat (p - q)" "n \<le> unat (q - p)"
  shows "apart p q n"
  unfolding apart_def in_range_def
proof (intro allI notI, elim conjE)
  fix x
  assume x: "unat (x - p) < n" "unat (x - q) < n"
  show False
  proof (cases "x - p \<le> x - q")
    case True
    from unat_sub [OF this] x assms(1) show False by simp
  next
    case False
    then have "x - q \<le> x - p" by simp
    from unat_sub [OF this] x assms(2) show False by simp
  qed
qed

lemma in_range_shift:
  assumes "a + b < 2 ^ 64"
  shows "in_range (p + of_nat a) b x \<longleftrightarrow> a \<le> unat (x - p) \<and> unat (x - p) < a + b"
proof -
  let ?d = "x - p"
  have a: "unat (of_nat a :: 64 word) = a" using assms by (simp add: unat_of_nat)
  have e: "x - (p + of_nat a) = ?d - of_nat a" by simp
  show ?thesis
  proof (cases "a \<le> unat ?d")
    case True
    then have "unat (?d - of_nat a) = unat ?d - a" using a by (metis unat_sub word_le_nat_alt)
    with True show ?thesis unfolding in_range_def e by auto
  next
    case False
    then have "unat (?d - of_nat a) = 2 ^ 64 + unat ?d - a"
      using a by (simp add: unat_sub_if' word_size)
    with False assms show ?thesis unfolding in_range_def e by auto
  qed
qed

lemma memcpy_split:
  assumes "apart p q (a + b)" "a + b < 2 ^ 64"
  shows "memcpy (p + of_nat a) (q + of_nat a) b (memcpy p q a m) = memcpy p q (a + b) m"
proof
  fix x
  let ?d = "x - p"
  have "\<not> in_range p a (q + ?d)" if "unat ?d < a + b"
    using assms(1) that unfolding apart_def in_range_def by (metis add_diff_cancel_left' less_or_eq_imp_le trans_less_add1)
  then show "memcpy (p + of_nat a) (q + of_nat a) b (memcpy p q a m) x = memcpy p q (a + b) m x"
    using in_range_shift [OF assms(2), of p x]
    by (auto simp: memcpy_def in_range_def)
qed

subsection \<open>The block loop copies the whole request\<close>

definition copy_block :: "ptr \<Rightarrow> ptr \<Rightarrow> gaddr \<Rightarrow> gaddr \<Rightarrow> gaddr \<Rightarrow> mem \<Rightarrow> mem" where
  "copy_block d s start e i =
     memcpy (d + (seg_start start i - start)) (s + (seg_start start i - start)) (seg_len start e i)"

text \<open>How much of the request lies below block \<open>i\<close>.\<close>

definition before :: "gaddr \<Rightarrow> gaddr \<Rightarrow> gaddr \<Rightarrow> nat" where
  "before start e i = min (unat e) (max (unat start) (unat i)) - unat start"

lemma copy_block_next:
  assumes "BLOCK_ALIGNED i" "unat start < unat i + 4096" "unat start < unat e" "unat e + 4096 \<le> 2 ^ 64" "i < e"
    and "apart d s (unat e - unat start)"
  shows "copy_block d s start e i (memcpy d s (before start e i) m) = memcpy d s (before start e (BADD i 1)) m"
proof -
  from assms(4,5) have lt: "unat i < unat e" and nowrap: "unat i + 4096 < 2 ^ 64" by (simp_all add: word_less_nat_alt)
  let ?a = "before start e i" and ?b = "seg_len start e i"
  have "start \<le> seg_start start i" by (simp add: word_le_nat_alt unat_seg_start)
  then have "unat (seg_start start i - start) = ?a"
    using assms(3) lt by (simp add: unat_sub unat_seg_start before_def)
  then have off: "seg_start start i - start = of_nat ?a" by (metis of_nat_unat ucast_id)
  have sum: "?a + ?b = before start e (BADD i 1)"
    using seg_len_eq [OF assms(1) nowrap assms(2) lt assms(3)] unat_BADD [OF assms(1) nowrap] assms(2,3) lt
    by (auto simp: before_def max_def min_def)
  have le: "?a + ?b \<le> unat e - unat start" unfolding sum by (simp add: before_def)
  then have "apart d s (?a + ?b)" by (rule apart_mono [OF assms(6)])
  moreover have "?a + ?b < 2 ^ 64" using le assms(4) by linarith
  ultimately show ?thesis unfolding copy_block_def off by (simp add: memcpy_split sum [symmetric])
qed

lemma copy_blocks:
  assumes "blocks_from i e = Some bs" "BLOCK_ALIGNED i" "unat start < unat i + 4096" "unat start < unat e"
    and "unat e + 4096 \<le> 2 ^ 64" "apart d s (unat e - unat start)"
  shows "fold (copy_block d s start e) bs (memcpy d s (before start e i) m) = memcpy d s (unat e - unat start) m"
  using assms(1-3)
proof (induction bs arbitrary: i)
  case Nil
  then have "\<not> i < e" by (subst (asm) blocks_from.simps) (auto split: if_splits simp: bind_Some_iff)
  with assms(4) show ?case by (simp add: before_def word_less_nat_alt)
next
  case (Cons j bs)
  then have *: "i < e" "j = i" "blocks_from (BADD i 1) e = Some bs"
    using blocks_from.simps [of i e] by (auto split: if_splits simp: bind_Some_iff)
  from *(1) assms(5) have "unat i + 4096 < 2 ^ 64" by (simp add: word_less_nat_alt)
  from unat_BADD [OF Cons.prems(2) this] have "unat start < unat (BADD i 1) + 4096" using Cons.prems(3) by simp
  from Cons.IH [OF *(3) _ this] copy_block_next [OF Cons.prems(2,3) assms(4,5) *(1) assms(6), of m] *(2)
  show ?case by simp
qed

lemma copy_request:
  assumes "blocks_from (TOBLOCK start) e = Some bs" "unat start < unat e" "unat e + 4096 \<le> 2 ^ 64" "apart d s (unat e - unat start)"
  shows "fold (copy_block d s start e) bs m = memcpy d s (unat e - unat start) m"
proof -
  have "unat (TOBLOCK start) \<le> unat start" "unat start < unat (TOBLOCK start) + 4096"
    by (simp_all add: unat_TOBLOCK)
  moreover from this(1) have "before start e (TOBLOCK start) = 0" by (simp add: before_def max_def)
  ultimately show ?thesis using copy_blocks [OF assms(1) BLOCK_ALIGNED_TOBLOCK _ assms(2-4), of m] by simp
qed

subsection \<open>The loops of the handlers\<close>

text \<open>The bytes of the request stay within the memory of one worker.\<close>

definition in_one_worker :: "gaddr \<Rightarrow> nat \<Rightarrow> bool" where
  "in_one_worker start n \<longleftrightarrow> unat (OFF start) + n \<le> 2 ^ 48 \<and> unat start + n + 4096 \<le> 2 ^ 64"

lemma OFF_add:
  assumes "unat (OFF a) + unat k < 2 ^ 48" "unat a + unat k < 2 ^ 64"
  shows "OFF (a + k) = OFF a + k"
proof -
  have off: "unat (OFF x) = unat x mod 2 ^ 48" for x by (simp add: OFF_eq_take_bit take_bit_eq_mod unat_mod_distrib)
  have "unat (OFF (a + k)) = (unat a + unat k) mod 2 ^ 48" using assms(2) by (simp add: off unat_add_lem [THEN iffD1])
  also have "\<dots> = unat a mod 2 ^ 48 + unat k"
    using assms(1) unfolding off by (metis mod_add_left_eq mod_less)
  also have "\<dots> = unat (OFF a + k)" using assms(1) by (simp add: off unat_add_lem [THEN iffD1])
  finally show ?thesis by (simp add: word_unat_eq_iff)
qed

lemma ToLocal_seg:
  assumes "in_one_worker start n" "unat e = unat start + n" "i < e" "0 < n"
  shows "ToLocal w (seg_start start i) = ToLocal w start + (seg_start start i - start)"
proof -
  let ?k = "seg_start start i - start"
  have le: "start \<le> seg_start start i" and lt: "unat (seg_start start i) < unat start + n"
    using assms(2-4) by (simp_all add: word_le_nat_alt word_less_nat_alt unat_seg_start)
  from unat_sub [OF le] lt assms(4) have "unat ?k < n" by linarith
  with assms(1) have "OFF (start + ?k) = OFF start + ?k"
    by (intro OFF_add) (simp_all add: in_one_worker_def)
  then show ?thesis by (simp add: ToLocal_def TO_LOCAL_def)
qed

definition readable :: "Worker \<Rightarrow> gaddr \<Rightarrow> bool" where
  "readable w i \<longleftrightarrow> dir_GetState (dir_GetEntry (w_dir w) (ToLocal w i)) \<in> {DIR_UNSHARED, DIR_SHARED}"

definition writable :: "Worker \<Rightarrow> gaddr \<Rightarrow> bool" where
  "writable w i \<longleftrightarrow> dir_GetState (dir_GetEntry (w_dir w) (ToLocal w i)) = DIR_UNSHARED"

lemma on_mem_simps [simp]:
  "wrs (on_mem f w) = wrs w" "w_dir (on_mem f w) = w_dir w" "ToLocal (on_mem f w) = ToLocal w" "IsLocal (on_mem f w) = IsLocal w"
  "w_mem (on_mem f w) = f (w_mem w)" "readable (on_mem f w) = readable w" "writable (on_mem f w) = writable w"
  "fences (on_mem f w) = fences w" "w_cache (on_mem f w) = w_cache w" "outbox (on_mem f w) = outbox w"
  by (auto simp: on_mem_def ToLocal_def IsLocal_def readable_def writable_def)

lemma on_mem_comp: "on_mem f (on_mem g w) = on_mem (f \<circ> g) w"
  by (simp add: on_mem_def)

lemma local_read_loop_eq:
  assumes "wrs w r = Some wr" "\<forall>i \<in> set bs. readable w i \<and> ToLocal w (seg_start start i) = ToLocal w start + (seg_start start i - start)"
  shows "local_read_loop start e bs r w = Some (Inr (on_mem (fold (copy_block (wr_ptr wr) (ToLocal w start) start e) bs) w))"
  using assms
proof (induction bs arbitrary: w)
  case Nil
  then show ?case by (simp add: on_mem_def)
next
  case (Cons i bs)
  then have "local_read_block start e i r w = Some (Inr (on_mem (copy_block (wr_ptr wr) (ToLocal w start) start e i) w))"
    by (auto simp: local_read_block_def readable_def dir_InTransition_def copy_block_def seg_ls_def GMINUS_def Let_def)
  moreover note Cons.IH [of "on_mem (copy_block (wr_ptr wr) (ToLocal w start) start e i) w"] Cons.prems
  ultimately show ?case by (simp add: on_mem_comp comp_def)
qed

lemma local_write_loop_eq:
  assumes "wrs w r = Some wr" "\<not> flg GFUNC wr"
    and "\<forall>i \<in> set bs. writable w i \<and> ToLocal w (seg_start start i) = ToLocal w start + (seg_start start i - start)"
  shows "local_write_loop start e bs r w = Some (Inr (r, on_mem (fold (copy_block (ToLocal w start) (wr_ptr wr) start e) bs) w))"
  using assms
proof (induction bs arbitrary: w)
  case Nil
  then show ?case by (simp add: on_mem_def)
next
  case (Cons i bs)
  then have "local_write_block start e i r w = Some (Inr (r, on_mem (copy_block (ToLocal w start) (wr_ptr wr) start e i) w))"
    by (auto simp: local_write_block_def writable_def dir_InTransition_def copy_block_def seg_ls_def GMINUS_def Let_def)
  moreover note Cons.IH [of "on_mem (copy_block (ToLocal w start) (wr_ptr wr) start e i) w"] Cons.prems
  ultimately show ?case by (simp add: on_mem_comp comp_def)
qed

subsection \<open>Properties\<close>

text \<open>A request of an application thread that no fence and no other thread holds up.\<close>

definition direct :: "Worker \<Rightarrow> WorkRequest \<Rightarrow> bool" where
  "direct w wr \<longleftrightarrow> \<not> flg TO_SERVE wr \<and> \<not> flg FENCE wr \<and> \<not> flg ASYNC wr \<and> \<not> flg GFUNC wr \<and> wr_counter wr = 0 \<and>
     IsLocal w (wr_addr wr) \<and> (\<exists>f. fences w (wr_fd wr) = Some f \<and> \<not> mfenced f \<and> \<not> sfenced f)"

text \<open>The blocks a request touches.\<close>

definition blocks_of :: "gaddr \<Rightarrow> nat \<Rightarrow> gaddr set" where
  "blocks_of start n = {i. BLOCK_ALIGNED i \<and> TOBLOCK start \<le> i \<and> i < GADD start (of_nat n)}"

lemma request_blocks:
  assumes "in_one_worker start n" "0 < n"
  shows "\<exists>bs. blocks_from (TOBLOCK start) (GADD start (of_nat n)) = Some bs \<and> unat (GADD start (of_nat n)) = unat start + n \<and>
    set bs \<subseteq> blocks_of start n \<and> (\<forall>i \<in> set bs. ToLocal w (seg_start start i) = ToLocal w start + (seg_start start i - start))"
proof -
  let ?e = "GADD start (of_nat n)"
  have e: "unat ?e = unat start + n"
    using assms by (simp add: GADD_def unat_word_ariths unat_of_nat in_one_worker_def)
  have "unat (TOBLOCK start) \<le> unat start" "unat start < unat (TOBLOCK start) + 4096"
    by (simp_all add: unat_TOBLOCK)
  with blocks_from_cover [of "TOBLOCK start" start ?e] assms e obtain bs where
    "blocks_from (TOBLOCK start) ?e = Some bs" "set bs \<subseteq> blocks_of start n"
    by (auto simp: in_one_worker_def blocks_of_def)
  with e ToLocal_seg [OF assms(1) e _ assms(2)] show ?thesis by (auto simp: blocks_of_def)
qed

lemma local_read_served:
  assumes "wrs w r = Some wr" "direct w wr" "wr_size wr = of_nat n" "0 < n" "in_one_worker (wr_addr wr) n"
    and "\<forall>i \<in> blocks_of (wr_addr wr) n. readable w i" "apart (wr_ptr wr) (ToLocal w (wr_addr wr)) n"
  shows "ProcessLocalRead NT r w =
    Some (SUCCESS, count_read True True (on_mem (memcpy (wr_ptr wr) (ToLocal w (wr_addr wr)) n) w))"
proof -
  let ?e = "GADD (wr_addr wr) (of_nat n)"
  obtain bs where bs: "blocks_from (TOBLOCK (wr_addr wr)) ?e = Some bs" "unat ?e = unat (wr_addr wr) + n"
    "set bs \<subseteq> blocks_of (wr_addr wr) n"
    "\<forall>i \<in> set bs. ToLocal w (seg_start (wr_addr wr) i) = ToLocal w (wr_addr wr) + (seg_start (wr_addr wr) i - wr_addr wr)"
    using request_blocks [OF assms(5,4)] by blast
  have "fold (copy_block (wr_ptr wr) (ToLocal w (wr_addr wr)) (wr_addr wr) ?e) bs m =
      memcpy (wr_ptr wr) (ToLocal w (wr_addr wr)) n m" for m
    using copy_request [OF bs(1), of "wr_ptr wr" "ToLocal w (wr_addr wr)" m] bs(2) assms(4,5,7) by (simp add: in_one_worker_def)
  moreover have "\<forall>i \<in> set bs. readable w i" using bs(3) assms(6) by blast
  ultimately have loop: "local_read_loop (wr_addr wr) ?e bs r w =
      Some (Inr (on_mem (memcpy (wr_ptr wr) (ToLocal w (wr_addr wr)) n) w))"
    using local_read_loop_eq [OF assms(1), of bs "wr_addr wr" ?e] bs(4) by (simp add: on_mem_def)
  show ?thesis
    using assms(1-3) bs(1) loop
    by (auto simp: ProcessLocalRead_def direct_def read_fence_def IsMFenced_def unless_early_def local_read_def
        decr_if_served_def unless_pending_def finish_hit_def)
qed

lemma local_write_served:
  assumes "wrs w r = Some wr" "direct w wr" "wr_size wr = of_nat n" "0 < n" "in_one_worker (wr_addr wr) n"
    and "\<forall>i \<in> blocks_of (wr_addr wr) n. writable w i" "apart (ToLocal w (wr_addr wr)) (wr_ptr wr) n"
  shows "ProcessLocalWrite NT r w = Some (SUCCESS, on_mem (memcpy (ToLocal w (wr_addr wr)) (wr_ptr wr) n) w)"
proof -
  let ?e = "GADD (wr_addr wr) (of_nat n)"
  obtain bs where bs: "blocks_from (TOBLOCK (wr_addr wr)) ?e = Some bs" "unat ?e = unat (wr_addr wr) + n"
    "set bs \<subseteq> blocks_of (wr_addr wr) n"
    "\<forall>i \<in> set bs. ToLocal w (seg_start (wr_addr wr) i) = ToLocal w (wr_addr wr) + (seg_start (wr_addr wr) i - wr_addr wr)"
    using request_blocks [OF assms(5,4)] by blast
  have "fold (copy_block (ToLocal w (wr_addr wr)) (wr_ptr wr) (wr_addr wr) ?e) bs m =
      memcpy (ToLocal w (wr_addr wr)) (wr_ptr wr) n m" for m
    using copy_request [OF bs(1), of "ToLocal w (wr_addr wr)" "wr_ptr wr" m] bs(2) assms(4,5,7) by (simp add: in_one_worker_def)
  moreover have "\<forall>i \<in> set bs. writable w i" using bs(3) assms(6) by blast
  ultimately have loop: "local_write_loop (wr_addr wr) ?e bs r w =
      Some (Inr (r, on_mem (memcpy (ToLocal w (wr_addr wr)) (wr_ptr wr) n) w))"
    using local_write_loop_eq [OF assms(1), of bs "wr_addr wr" ?e] bs(4) assms(2) by (simp add: on_mem_def direct_def)
  show ?thesis
    using assms(1-3) bs(1) loop
    by (auto simp: ProcessLocalWrite_def direct_def write_fence_def IsFenced_def unless_early_def local_write_def
        decr_if_served_def unless_pending_def finish_write_def)
qed

lemma memcpy_at:
  "unat i < n \<Longrightarrow> memcpy p q n m (p + i) = m (q + i)"
  by (simp add: memcpy_def in_range_def)

lemma memcpy_out: "apart p q n \<Longrightarrow> in_range q n x \<Longrightarrow> memcpy p q' n m x = m x"
  by (auto simp: memcpy_def apart_def)

text \<open>
  C9: what one application thread has written to a range of local memory, a thread that reads the
  range afterwards finds in its buffer, byte by byte, both requests being served at once.
\<close>

theorem local_read_after_write:
  assumes "wrs w r = Some wr" "wrs w r' = Some rd" "direct w wr" "direct w rd"
    and "wr_size wr = of_nat n" "wr_size rd = of_nat n" "wr_addr rd = wr_addr wr" "0 < n" "in_one_worker (wr_addr wr) n"
    and "\<forall>i \<in> blocks_of (wr_addr wr) n. writable w i"
    and "apart (ToLocal w (wr_addr wr)) (wr_ptr wr) n" "apart (wr_ptr rd) (ToLocal w (wr_addr wr)) n"
  shows "\<exists>w1 w2. ProcessLocalWrite NT r w = Some (SUCCESS, w1) \<and> ProcessLocalRead NT r' w1 = Some (SUCCESS, w2) \<and>
    (\<forall>i. unat i < n \<longrightarrow> w_mem w2 (wr_ptr rd + i) = w_mem w (wr_ptr wr + i))"
proof -
  let ?w1 = "on_mem (memcpy (ToLocal w (wr_addr wr)) (wr_ptr wr) n) w"
  have "readable w i" if "writable w i" for i using that by (simp add: readable_def writable_def)
  then have "ProcessLocalRead NT r' ?w1 =
      Some (SUCCESS, count_read True True (on_mem (memcpy (wr_ptr rd) (ToLocal w (wr_addr wr)) n) ?w1))"
    using local_read_served [of ?w1 r' rd n NT] assms by (simp add: direct_def)
  moreover have "ProcessLocalWrite NT r w = Some (SUCCESS, ?w1)"
    using assms by (intro local_write_served) simp_all
  ultimately show ?thesis
    by (simp add: count_read_def upd_stats_def memcpy_at)
qed

text \<open>A write from and a read into buffers at \<open>0x20000\<close> and \<open>0x30000\<close> of \<open>32\<close> bytes around a block boundary.\<close>

definition demo_write :: WorkRequest where
  "demo_write = new_WorkRequest \<lparr> wr_op := WRITE, wr_addr := 0x1000000001FF0, wr_size := 32, wr_ptr := 0x20000, wr_fd := 5 \<rparr>"

definition demo_read :: WorkRequest where
  "demo_read = new_WorkRequest \<lparr> wr_op := READ, wr_addr := 0x1000000001FF0, wr_size := 32, wr_ptr := 0x30000, wr_fd := 5 \<rparr>"

definition demo_local :: Worker where
  "demo_local = demo_worker \<lparr> wrs := [0 \<mapsto> demo_write, 1 \<mapsto> demo_read], next_wr := 2, fences := [5 \<mapsto> new_Fence] \<rparr>"

lemma demo_local_simps [simp]:
  "wrs demo_local = [0 \<mapsto> demo_write, 1 \<mapsto> demo_read]" "direct demo_local demo_write" "direct demo_local demo_read"
  "wr_size demo_write = of_nat 32" "wr_size demo_read = of_nat 32" "wr_addr demo_read = wr_addr demo_write"
  "in_one_worker (wr_addr demo_write) 32" "writable demo_local i" "readable demo_local i"
  "apart (ToLocal demo_local (wr_addr demo_write)) (wr_ptr demo_write) 32"
  "apart (wr_ptr demo_read) (ToLocal demo_local (wr_addr demo_write)) 32"
  by (simp_all add: demo_local_def demo_write_def demo_read_def demo_defs direct_def flg_def new_Fence_def addr_defs
      in_one_worker_def writable_def readable_def dir_GetEntry_def dir_GetState_def apart_dist)

theorem local_read_after_write_witness:
  "\<exists>w1 w2. ProcessLocalWrite (\<lambda>_. Some) 0 demo_local = Some (SUCCESS, w1) \<and>
     ProcessLocalRead (\<lambda>_. Some) 1 w1 = Some (SUCCESS, w2) \<and>
     w_mem w2 (wr_ptr demo_read + 20) = w_mem demo_local (wr_ptr demo_write + 20)"
proof -
  obtain w1 w2 where *: "ProcessLocalWrite (\<lambda>_. Some) 0 demo_local = Some (SUCCESS, w1)"
    "ProcessLocalRead (\<lambda>_. Some) 1 w1 = Some (SUCCESS, w2)"
    "\<forall>i. unat i < 32 \<longrightarrow> w_mem w2 (wr_ptr demo_read + i) = w_mem demo_local (wr_ptr demo_write + i)"
    using local_read_after_write [of demo_local 0 demo_write 1 demo_read 32 "\<lambda>_. Some"] by auto
  from spec [OF *(3), of 20] *(1,2) show ?thesis by auto
qed

end
