(* ===== verification/Rdma_Context.thy ===== *)
theory Rdma_Context
  imports GAM_Prelude "HOL-Library.Monad_Syntax"
begin

text \<open>
  The send side of a connection (\<open>RdmaContext\<close> of \<open>src/rdma.cc\<close>, \<open>include/rdma.h\<close>): the ring of send
  slots, the limit on outstanding work requests, selective signaling, and the queue of requests
  that wait for the device together with the merging of small sends. The device itself is outside
  the sources: \<open>rc_sq\<close> is its send queue, \<open>rc_post\<close> says how many of the posted
  work requests it takes, and a completion reports the \<open>wr_id\<close> of a signaled work request.
  A method holds the lock of the context throughout and is one step of the model. \<open>None\<close> is a step
  that uses a null pointer or an array element that does not exist.
\<close>

subsection \<open>Constants and data\<close>

definition MAX_REQUEST_SIZE :: nat where "MAX_REQUEST_SIZE = 1024"
definition MAX_MASTER_PENDING_MSG :: int where "MAX_MASTER_PENDING_MSG = 1024"
definition MAX_WORKER_PENDING_MSG :: int where "MAX_WORKER_PENDING_MSG = 1024"
definition MAX_UNSIGNALED_MSG :: int where "MAX_UNSIGNALED_MSG = 512"
definition HW_MAX_PENDING :: int where "HW_MAX_PENDING = 16351"
definition MASTER_BUFFER_SIZE :: nat where "MASTER_BUFFER_SIZE = nat MAX_MASTER_PENDING_MSG * MAX_REQUEST_SIZE"
definition WORKER_BUFFER_SIZE :: nat where "WORKER_BUFFER_SIZE = nat MAX_WORKER_PENDING_MSG * MAX_REQUEST_SIZE"

definition RMINUS :: "int \<Rightarrow> int \<Rightarrow> int \<Rightarrow> int" where
  "RMINUS a b rz = (if a \<ge> b then a - b else a + rz - b)"

datatype ibv_wr_opcode =
    IBV_WR_SEND | IBV_WR_RDMA_WRITE | IBV_WR_RDMA_WRITE_WITH_IMM | IBV_WR_RDMA_READ | IBV_WR_ATOMIC_CMP_AND_SWP

record RdmaRequest =
  rr_op :: ibv_wr_opcode
  rr_src :: ptr
  rr_len :: nat
  rr_id :: "32 word"
  rr_signaled :: bool
  rr_dest :: ptr
  rr_imm :: "32 word"
  rr_oldval :: "64 word"
  rr_newval :: "64 word"

text \<open>
  A work request with its one scatter-gather element. \<open>sw_data\<close> is what the element points at
  when the work request is posted.
\<close>

record ibv_send_wr =
  sw_opcode :: ibv_wr_opcode
  sw_wr_id :: "64 word"
  sge_addr :: ptr
  sge_length :: nat
  sge_lkey :: "32 word"
  sw_num_sge :: nat
  sw_inline :: bool
  sw_signaled :: bool
  sw_remote_addr :: ptr
  sw_rkey :: "32 word"
  sw_imm_data :: "32 word"
  sw_data :: "byte list"

record RdmaContext =
  rc_mem :: mem
  send_buf :: ptr
  send_buf_len :: nat
  send_lkey :: "32 word"
  bmr_lkey :: "32 word"
  rc_rkey :: "32 word"
  slot_head :: int
  slot_tail :: int
  slots_full :: bool
  max_pending_msg :: int
  max_unsignaled_msg :: int
  pending_msg :: int
  pending_send_msg :: int
  to_signaled_send_msg :: int
  to_signaled_w_r_msg :: int
  pending_requests :: "RdmaRequest list"
  rc_inline :: nat                      \<comment> \<open>\<open>MAX_RDMA_INLINE_SIZE\<close>\<close>
  rc_post :: "ibv_send_wr list \<Rightarrow> ibv_send_wr list \<Rightarrow> nat"
  rc_sq :: "ibv_send_wr list"           \<comment> \<open>posted and not yet completed\<close>
  rc_log :: "ibv_send_wr list"          \<comment> \<open>everything posted so far\<close>
  rc_freed :: "ptr list"                \<comment> \<open>buffers given to \<open>zfree\<close>\<close>

definition new_RdmaContext ::
  "bool \<Rightarrow> ptr \<Rightarrow> mem \<Rightarrow> 32 word \<Rightarrow> 32 word \<Rightarrow> 32 word \<Rightarrow> nat \<Rightarrow> (ibv_send_wr list \<Rightarrow> ibv_send_wr list \<Rightarrow> nat) \<Rightarrow> RdmaContext" where
  "new_RdmaContext master buf m lk blk rk inl dev =
     (let mp = min HW_MAX_PENDING (if master then MAX_MASTER_PENDING_MSG else MAX_WORKER_PENDING_MSG)
      in \<lparr> rc_mem = m, send_buf = buf, send_buf_len = (if master then MASTER_BUFFER_SIZE else WORKER_BUFFER_SIZE),
           send_lkey = lk, bmr_lkey = blk, rc_rkey = rk, slot_head = 0, slot_tail = 0, slots_full = False,
           max_pending_msg = mp, max_unsignaled_msg = min mp MAX_UNSIGNALED_MSG, pending_msg = 0, pending_send_msg = 0,
           to_signaled_send_msg = 0, to_signaled_w_r_msg = 0, pending_requests = [], rc_inline = inl, rc_post = dev,
           rc_sq = [], rc_log = [], rc_freed = [] \<rparr>)"

definition bytes_at :: "ptr \<Rightarrow> nat \<Rightarrow> mem \<Rightarrow> byte list" where
  "bytes_at p n m = map (\<lambda>i. m (p + of_nat i)) [0 ..< n]"

definition write_bytes :: "ptr \<Rightarrow> byte list \<Rightarrow> mem \<Rightarrow> mem" where
  "write_bytes p bs m = (\<lambda>a. if in_range p (length bs) a then bs ! unat (a - p) else m a)"

text \<open>\<open>htonl\<close> on a little-endian machine.\<close>

definition htonl :: "32 word \<Rightarrow> 32 word" where
  "htonl w = push_bit 24 (w AND 0xFF) OR push_bit 8 (w AND 0xFF00) OR
     (drop_bit 8 w AND 0xFF00) OR (drop_bit 24 w AND 0xFF)"

subsection \<open>Slots\<close>

definition slot_ptr :: "RdmaContext \<Rightarrow> int \<Rightarrow> ptr" where
  "slot_ptr c k = send_buf c + of_int (k * int MAX_REQUEST_SIZE)"

definition GetFreeSlot :: "RdmaContext \<Rightarrow> (ptr \<times> RdmaContext) option" where
  "GetFreeSlot c =
     (let avail = RMINUS (slot_tail c) (slot_head c) (max_pending_msg c);
          avail = (if avail = 0 \<and> \<not> slots_full c then max_pending_msg c else avail)
      in if avail \<le> 0 \<or> pending_msg c \<ge> max_pending_msg c then None
         else let s = slot_ptr c (slot_head c);
                  head = (if slot_head c + 1 = max_pending_msg c then 0 else slot_head c + 1)
              in Some (s, c \<lparr> slot_head := head, slots_full := (if head = slot_tail c then True else slots_full c) \<rparr>))"

definition IsRegistered :: "RdmaContext \<Rightarrow> ptr \<Rightarrow> bool" where
  "IsRegistered c a \<longleftrightarrow> unat a \<ge> unat (send_buf c) \<and> unat a < unat (send_buf c) + send_buf_len c"

subsection \<open>Posting\<close>

definition post_send :: "ibv_send_wr list \<Rightarrow> RdmaContext \<Rightarrow> bool \<times> RdmaContext" where
  "post_send ws c =
     (let ws = map (\<lambda>x. x \<lparr> sw_data := bytes_at (sge_addr x) (sge_length x) (rc_mem c) \<rparr>) ws;
          k = rc_post c (rc_sq c) ws
      in (k \<ge> length ws, c \<lparr> rc_sq := rc_sq c @ take k ws, rc_log := rc_log c @ take k ws \<rparr>))"

text \<open>The counts of a completion travel in its \<open>wr_id\<close>: sends, other requests, request id.\<close>

definition pack_id :: "32 word \<Rightarrow> int \<Rightarrow> int \<Rightarrow> 64 word" where
  "pack_id i s w = ucast i + push_bit 48 (of_int s AND 0xFFFF) + push_bit 32 (of_int w AND 0xFFFF)"

definition uint16 :: "int \<Rightarrow> int" where "uint16 x = x mod 2 ^ 16"

definition unsignaled_sends :: "RdmaContext \<Rightarrow> int" where
  "unsignaled_sends c = uint16 (pending_send_msg c - to_signaled_send_msg c)"

definition unsignaled_writes :: "RdmaContext \<Rightarrow> int" where
  "unsignaled_writes c = uint16 (pending_msg c - pending_send_msg c - to_signaled_w_r_msg c)"

definition to_signal :: "bool \<Rightarrow> RdmaContext \<Rightarrow> bool" where
  "to_signal signaled c \<longleftrightarrow> unsignaled_sends c + unsignaled_writes c = max_unsignaled_msg c \<or> signaled"

definition mark_signaled :: "32 word \<Rightarrow> bool \<Rightarrow> ibv_send_wr \<Rightarrow> RdmaContext \<Rightarrow> ibv_send_wr \<times> RdmaContext" where
  "mark_signaled i signaled wr c =
     (if to_signal signaled c
      then (wr \<lparr> sw_signaled := True, sw_wr_id := pack_id i (unsignaled_sends c) (unsignaled_writes c) \<rparr>,
            c \<lparr> to_signaled_send_msg := to_signaled_send_msg c + unsignaled_sends c,
                to_signaled_w_r_msg := to_signaled_w_r_msg c + unsignaled_writes c \<rparr>)
      else (wr, c))"

text \<open>A work request for \<open>r\<close> on the memory at \<open>p\<close>.\<close>

definition send_wr_of :: "RdmaRequest \<Rightarrow> ptr \<Rightarrow> RdmaContext \<Rightarrow> ibv_send_wr" where
  "send_wr_of r p c =
     \<lparr> sw_opcode = rr_op r, sw_wr_id = -1, sge_addr = p, sge_length = rr_len r,
       sge_lkey = (if rr_op r = IBV_WR_SEND then send_lkey c else bmr_lkey c),
       sw_num_sge = (if rr_len r = 0 then 0 else 1), sw_inline = False, sw_signaled = False,
       sw_remote_addr = (case rr_op r of IBV_WR_SEND \<Rightarrow> 0 | IBV_WR_RDMA_READ \<Rightarrow> rr_src r | _ \<Rightarrow> rr_dest r),
       sw_rkey = (if rr_op r = IBV_WR_SEND then 0 else rc_rkey c),
       sw_imm_data = (if rr_op r = IBV_WR_RDMA_WRITE_WITH_IMM then htonl (rr_imm r) else 0), sw_data = [] \<rparr>"

definition set_inline :: "RdmaContext \<Rightarrow> ibv_send_wr \<Rightarrow> ibv_send_wr" where
  "set_inline c wr = (if sge_length wr \<le> rc_inline c then wr \<lparr> sw_inline := True \<rparr> else wr)"

text \<open>The copy of a buffer into a slot, after which the buffer is released.\<close>

definition fill_slot :: "ptr \<Rightarrow> RdmaRequest \<Rightarrow> RdmaContext \<Rightarrow> RdmaContext" where
  "fill_slot p r c = c \<lparr> rc_mem := memcpy p (rr_src r) (rr_len r) (rc_mem c), rc_freed := rc_freed c @ [rr_src r] \<rparr>"

definition count_send :: "RdmaContext \<Rightarrow> RdmaContext" where
  "count_send c = c \<lparr> pending_send_msg := pending_send_msg c + 1 \<rparr>"

definition count_msg :: "RdmaContext \<Rightarrow> RdmaContext" where
  "count_msg c = c \<lparr> pending_msg := pending_msg c + 1 \<rparr>"

definition Rdma :: "RdmaRequest \<Rightarrow> RdmaContext \<Rightarrow> (int \<times> RdmaContext) option" where
  "Rdma r c =
     (if pending_msg c \<ge> max_pending_msg c
      then Some (-1, c \<lparr> pending_requests := pending_requests c @ [r] \<rparr>)
      else if rr_op r = IBV_WR_ATOMIC_CMP_AND_SWP then Some (-1, c)
      else do {
        (p, c) \<leftarrow> (if rr_op r = IBV_WR_SEND
                  then if \<not> IsRegistered c (rr_src r) \<and> rr_len r > rc_inline c
                       then do { (p, c) \<leftarrow> GetFreeSlot c; Some (p, count_send (fill_slot p r c)) }
                       else Some (rr_src r, if IsRegistered c (rr_src r) then count_send c else c)
                  else Some (if rr_op r = IBV_WR_RDMA_READ then rr_dest r else rr_src r, c));
        let wr = set_inline c (send_wr_of r p c);
        let (wr, c) = mark_signaled (rr_id r) (rr_signaled r) wr (count_msg c);
        let (ok, c) = post_send [wr] c;
        Some (if \<not> ok then (-2, c)
              else (int (rr_len r),
                    if rr_op r = IBV_WR_SEND \<and> \<not> IsRegistered c p then c \<lparr> rc_freed := rc_freed c @ [p] \<rparr> else c)) })"

text \<open>The copy of \<open>Rdma\<close> for measurements: it also returns the \<open>wr_id\<close> and the time \<open>t\<close> of the post.\<close>

record profile_return =
  original_ret :: int
  prof_wr_id :: "64 word"
  time_stamp :: "64 word"

definition Rdma_profile :: "64 word \<Rightarrow> RdmaRequest \<Rightarrow> RdmaContext \<Rightarrow> (profile_return \<times> RdmaContext) option" where
  "Rdma_profile t r c =
     (let fail = (\<lambda>e. \<lparr> original_ret = e, prof_wr_id = 0, time_stamp = 0 \<rparr>)
      in if pending_msg c \<ge> max_pending_msg c
      then Some (fail (-1), c \<lparr> pending_requests := pending_requests c @ [r] \<rparr>)
      else case rr_op r of IBV_WR_ATOMIC_CMP_AND_SWP \<Rightarrow> Some (fail (-1), c)
      | op \<Rightarrow> do {
        (p, c) \<leftarrow> (case op of
            IBV_WR_SEND \<Rightarrow>
              if \<not> IsRegistered c (rr_src r) \<and> rr_len r > rc_inline c
              then do { (p, c) \<leftarrow> GetFreeSlot c; Some (p, count_send (fill_slot p r c)) }
              else Some (rr_src r, if IsRegistered c (rr_src r) then count_send c else c)
          | IBV_WR_RDMA_READ \<Rightarrow> Some (rr_dest r, c)
          | _ \<Rightarrow> Some (rr_src r, c));
        let (wr, c) = mark_signaled (rr_id r) (rr_signaled r) (set_inline c (send_wr_of r p c)) (count_msg c);
        let (ok, c) = post_send [wr] c;
        Some (if \<not> ok then (fail (-2), c)
              else (\<lparr> original_ret = int (rr_len r), prof_wr_id = sw_wr_id wr, time_stamp = t \<rparr>,
                    if op = IBV_WR_SEND \<and> \<not> IsRegistered c p then c \<lparr> rc_freed := rc_freed c @ [p] \<rparr> else c)) })"

definition rdma_request :: "ibv_wr_opcode \<Rightarrow> ptr \<Rightarrow> nat \<Rightarrow> 32 word \<Rightarrow> bool \<Rightarrow> ptr \<Rightarrow> 32 word \<Rightarrow> RdmaRequest" where
  "rdma_request op src n i sig dest imm =
     \<lparr> rr_op = op, rr_src = src, rr_len = n, rr_id = i, rr_signaled = sig, rr_dest = dest, rr_imm = imm,
       rr_oldval = 0, rr_newval = 0 \<rparr>"

definition ctx_Send :: "ptr \<Rightarrow> nat \<Rightarrow> 32 word \<Rightarrow> bool \<Rightarrow> RdmaContext \<Rightarrow> (int \<times> RdmaContext) option" where
  "ctx_Send p n i sig = Rdma (rdma_request IBV_WR_SEND p n i sig 0 0)"

definition ctx_Send_profile :: "64 word \<Rightarrow> ptr \<Rightarrow> nat \<Rightarrow> 32 word \<Rightarrow> bool \<Rightarrow> RdmaContext \<Rightarrow> (profile_return \<times> RdmaContext) option" where
  "ctx_Send_profile t p n i sig = Rdma_profile t (rdma_request IBV_WR_SEND p n i sig 0 0)"

definition ctx_Write :: "ptr \<Rightarrow> ptr \<Rightarrow> nat \<Rightarrow> 32 word \<Rightarrow> bool \<Rightarrow> RdmaContext \<Rightarrow> (int \<times> RdmaContext) option" where
  "ctx_Write dest src n i sig = Rdma (rdma_request IBV_WR_RDMA_WRITE src n i sig dest 0)"

definition ctx_WriteWithImm :: "ptr \<Rightarrow> ptr \<Rightarrow> nat \<Rightarrow> 32 word \<Rightarrow> 32 word \<Rightarrow> bool \<Rightarrow> RdmaContext \<Rightarrow> (int \<times> RdmaContext) option" where
  "ctx_WriteWithImm dest src n imm i sig = Rdma (rdma_request IBV_WR_RDMA_WRITE_WITH_IMM src n i sig dest imm)"

definition ctx_Read :: "ptr \<Rightarrow> ptr \<Rightarrow> nat \<Rightarrow> 32 word \<Rightarrow> bool \<Rightarrow> RdmaContext \<Rightarrow> (int \<times> RdmaContext) option" where
  "ctx_Read dest src n i sig = Rdma (rdma_request IBV_WR_RDMA_READ src n i sig dest 0)"

definition ctx_Cas :: "ptr \<Rightarrow> 64 word \<Rightarrow> 64 word \<Rightarrow> 32 word \<Rightarrow> bool \<Rightarrow> RdmaContext \<Rightarrow> (int \<times> RdmaContext) option" where
  "ctx_Cas src old new i sig =
     Rdma ((rdma_request IBV_WR_ATOMIC_CMP_AND_SWP src 8 i sig 0 0) \<lparr> rr_oldval := old, rr_newval := new \<rparr>)"

text \<open>
  How a serialised request is sent (\<open>Worker::SubmitRequest\<close>, and the replies of the master): into a
  slot if there is one, otherwise into a buffer \<open>z\<close> from \<open>zmalloc\<close>. \<open>Ser\<close> puts a zero byte behind the
  message. The lock taken in \<open>GetFreeSlot\<close> is released by \<open>Send\<close>.
\<close>

definition send_message :: "ptr \<Rightarrow> byte list \<Rightarrow> RdmaContext \<Rightarrow> (int \<times> RdmaContext) option" where
  "send_message z bs c =
     (let (p, c) = (case GetFreeSlot c of Some (p, c) \<Rightarrow> (p, c) | None \<Rightarrow> (z, c))
      in ctx_Send p (length bs) 0 False (c \<lparr> rc_mem := write_bytes p (bs @ [0]) (rc_mem c) \<rparr>))"

subsection \<open>Requests that waited for the device\<close>

text \<open>A queued send is appended, after a zero byte, to the slot of the send before it.\<close>

definition merge_send :: "RdmaRequest \<Rightarrow> nat \<Rightarrow> ibv_send_wr \<Rightarrow> RdmaContext \<Rightarrow> ibv_send_wr \<times> RdmaContext" where
  "merge_send r bp x c =
     (let c = c \<lparr> rc_mem := (rc_mem c)(sge_addr x + of_nat bp := 0) \<rparr>
      in (x \<lparr> sge_length := bp + (1 + rr_len r) \<rparr>, fill_slot (sge_addr x + of_nat bp + 1) r c))"

definition new_pending :: "RdmaRequest \<Rightarrow> RdmaContext \<Rightarrow> (ibv_send_wr \<times> RdmaContext) option" where
  "new_pending r c =
     (if rr_op r = IBV_WR_SEND
      then do { (p, c) \<leftarrow> GetFreeSlot c; Some (send_wr_of r p c, count_msg (count_send (fill_slot p r c))) }
      else Some (send_wr_of r (if rr_op r = IBV_WR_RDMA_READ then rr_dest r else rr_src r) c, count_msg c))"

definition can_merge :: "RdmaRequest \<Rightarrow> nat \<Rightarrow> ibv_send_wr list \<Rightarrow> bool" where
  "can_merge r bp ws \<longleftrightarrow> rr_op r = IBV_WR_SEND \<and> ws \<noteq> [] \<and> sw_opcode (last ws) = IBV_WR_SEND \<and>
     bp + rr_len r + 1 + 1 \<le> MAX_REQUEST_SIZE \<and> \<not> rr_signaled r"

text \<open>
  The loop over the queue: \<open>ws\<close> are the work requests built so far, at most \<open>n\<close>, and \<open>bp\<close> is the
  position in the slot of the last one. An atomic request builds none; when it is to be
  signaled, the last one built is.
\<close>

fun pending_loop :: "nat \<Rightarrow> ibv_send_wr list \<Rightarrow> nat \<Rightarrow> RdmaRequest list \<Rightarrow> RdmaContext \<Rightarrow>
    (ibv_send_wr list \<times> RdmaRequest list \<times> RdmaContext) option" where
  "pending_loop n ws bp [] c = Some (ws, [], c)"
| "pending_loop n ws bp (r # rs) c =
     (if can_merge r bp ws
      then let (x, c) = merge_send r bp (last ws) c;
               (x, c) = mark_signaled (rr_id r) (rr_signaled r) x c
           in pending_loop n (butlast ws @ [x]) (bp + (1 + rr_len r)) rs c
      else if rr_op r = IBV_WR_ATOMIC_CMP_AND_SWP
      then if ws = [] then if to_signal (rr_signaled r) c then None else pending_loop n ws bp rs c
           else let (x, c) = mark_signaled (rr_id r) (rr_signaled r) (last ws) c
                in pending_loop n (butlast ws @ [x]) bp rs c
      else if length ws = n then Some (ws, r # rs, c)
      else do {
        (x, c) \<leftarrow> new_pending r c;
        let (x, c) = mark_signaled (rr_id r) (rr_signaled r) x c;
        pending_loop n (ws @ [x]) (if rr_op r = IBV_WR_SEND then rr_len r else 0) rs c })"

definition ProcessPendingRequests :: "nat \<Rightarrow> RdmaContext \<Rightarrow> RdmaContext option" where
  "ProcessPendingRequests n c =
     (if pending_requests c = [] then Some c
      else do {
        (ws, rest, c) \<leftarrow> pending_loop n [] 0 (pending_requests c) c;
        if ws = [] then None
        else Some (snd (post_send (map (set_inline c) ws) (c \<lparr> pending_requests := rest \<rparr>))) })"

subsection \<open>Completions\<close>

definition id_of :: "64 word \<Rightarrow> 32 word" where "id_of x = ucast (x AND 0xFFFFFFFF)"
definition sends_of :: "64 word \<Rightarrow> int" where "sends_of x = uint (ucast (drop_bit 48 x) :: 16 word)"
definition writes_of :: "64 word \<Rightarrow> int" where "writes_of x = uint (ucast (drop_bit 32 x AND 0xFFFF) :: 16 word)"

definition SendComp :: "64 word \<Rightarrow> RdmaContext \<Rightarrow> (32 word \<times> RdmaContext) option" where
  "SendComp x c =
     (let cs = sends_of x; cw = writes_of x; t = slot_tail c + cs;
          c = c \<lparr> slot_tail := (if t \<ge> max_pending_msg c then t - max_pending_msg c else t),
                  to_signaled_send_msg := to_signaled_send_msg c - cs,
                  to_signaled_w_r_msg := to_signaled_w_r_msg c - cw,
                  pending_msg := pending_msg c - (cs + cw),
                  pending_send_msg := pending_send_msg c - cs,
                  slots_full := (if slots_full c \<and> cs \<noteq> 0 then False else slots_full c) \<rparr>
      in do { c \<leftarrow> ProcessPendingRequests (nat (cs + cw)) c; Some (id_of x, c) })"

end
