(* ===== verification/Rdma_Resource.thy ===== *)
theory Rdma_Resource
  imports Rdma_Context
begin

text \<open>
  The receive side that all connections of a node share (\<open>RdmaResource\<close> of \<open>src/rdma.cc\<close>): the
  communication slots in chunks of \<open>RECV_SLOT_STEP\<close>, posting them to the shared receive queue, and
  taking a received one. The receive queue is outside the sources: \<open>rs_srq\<close> are the slots it
  holds, and \<open>rs_take\<close> says how many of the posted ones it accepts. \<open>None\<close> is a step that ends in an
  exception or uses an element that does not exist.
\<close>

subsection \<open>State\<close>

definition RECV_SLOT_STEP :: nat where "RECV_SLOT_STEP = 100"
definition MAX_NUM_WORKER :: int where "MAX_NUM_WORKER = 20"
definition MASTER_RDMA_SRQ_RX_DEPTH :: int where "MASTER_RDMA_SRQ_RX_DEPTH = MAX_MASTER_PENDING_MSG * MAX_NUM_WORKER"
definition WORKER_RDMA_SRQ_RX_DEPTH :: int where
  "WORKER_RDMA_SRQ_RX_DEPTH = MAX_WORKER_PENDING_MSG * (MAX_NUM_WORKER - 1) + MAX_MASTER_PENDING_MSG"

definition BPOS :: "nat \<Rightarrow> nat" where "BPOS s = s div RECV_SLOT_STEP"
definition BOFF :: "nat \<Rightarrow> nat" where "BOFF s = s mod RECV_SLOT_STEP * MAX_REQUEST_SIZE"

record RdmaResource =
  rs_master :: bool
  rs_base :: ptr
  rs_bmr :: bool
  comm_buf :: "ptr list"
  rs_slot_head :: nat
  slot_inuse :: nat
  slots :: "bool list"
  rdma_context_counter :: int
  recv_posted :: int
  rx_depth :: int
  rs_srq :: "nat list"                      \<comment> \<open>slots the receive queue holds\<close>
  rs_take :: "nat list \<Rightarrow> nat list \<Rightarrow> nat"
  rs_zm :: "nat \<Rightarrow> ptr"                     \<comment> \<open>what \<open>zmalloc\<close> returns, chunk by chunk\<close>
  rs_reg :: "nat \<Rightarrow> bool"                   \<comment> \<open>whether \<open>ibv_reg_mr\<close> registers the chunk\<close>

definition new_RdmaResource :: "bool \<Rightarrow> (nat list \<Rightarrow> nat list \<Rightarrow> nat) \<Rightarrow> (nat \<Rightarrow> ptr) \<Rightarrow> (nat \<Rightarrow> bool) \<Rightarrow> RdmaResource" where
  "new_RdmaResource master tk zm reg =
     \<lparr> rs_master = master, rs_base = 0, rs_bmr = False, comm_buf = [], rs_slot_head = 0, slot_inuse = 0, slots = [],
       rdma_context_counter = 0, recv_posted = 0,
       rx_depth = min HW_MAX_PENDING (if master then MASTER_RDMA_SRQ_RX_DEPTH else WORKER_RDMA_SRQ_RX_DEPTH),
       rs_srq = [], rs_take = tk, rs_zm = zm, rs_reg = reg \<rparr>"

definition RegLocalMemory :: "ptr \<Rightarrow> bool \<Rightarrow> RdmaResource \<Rightarrow> int \<times> RdmaResource" where
  "RegLocalMemory base ok s =
     (if rs_base s \<noteq> 0 \<or> rs_bmr s \<or> rs_master s then (-1, s)
      else if \<not> ok then (-1, s)
      else (0, s \<lparr> rs_bmr := True, rs_base := base \<rparr>))"

subsection \<open>Registering slots\<close>

text \<open>The loop that registers chunks; \<open>None\<close> when one cannot be registered.\<close>

function reg_chunks :: "nat \<Rightarrow> RdmaResource \<Rightarrow> (nat \<times> RdmaResource) option \<times> RdmaResource" where
  "reg_chunks i s =
     (if i < slot_inuse s
      then let k = length (comm_buf s)
           in if \<not> rs_reg s k then (None, s)
              else reg_chunks (i + RECV_SLOT_STEP) (s \<lparr> comm_buf := comm_buf s @ [rs_zm s k] \<rparr>)
      else (Some (i, s), s))"
  by pat_completeness auto
termination
  by (relation "measure (\<lambda>(i, s). slot_inuse s - i)") (simp_all add: RECV_SLOT_STEP_def)

declare reg_chunks.simps [simp del]

definition RegCommSlot :: "nat \<Rightarrow> RdmaResource \<Rightarrow> int \<times> RdmaResource" where
  "RegCommSlot n s =
     (if (length (slots s) + 2 ^ 64 - slot_inuse s) mod 2 ^ 64 \<ge> n then (0, s \<lparr> slot_inuse := slot_inuse s + n \<rparr>)
      else case reg_chunks (length (slots s)) (s \<lparr> slot_inuse := slot_inuse s + n \<rparr>) of
             (None, s) \<Rightarrow> (-1, s)
           | (Some (i, s), _) \<Rightarrow> (0, s \<lparr> slots := slots s @ replicate (i - length (slots s)) False \<rparr>))"

definition GetSlot :: "nat \<Rightarrow> RdmaResource \<Rightarrow> ptr option" where
  "GetSlot k s = (if BPOS k < length (comm_buf s) then Some (comm_buf s ! BPOS k + of_nat (BOFF k)) else None)"

definition ClearSlot :: "nat \<Rightarrow> RdmaResource \<Rightarrow> RdmaResource option" where
  "ClearSlot k s = (if k < length (slots s) then Some (s \<lparr> slots := (slots s)[k := False] \<rparr>) else None)"

subsection \<open>Posting receives\<close>

text \<open>\<open>ibv_post_srq_recv\<close>: the slots it accepts, a first part of those posted.\<close>

definition post_srq :: "nat list \<Rightarrow> RdmaResource \<Rightarrow> nat \<times> RdmaResource" where
  "post_srq ks s = (let k = min (length ks) (rs_take s (rs_srq s) ks) in (k, s \<lparr> rs_srq := rs_srq s @ take k ks \<rparr>))"

definition PostRecvSlot :: "nat \<Rightarrow> RdmaResource \<Rightarrow> (int \<times> RdmaResource) option" where
  "PostRecvSlot k s =
     (if rx_depth s = recv_posted s then Some (0, s)
      else do {
        let s = s \<lparr> recv_posted := recv_posted s + 1 \<rparr>;
        _ \<leftarrow> GetSlot k s;
        let (n, s) = post_srq [k] s;
        if n < 1 then do { s \<leftarrow> ClearSlot k s; Some (0, s) } else Some (1, s) })"

text \<open>
  The loop of \<open>PostRecv\<close> that collects free slots: \<open>ks\<close> are those found. Every round moves
  the head on by one; after one turn over all slots every slot is occupied, and the next turn ends at
  \<open>init\<close>. \<open>fuel\<close> bounds the rounds.
\<close>

definition next_head :: "RdmaResource \<Rightarrow> nat" where
  "next_head s = (if rs_slot_head s + 1 = slot_inuse s then 0 else rs_slot_head s + 1)"

primrec find_slots :: "nat \<Rightarrow> nat \<Rightarrow> nat \<Rightarrow> nat list \<Rightarrow> RdmaResource \<Rightarrow> (nat list \<times> RdmaResource) option" where
  "find_slots 0 init n ks s = (if length ks < n then None else Some (ks, s))"
| "find_slots (Suc fuel) init n ks s =
     (if \<not> length ks < n then Some (ks, s)
      else if \<not> rs_slot_head s < length (slots s) then None
      else if slots s ! rs_slot_head s
      then let s = s \<lparr> rs_slot_head := next_head s \<rparr>
           in if rs_slot_head s = init then Some (ks, s) else find_slots fuel init n ks s
      else if \<not> BPOS (rs_slot_head s) < length (comm_buf s) then None
      else let k = rs_slot_head s;
               s = s \<lparr> slots := (slots s)[k := True] \<rparr>
           in find_slots fuel init n (ks @ [k]) (s \<lparr> rs_slot_head := next_head s \<rparr>))"

text \<open>
  When the receive queue rejects a slot, every slot from that one up to the head becomes free again,
  whether it was among those posted or not; the result counts them all.
\<close>

definition ring_range :: "nat \<Rightarrow> nat \<Rightarrow> nat \<Rightarrow> nat list" where
  "ring_range n a b = (if a \<le> b then [a ..< b] else [a ..< n] @ [0 ..< b])"

definition PostRecv :: "nat \<Rightarrow> int \<Rightarrow> RdmaResource \<Rightarrow> (int \<times> RdmaResource) option" where
  "PostRecv fuel n s =
     (let n = (if n > rx_depth s - recv_posted s then rx_depth s - recv_posted s else n)
      in if n = 0 then Some (0, s)
         else do {
           (ks, s) \<leftarrow> find_slots fuel (rs_slot_head s) (nat n) [] s;
           let (k, s) = (if ks = [] then (0, s) else post_srq ks s);
           let (ret, s) =
             (if k < length ks
              then (int (length ks) - RMINUS (int (rs_slot_head s)) (int (ks ! k)) (int (slot_inuse s)),
                    s \<lparr> slots := fold (\<lambda>j v. v[j := False]) (ring_range (slot_inuse s) (ks ! k) (rs_slot_head s)) (slots s) \<rparr>)
              else (int (length ks), s));
           Some (ret, s \<lparr> recv_posted := recv_posted s + n \<rparr>) })"

subsection \<open>Connections and received messages\<close>

definition NewRdmaContext :: "bool \<Rightarrow> RdmaResource \<Rightarrow> bool \<times> RdmaResource" where
  "NewRdmaContext master s =
     (let s = s \<lparr> rdma_context_counter := rdma_context_counter s + 1 \<rparr>;
          n = min HW_MAX_PENDING (if master then MAX_MASTER_PENDING_MSG else MAX_WORKER_PENDING_MSG);
          (ret, s) = RegCommSlot (nat n) s
      in (ret = 0, s))"

definition DeleteRdmaContext :: "RdmaResource \<Rightarrow> RdmaResource" where
  "DeleteRdmaContext s = s \<lparr> rdma_context_counter := rdma_context_counter s - 1 \<rparr>"

definition RecvComp :: "nat \<Rightarrow> RdmaResource \<Rightarrow> (ptr \<times> RdmaResource) option" where
  "RecvComp k s = do { p \<leftarrow> GetSlot k s; Some (p, s \<lparr> recv_posted := recv_posted s - 1 \<rparr>) }"

subsection \<open>Finding free slots\<close>

definition res_ok :: "RdmaResource \<Rightarrow> bool" where
  "res_ok s \<longleftrightarrow> rs_slot_head s < slot_inuse s \<and> slot_inuse s \<le> length (slots s) \<and>
     (\<forall>k < slot_inuse s. BPOS k < length (comm_buf s))"

definition free_slots :: "RdmaResource \<Rightarrow> nat set" where
  "free_slots s = {k. k < slot_inuse s \<and> \<not> slots s ! k}"

text \<open>How far the head is from \<open>init\<close>, going round.\<close>

definition turn :: "nat \<Rightarrow> RdmaResource \<Rightarrow> nat" where
  "turn init s = (if rs_slot_head s < init then init - rs_slot_head s else slot_inuse s - rs_slot_head s + init)"

lemma turn_bounds: "res_ok s \<Longrightarrow> init < slot_inuse s \<Longrightarrow> 1 \<le> turn init s \<and> turn init s \<le> slot_inuse s"
  by (auto simp: turn_def res_ok_def)

lemma turn_next:
  assumes "res_ok s" "init < slot_inuse s" "next_head s \<noteq> init"
  shows "turn init (s \<lparr> rs_slot_head := next_head s \<rparr>) = turn init s - 1" "1 < turn init s"
  using assms by (auto simp: turn_def res_ok_def next_head_def split: if_splits)

lemma res_ok_next: "res_ok s \<Longrightarrow> res_ok (s \<lparr> rs_slot_head := next_head s \<rparr>)"
  by (auto simp: res_ok_def next_head_def)

lemma finite_free [simp]: "finite (free_slots s)"
  by (simp add: free_slots_def)

text \<open>The slots that the current turn has passed are occupied.\<close>

definition passed :: "nat \<Rightarrow> RdmaResource \<Rightarrow> bool" where
  "passed init s \<longleftrightarrow> free_slots s = {} \<or>
     (if init \<le> rs_slot_head s then \<forall>k. init \<le> k \<and> k < rs_slot_head s \<longrightarrow> slots s ! k
      else \<forall>k < slot_inuse s. init \<le> k \<or> k < rs_slot_head s \<longrightarrow> slots s ! k)"

lemma passed_next:
  assumes "res_ok s" "init < slot_inuse s" "passed init s" "slots s ! rs_slot_head s"
  shows "passed init (s \<lparr> rs_slot_head := next_head s \<rparr>)" "next_head s = init \<Longrightarrow> free_slots s = {}"
  using assms by (auto simp: passed_def res_ok_def next_head_def free_slots_def less_Suc_eq not_le split: if_splits)
    (metis less_Suc_eq linorder_not_less Suc_lessI)+

lemma free_slots_occupy:
  assumes "res_ok s" "k < slot_inuse s"
  shows "free_slots (s \<lparr> slots := (slots s)[k := True] \<rparr>) = free_slots s - {k}"
  using assms by (auto simp: free_slots_def res_ok_def nth_list_update)

lemma passed_occupy: "res_ok s \<Longrightarrow> k < slot_inuse s \<Longrightarrow> passed init s \<Longrightarrow> passed init (s \<lparr> slots := (slots s)[k := True] \<rparr>)"
  by (auto simp: passed_def free_slots_occupy nth_list_update res_ok_def)

lemma find_slots_ok:
  assumes "res_ok s" "init < slot_inuse s" "passed init s" "card (free_slots s) * slot_inuse s + turn init s \<le> fuel"
  shows "\<exists>new h. find_slots fuel init n ks s = Some (ks @ new, s \<lparr> slots := fold (\<lambda>k v. v[k := True]) new (slots s), rs_slot_head := h \<rparr>) \<and>
    h < slot_inuse s \<and> distinct new \<and> set new \<subseteq> free_slots s \<and> (length (ks @ new) < n \<longrightarrow> free_slots s \<subseteq> set new) \<and>
    (length ks \<le> n \<longrightarrow> length (ks @ new) \<le> n)"
  using assms
proof (induction fuel arbitrary: ks s)
  case 0
  then show ?case using turn_bounds [of s init] by simp
next
  case (Suc fuel)
  let ?h = "rs_slot_head s"
  have h: "?h < length (slots s)" "?h < slot_inuse s" "BPOS ?h < length (comm_buf s)" "0 < slot_inuse s"
    using Suc.prems(1) by (auto simp: res_ok_def)
  have nh: "next_head s < slot_inuse s" using res_ok_next [OF Suc.prems(1)] by (simp add: res_ok_def)
  show ?case
  proof (cases "length ks < n")
    case False
    then show ?thesis using h by (intro exI [of _ "[]"] exI [of _ ?h]) simp
  next
    case less: True
    show ?thesis
    proof (cases "slots s ! ?h")
      case True
      let ?s = "s \<lparr> rs_slot_head := next_head s \<rparr>"
      note p = passed_next [OF Suc.prems(1-3) True]
      show ?thesis
      proof (cases "next_head s = init")
        case True
        then show ?thesis using p(2) less h nh \<open>slots s ! ?h\<close> by (intro exI [of _ "[]"] exI [of _ init]) simp
      next
        case False
        have "free_slots ?s = free_slots s" by (simp add: free_slots_def)
        then have "card (free_slots ?s) * slot_inuse ?s + turn init ?s \<le> fuel"
          using turn_next [OF Suc.prems(1,2) False] Suc.prems(4) by simp
        from Suc.IH [OF res_ok_next [OF Suc.prems(1)] _ p(1) this, of ks] Suc.prems(2) True False less h
        show ?thesis by (auto simp: Let_def free_slots_def)
      qed
    next
      case False
      let ?t = "s \<lparr> slots := (slots s)[?h := True] \<rparr>" and ?s = "s \<lparr> slots := (slots s)[?h := True], rs_slot_head := next_head s \<rparr>"
      have ok: "res_ok ?t" using Suc.prems(1) by (simp add: res_ok_def)
      have nt: "?s = ?t \<lparr> rs_slot_head := next_head ?t \<rparr>" by (simp add: next_head_def)
      have fr: "free_slots ?s = free_slots s - {?h}" using free_slots_occupy [OF Suc.prems(1) h(2)] by (simp add: free_slots_def)
      have mem: "?h \<in> free_slots s" using h False by (simp add: free_slots_def)
      have "passed init ?s" unfolding nt
        using passed_next(1) [OF ok _ passed_occupy [OF Suc.prems(1) h(2) Suc.prems(3)]] Suc.prems(2) h by simp
      moreover have "card (free_slots ?s) * slot_inuse ?s + turn init ?s \<le> fuel"
      proof -
        have "turn init ?s \<le> slot_inuse s" using turn_bounds [of ?s init] res_ok_next [OF ok] Suc.prems(2) unfolding nt by simp
        moreover have "1 \<le> turn init s" using turn_bounds [OF Suc.prems(1,2)] by simp
        moreover have "card (free_slots s) = Suc (card (free_slots ?s))" using card_Suc_Diff1 [OF finite_free mem] fr by simp
        ultimately show ?thesis using Suc.prems(4) by simp
      qed
      moreover have "res_ok ?s" using res_ok_next [OF ok] unfolding nt .
      ultimately obtain new g where n: "find_slots fuel init n (ks @ [?h]) ?s =
          Some ((ks @ [?h]) @ new, ?s \<lparr> slots := fold (\<lambda>k v. v[k := True]) new (slots ?s), rs_slot_head := g \<rparr>)"
        "g < slot_inuse s" "distinct new" "set new \<subseteq> free_slots s - {?h}" "length ((ks @ [?h]) @ new) < n \<longrightarrow> free_slots s - {?h} \<subseteq> set new"
        "length (ks @ [?h]) \<le> n \<longrightarrow> length ((ks @ [?h]) @ new) \<le> n"
        using Suc.IH [of ?s "ks @ [?h]"] Suc.prems(2) unfolding fr by fastforce
      have "find_slots (Suc fuel) init n ks s = find_slots fuel init n (ks @ [?h]) ?s"
        using less h False by (simp add: Let_def next_head_def)
      with n mem less show ?thesis by (intro exI [of _ "?h # new"] exI [of _ g]) auto
    qed
  qed
qed

subsection \<open>The slots of a new connection\<close>

definition res_inv :: "RdmaResource \<Rightarrow> bool" where
  "res_inv s \<longleftrightarrow> length (slots s) = RECV_SLOT_STEP * length (comm_buf s) \<and> slot_inuse s \<le> length (slots s) \<and>
     (\<forall>k. slot_inuse s \<le> k \<and> k < length (slots s) \<longrightarrow> \<not> slots s ! k) \<and> rs_slot_head s \<le> slot_inuse s \<and>
     distinct (rs_srq s) \<and> (\<forall>k \<in> set (rs_srq s). k < slot_inuse s \<and> slots s ! k)"

lemma reg_chunks_ok:
  assumes "\<forall>k. rs_reg s k" "i = RECV_SLOT_STEP * length (comm_buf s)"
  shows "\<exists>j xs. reg_chunks i s = (Some (j, s \<lparr> comm_buf := comm_buf s @ xs \<rparr>), s \<lparr> comm_buf := comm_buf s @ xs \<rparr>) \<and>
    j = RECV_SLOT_STEP * length (comm_buf s @ xs) \<and> slot_inuse s \<le> j \<and> i \<le> j"
  using assms
proof (induction i s rule: reg_chunks.induct)
  case (1 i s)
  show ?case
  proof (cases "i < slot_inuse s")
    case True
    let ?s = "s \<lparr> comm_buf := comm_buf s @ [rs_zm s (length (comm_buf s))] \<rparr>"
    from "1.IH" [OF True refl] "1.prems" obtain j xs where
      "reg_chunks (i + RECV_SLOT_STEP) ?s = (Some (j, ?s \<lparr> comm_buf := comm_buf ?s @ xs \<rparr>), ?s \<lparr> comm_buf := comm_buf ?s @ xs \<rparr>)"
      "j = RECV_SLOT_STEP * length (comm_buf ?s @ xs)" "slot_inuse s \<le> j" "i + RECV_SLOT_STEP \<le> j" by (auto simp: algebra_simps)
    with True "1.prems" show ?thesis
      by (subst reg_chunks.simps) (auto simp: Let_def intro!: exI [of _ "rs_zm s (length (comm_buf s)) # xs"])
  next
    case False
    with "1.prems" show ?thesis by (subst reg_chunks.simps) (auto intro!: exI [of _ "[]"])
  qed
qed

lemma nth_append_False: "k < length xs + n \<Longrightarrow> \<not> length xs \<le> k \<or> \<not> (xs @ replicate n False) ! k"
  by (auto simp: nth_append)

lemma RegCommSlot_ok:
  assumes inv: "res_inv s" and reg: "\<forall>k. rs_reg s k" and small: "length (slots s) < 2 ^ 64"
  shows "\<exists>xs m. RegCommSlot n s = (0, s \<lparr> slot_inuse := slot_inuse s + n, comm_buf := comm_buf s @ xs, slots := slots s @ replicate m False \<rparr>) \<and>
    res_inv (s \<lparr> slot_inuse := slot_inuse s + n, comm_buf := comm_buf s @ xs, slots := slots s @ replicate m False \<rparr>)"
proof -
  have l: "length (slots s) = RECV_SLOT_STEP * length (comm_buf s)" "slot_inuse s \<le> length (slots s)"
    using inv by (simp_all add: res_inv_def)
  have w: "(length (slots s) + 2 ^ 64 - slot_inuse s) mod 2 ^ 64 = length (slots s) - slot_inuse s"
    using l(2) small by (simp add: mod_if)
  show ?thesis
  proof (cases "n \<le> length (slots s) - slot_inuse s")
    case True
    then have "RegCommSlot n s = (0, s \<lparr> slot_inuse := slot_inuse s + n \<rparr>)" unfolding RegCommSlot_def w by simp
    moreover have "res_inv (s \<lparr> slot_inuse := slot_inuse s + n \<rparr>)" using inv True by (auto simp: res_inv_def)
    ultimately show ?thesis by (intro exI [of _ "[]"] exI [of _ 0]) simp
  next
    case False
    let ?s = "s \<lparr> slot_inuse := slot_inuse s + n \<rparr>"
    obtain j xs where c: "reg_chunks (length (slots s)) ?s = (Some (j, ?s \<lparr> comm_buf := comm_buf s @ xs \<rparr>), ?s \<lparr> comm_buf := comm_buf s @ xs \<rparr>)"
      "j = RECV_SLOT_STEP * length (comm_buf s @ xs)" "slot_inuse s + n \<le> j" "length (slots s) \<le> j"
      using reg_chunks_ok [of ?s "length (slots s)"] reg l(1) by auto
    then have "RegCommSlot n s = (0, ?s \<lparr> comm_buf := comm_buf s @ xs, slots := slots s @ replicate (j - length (slots s)) False \<rparr>)"
      unfolding RegCommSlot_def w using False by simp
    moreover have "res_inv (?s \<lparr> comm_buf := comm_buf s @ xs, slots := slots s @ replicate (j - length (slots s)) False \<rparr>)"
      using inv c(2-4) by (auto simp: res_inv_def nth_append)
    ultimately show ?thesis by (intro exI [of _ xs] exI [of _ "j - length (slots s)"]) simp
  qed
qed

lemma res_inv_ok: "res_inv s \<Longrightarrow> rs_slot_head s < slot_inuse s \<Longrightarrow> res_ok s"
  by (auto simp: res_inv_def res_ok_def BPOS_def RECV_SLOT_STEP_def less_mult_imp_div_less mult.commute)

lemma length_fold_occupy [simp]: "length (fold (\<lambda>k v. v[k := True]) ks v) = length v"
  by (induction ks arbitrary: v) simp_all

lemma fold_occupy: "j < length v \<Longrightarrow> fold (\<lambda>k v. v[k := True]) ks v ! j \<longleftrightarrow> v ! j \<or> j \<in> set ks"
proof (induction ks arbitrary: v)
  case (Cons a ks)
  then show ?case by (cases "a = j") auto
qed simp

lemma PostRecv_ok:
  assumes inv: "res_inv s" and head: "rs_slot_head s < slot_inuse s" and dev: "\<forall>q ks. length ks \<le> rs_take s q ks"
    and n: "0 < n" "n \<le> rx_depth s - recv_posted s" and fuel: "slot_inuse s * (slot_inuse s + 1) \<le> fuel"
  shows "\<exists>ks t. PostRecv fuel n s = Some (int (length ks), t) \<and> rs_srq t = rs_srq s @ ks \<and> set ks \<subseteq> free_slots s \<and>
    length ks = min (nat n) (card (free_slots s)) \<and> res_inv t \<and> recv_posted t = recv_posted s + n"
proof -
  let ?i = "rs_slot_head s"
  note ok = res_inv_ok [OF inv head]
  have "free_slots s \<subseteq> {..< slot_inuse s}" by (auto simp: free_slots_def)
  then have "card (free_slots s) \<le> slot_inuse s" using card_mono [of "{..< slot_inuse s}"] by fastforce
  then have "card (free_slots s) * slot_inuse s + turn ?i s \<le> slot_inuse s * slot_inuse s + slot_inuse s"
    using turn_bounds [OF ok head] by (intro add_mono mult_le_mono1) simp_all
  also have "\<dots> \<le> fuel" using fuel by (simp add: algebra_simps)
  finally have f: "card (free_slots s) * slot_inuse s + turn ?i s \<le> fuel" .
  have "passed ?i s" by (auto simp: passed_def)
  from find_slots_ok [OF ok head this f, of "nat n" "[]"] obtain ks h where
    k: "find_slots fuel ?i (nat n) [] s = Some (ks, s \<lparr> slots := fold (\<lambda>k v. v[k := True]) ks (slots s), rs_slot_head := h \<rparr>)"
      "h < slot_inuse s" "distinct ks" "set ks \<subseteq> free_slots s" "length ks < nat n \<longrightarrow> free_slots s \<subseteq> set ks" "length ks \<le> nat n" by auto
  define t where "t = s \<lparr> slots := fold (\<lambda>k v. v[k := True]) ks (slots s), rs_slot_head := h, rs_srq := rs_srq s @ ks, recv_posted := recv_posted s + n \<rparr>"
  have "PostRecv fuel n s = Some (int (length ks), t)"
    using n k(1) dev unfolding PostRecv_def t_def by (cases "ks = []") (auto simp: post_srq_def Let_def min_absorb1)
  moreover have "length ks = min (nat n) (card (free_slots s))"
  proof -
    have c: "card (set ks) = length ks" using k(3) by (rule distinct_card)
    have "length ks \<le> card (free_slots s)" using card_mono [OF finite_free k(4)] c by simp
    moreover have "free_slots s = set ks" if "length ks < nat n" using k(4,5) that by auto
    ultimately show ?thesis using k(6) c by (cases "length ks < nat n") auto
  qed
  moreover have "res_inv t"
  proof -
    have j: "j < slot_inuse s \<and> \<not> slots s ! j \<and> j < length (slots s)" if "j \<in> set ks" for j
      using that k(4) ok by (auto simp: free_slots_def res_ok_def)
    have 1: "\<forall>i. slot_inuse s \<le> i \<and> i < length (slots s) \<longrightarrow> \<not> fold (\<lambda>k v. v[k := True]) ks (slots s) ! i"
      using inv j by (simp add: res_inv_def fold_occupy) (meson linorder_not_le)
    have 2: "\<forall>i \<in> set (rs_srq s @ ks). i < slot_inuse s \<and> fold (\<lambda>k v. v[k := True]) ks (slots s) ! i"
      using inv j ok by (auto simp: res_inv_def res_ok_def fold_occupy)
    have 3: "distinct (rs_srq s @ ks)" using inv j k(3) by (auto simp: res_inv_def)
    show ?thesis using inv k(2) 1 2 3 by (simp add: res_inv_def t_def)
  qed
  ultimately show ?thesis using k(4) by (intro exI [of _ ks] exI [of _ t]) (simp add: t_def)
qed

text \<open>
  C32: A new connection gets its receive slots. Whatever connections a node has, registering one more and
  posting its receives puts \<open>MAX_WORKER_PENDING_MSG\<close> further slots into the shared receive queue; all of
  them were free, so no slot is ever in the queue twice, and each has its own address in a registered
  chunk. The device is assumed to accept the receives, the chunks to be registered, and the
  depth of the receive queue not to be used up.
\<close>

theorem new_connection_gets_receive_slots:
  assumes "res_inv s" "\<forall>k. rs_reg s k" "\<forall>q ks. length ks \<le> rs_take s q ks" "length (slots s) < 2 ^ 64"
    and "MAX_WORKER_PENDING_MSG \<le> rx_depth s - recv_posted s" "(slot_inuse s + 1024) * (slot_inuse s + 1025) \<le> fuel"
  shows "\<exists>t ks u. NewRdmaContext False s = (True, t) \<and> PostRecv fuel MAX_WORKER_PENDING_MSG t = Some (MAX_WORKER_PENDING_MSG, u) \<and>
    rs_srq u = rs_srq s @ ks \<and> int (length ks) = MAX_WORKER_PENDING_MSG \<and> distinct (rs_srq u) \<and>
    (\<forall>k \<in> set (rs_srq u). GetSlot k u \<noteq> None) \<and> res_inv u"
proof -
  let ?s = "s \<lparr> rdma_context_counter := rdma_context_counter s + 1 \<rparr>"
  have "res_inv ?s" "\<forall>k. rs_reg ?s k" "length (slots ?s) < 2 ^ 64" using assms(1,2,4) by (simp_all add: res_inv_def)
  from RegCommSlot_ok [OF this, of 1024] obtain xs m where
    r: "RegCommSlot 1024 ?s = (0, ?s \<lparr> slot_inuse := slot_inuse s + 1024, comm_buf := comm_buf s @ xs, slots := slots s @ replicate m False \<rparr>)"
    and i: "res_inv (?s \<lparr> slot_inuse := slot_inuse s + 1024, comm_buf := comm_buf s @ xs, slots := slots s @ replicate m False \<rparr>)" by auto
  define t where "t = ?s \<lparr> slot_inuse := slot_inuse s + 1024, comm_buf := comm_buf s @ xs, slots := slots s @ replicate m False \<rparr>"
  have n: "NewRdmaContext False s = (True, t)"
    using r by (simp add: NewRdmaContext_def Let_def HW_MAX_PENDING_def MAX_WORKER_PENDING_MSG_def t_def)
  have ti: "res_inv t" using i by (simp add: t_def)
  have head: "rs_slot_head t < slot_inuse t" using assms(1) by (simp add: t_def res_inv_def)
  have "{slot_inuse s ..< slot_inuse s + 1024} \<subseteq> free_slots t"
    using assms(1) i by (auto simp: free_slots_def t_def res_inv_def nth_append)
  then have "card {slot_inuse s ..< slot_inuse s + 1024} \<le> card (free_slots t)" by (rule card_mono [OF finite_free])
  then have "1024 \<le> card (free_slots t)" by simp
  have tf: "rs_take t = rs_take s" "rx_depth t = rx_depth s" "recv_posted t = recv_posted s" "slot_inuse t = slot_inuse s + 1024" "rs_srq t = rs_srq s"
    by (simp_all add: t_def)
  have "slot_inuse t + 1 = slot_inuse s + 1025" by (simp add: tf)
  then have f: "slot_inuse t * (slot_inuse t + 1) \<le> fuel" using assms(6) unfolding tf by (simp add: add.commute)
  obtain ks u where p: "PostRecv fuel MAX_WORKER_PENDING_MSG t = Some (int (length ks), u)" "rs_srq u = rs_srq s @ ks"
    "length ks = min (nat MAX_WORKER_PENDING_MSG) (card (free_slots t))" "res_inv u"
    using PostRecv_ok [OF ti head _ _ _ f, of MAX_WORKER_PENDING_MSG] assms(3,5) unfolding tf by (auto simp: MAX_WORKER_PENDING_MSG_def)
  have l: "int (length ks) = MAX_WORKER_PENDING_MSG" using p(3) \<open>1024 \<le> card (free_slots t)\<close> by (simp add: MAX_WORKER_PENDING_MSG_def)
  have "GetSlot k u \<noteq> None" if "k \<in> set (rs_srq u)" for k
    using that p(4) by (auto simp: res_inv_def GetSlot_def BPOS_def RECV_SLOT_STEP_def intro!: less_mult_imp_div_less)
  moreover have "distinct (rs_srq u)" using p(4) by (simp add: res_inv_def)
  ultimately show ?thesis using n p(1,2,4) l by (intro exI [of _ t] exI [of _ ks] exI [of _ u]) simp
qed

definition demo_resource :: RdmaResource where
  "demo_resource = new_RdmaResource False (\<lambda>q ks. length ks) (\<lambda>k. of_nat k * 0x100000) (\<lambda>_. True)"

theorem new_connection_gets_receive_slots_witness:
  "\<exists>t ks u. NewRdmaContext False demo_resource = (True, t) \<and> PostRecv 1049600 MAX_WORKER_PENDING_MSG t = Some (MAX_WORKER_PENDING_MSG, u) \<and>
    rs_srq u = ks \<and> int (length ks) = MAX_WORKER_PENDING_MSG \<and> distinct ks"
proof -
  have d: "res_inv demo_resource" "\<forall>k. rs_reg demo_resource k" "\<forall>q ks. length ks \<le> rs_take demo_resource q ks"
    "length (slots demo_resource) < 2 ^ 64" "rs_srq demo_resource = []"
    "MAX_WORKER_PENDING_MSG \<le> rx_depth demo_resource - recv_posted demo_resource"
    "(slot_inuse demo_resource + 1024) * (slot_inuse demo_resource + 1025) \<le> 1049600"
    by (simp_all add: demo_resource_def new_RdmaResource_def res_inv_def MAX_WORKER_PENDING_MSG_def WORKER_RDMA_SRQ_RX_DEPTH_def
        HW_MAX_PENDING_def MAX_MASTER_PENDING_MSG_def MAX_NUM_WORKER_def)
  from new_connection_gets_receive_slots [OF d(1-4,6,7)] show ?thesis unfolding d(5) by auto
qed

end
