(* ===== verification/Connection.thy ===== *)
theory Connection
  imports Mem_Stats Rdma_Resource
begin

text \<open>
  How two nodes exchange the parameters of a connection as text: \<open>GetRdmaConnString\<close> and
  \<open>SetRemoteConnParam\<close> of \<open>src/rdma.cc\<close>, and the layer of \<open>src/client.cc\<close> that puts the worker id in
  front. \<open>sprintf\<close> and \<open>sscanf\<close> are written out for the formats that are used. A \<open>gid\<close> is its four
  32-bit words in memory order.
\<close>

subsection \<open>Hexadecimal numbers as text\<close>

definition hex_digit :: "nat \<Rightarrow> byte" where
  "hex_digit d = (if d < 10 then of_nat (48 + d) else of_nat (87 + d))"

fun show_hex :: "nat \<Rightarrow> byte list" where
  "show_hex n = (if n < 16 then [hex_digit n] else show_hex (n div 16) @ [hex_digit (n mod 16)])"

declare show_hex.simps [simp del]

text \<open>\<open>%0wx\<close>\<close>

definition print_hex :: "nat \<Rightarrow> nat \<Rightarrow> byte list" where
  "print_hex w n = replicate (w - length (show_hex n)) 48 @ show_hex n"

definition hex_value :: "byte \<Rightarrow> nat option" where
  "hex_value b =
     (if 48 \<le> b \<and> b \<le> 57 then Some (unat b - 48)
      else if 97 \<le> b \<and> b \<le> 102 then Some (unat b - 87)
      else if 65 \<le> b \<and> b \<le> 70 then Some (unat b - 55) else None)"

definition is_hex :: "byte \<Rightarrow> bool" where "is_hex b \<longleftrightarrow> hex_value b \<noteq> None"

definition hex_number :: "byte list \<Rightarrow> nat" where
  "hex_number bs = foldl (\<lambda>a b. 16 * a + (case hex_value b of Some d \<Rightarrow> d | None \<Rightarrow> 0)) 0 bs"

text \<open>
  \<open>%x\<close>: white space, a sign, \<open>0x\<close>, digits. The number is read as an \<open>unsigned long\<close> and then stored at
  the width of the variable.
\<close>

definition skip_0x :: "byte list \<Rightarrow> byte list" where
  "skip_0x bs =
     (case bs of
        a # b # c # rest \<Rightarrow> if a = 48 \<and> (b = 120 \<or> b = 88) \<and> is_hex c then c # rest else bs
      | _ \<Rightarrow> bs)"

definition scan_hex :: "byte list \<Rightarrow> (64 word \<times> byte list) option" where
  "scan_hex bs =
     (case get_sign (dropWhile is_space bs) of
        (neg, bs) \<Rightarrow>
          (let bs = skip_0x bs; ds = takeWhile is_hex bs; v = min (hex_number ds) (2 ^ 64 - 1)
           in if ds = [] then None else Some (if neg then - of_nat v else of_nat v, dropWhile is_hex bs)))"

definition scan_char :: "byte \<Rightarrow> byte list \<Rightarrow> byte list option" where
  "scan_char c bs = (case bs of b # bs' \<Rightarrow> if b = c then Some bs' else None | [] \<Rightarrow> None)"

text \<open>\<open>%s\<close>\<close>

definition scan_string :: "byte list \<Rightarrow> byte list option" where
  "scan_string bs =
     (let t = takeWhile (\<lambda>b. \<not> is_space b) (dropWhile is_space bs) in if t = [] then None else Some t)"

subsection \<open>The parameters of a connection\<close>

record ConnParam =
  cp_lid :: "16 word"
  cp_qpn :: "32 word"
  cp_psn :: "32 word"
  cp_rkey :: "32 word"
  cp_vaddr :: "64 word"
  cp_gid :: "32 word list"

definition gid_to_wire_gid :: "32 word list \<Rightarrow> byte list" where
  "gid_to_wire_gid g = concat (map (\<lambda>w. print_hex 8 (unat (htonl w))) g)"

text \<open>Eight characters at a time; \<open>None\<close> when some of them are no number.\<close>

fun wire_gid_to_gid :: "nat \<Rightarrow> byte list \<Rightarrow> 32 word list option" where
  "wire_gid_to_gid 0 bs = Some []"
| "wire_gid_to_gid (Suc n) bs = do {
     (v, _) \<leftarrow> scan_hex (take 8 bs);
     g \<leftarrow> wire_gid_to_gid n (drop 8 bs);
     Some (htonl (ucast v) # g) }"

definition GetRdmaConnString :: "bool \<Rightarrow> ConnParam \<Rightarrow> byte list" where
  "GetRdmaConnString master p =
     print_hex 4 (unat (cp_lid p)) @ COLON # print_hex 8 (unat (cp_qpn p)) @ COLON # print_hex 8 (unat (cp_psn p)) @ COLON #
     (if master then [] else print_hex 8 (unat (cp_rkey p)) @ COLON # print_hex 16 (unat (cp_vaddr p)) @ [COLON]) @
     gid_to_wire_gid (cp_gid p)"

text \<open>
  What the other side learns; \<open>None\<close> when a variable stays uninitialised. A connection with the master
  keeps its \<open>rkey\<close> and \<open>vaddr\<close>.
\<close>

definition SetRemoteConnParam :: "bool \<Rightarrow> 32 word \<Rightarrow> 64 word \<Rightarrow> byte list \<Rightarrow> ConnParam option" where
  "SetRemoteConnParam master rkey vaddr conn = do {
     (rlid, t) \<leftarrow> scan_hex conn; t \<leftarrow> scan_char COLON t;
     (rqpn, t) \<leftarrow> scan_hex t; t \<leftarrow> scan_char COLON t;
     (rpsn, t) \<leftarrow> scan_hex t; t \<leftarrow> scan_char COLON t;
     (rk, va, t) \<leftarrow> (if master then Some (rkey, vaddr, t)
                     else do { (k, t) \<leftarrow> scan_hex t; t \<leftarrow> scan_char COLON t;
                               (v, t) \<leftarrow> scan_hex t; t \<leftarrow> scan_char COLON t; Some (ucast k, v, t) });
     s \<leftarrow> scan_string t;
     g \<leftarrow> wire_gid_to_gid 4 s;
     Some \<lparr> cp_lid = ucast rlid, cp_qpn = ucast rqpn, cp_psn = ucast rpsn, cp_rkey = rk, cp_vaddr = va, cp_gid = g \<rparr> }"

subsection \<open>The worker id in front\<close>

text \<open>
  \<open>GetConnString\<close> on the master, on a worker towards the master, and between workers; \<open>wid\<close> is the
  id the client of the master has, \<open>workerid\<close> the one of the calling worker.
\<close>

definition GetConnString :: "bool \<Rightarrow> bool \<Rightarrow> 32 word \<Rightarrow> 32 word \<Rightarrow> ConnParam \<Rightarrow> byte list" where
  "GetConnString is_master for_master wid workerid p =
     print_hex 4 (unat (if is_master then wid else if for_master then 0 else workerid)) @ COLON #
     GetRdmaConnString for_master p"

text \<open>\<open>strchr(conn, ':') + 1\<close>; without a colon the pointer is not valid.\<close>

definition after_colon :: "byte list \<Rightarrow> byte list option" where
  "after_colon bs = (case dropWhile (\<lambda>b. b \<noteq> COLON) bs of [] \<Rightarrow> None | _ # rest \<Rightarrow> Some rest)"

definition cli_SetRemoteConnParam :: "bool \<Rightarrow> bool \<Rightarrow> int \<Rightarrow> byte list \<Rightarrow> (32 word \<times> ConnParam) option" where
  "cli_SetRemoteConnParam is_master for_master counter conn = do {
     wid \<leftarrow> (if is_master then Some (of_int counter) else do { (v, _) \<leftarrow> scan_hex conn; Some (ucast v) });
     p \<leftarrow> after_colon conn;
     cp \<leftarrow> SetRemoteConnParam for_master 0 0 p;
     Some (wid, cp) }"

definition MASTER_RDMA_CONN_STRLEN :: nat where "MASTER_RDMA_CONN_STRLEN = 54"
definition WORKER_RDMA_CONN_STRLEN :: nat where "WORKER_RDMA_CONN_STRLEN = MASTER_RDMA_CONN_STRLEN + 8 + 16 + 2"
definition MAX_CONN_STRLEN :: nat where "MAX_CONN_STRLEN = WORKER_RDMA_CONN_STRLEN + 4 + 1"

subsection \<open>Reading back what was printed\<close>

lemma hex_digit_cases:
  assumes "d < 16"
  shows "hex_value (hex_digit d) = Some d \<and> \<not> is_space (hex_digit d) \<and>
         hex_digit d \<notin> {COLON, 43, 45, 120, 88}"
proof -
  have "d \<in> set [0..<16]" using assms by simp
  then have "d \<in> {0, 1, 2, 3, 4, 5, 6, 7, 8, 9, 10, 11, 12, 13, 14, 15}" by (simp add: upt_rec eval_nat_numeral)
  then show ?thesis
    by (elim insertE emptyE; simp add: hex_digit_def hex_value_def is_space_def)
qed

definition hex_text :: "byte list \<Rightarrow> bool" where
  "hex_text bs \<longleftrightarrow> (\<forall>b\<in>set bs. \<exists>d<16. b = hex_digit d)"

lemma hex_text_append [simp]: "hex_text (a @ b) \<longleftrightarrow> hex_text a \<and> hex_text b"
  by (auto simp: hex_text_def)

lemma hex_text_Cons [simp]: "hex_text (a # b) \<longleftrightarrow> (\<exists>d<16. a = hex_digit d) \<and> hex_text b"
  by (auto simp: hex_text_def)

lemma hex_text_Nil [simp]: "hex_text []" by (simp add: hex_text_def)

lemma hex_text_all:
  assumes "hex_text bs" "b \<in> set bs"
  shows "is_hex b" "\<not> is_space b" "b \<noteq> COLON" "b \<noteq> 43" "b \<noteq> 45" "b \<noteq> 120" "b \<noteq> 88"
  using assms hex_digit_cases by (fastforce simp: hex_text_def is_hex_def)+

lemma hex_number_snoc: "hex_number (bs @ [b]) = 16 * hex_number bs + (case hex_value b of Some d \<Rightarrow> d | None \<Rightarrow> 0)"
  by (simp add: hex_number_def)

lemma hex_number_zeros: "hex_number (replicate k 48 @ bs) = hex_number bs"
  by (induction k) (simp_all add: hex_number_def hex_value_def)

lemma show_hex_ok: "hex_text (show_hex n) \<and> hex_number (show_hex n) = n \<and> show_hex n \<noteq> []"
proof (induction n rule: show_hex.induct)
  case (1 n)
  show ?case
  proof (cases "n < 16")
    case True
    then show ?thesis using hex_digit_cases by (auto simp: show_hex.simps [of n] hex_number_def)
  next
    case False
    have "n mod 16 < 16" by simp
    then show ?thesis using 1 [OF False] False hex_digit_cases [of "n mod 16"]
      by (auto simp: show_hex.simps [of n] hex_number_snoc intro!: exI [of _ "n mod 16"])
  qed
qed

lemma length_show_hex: "n < 16 ^ Suc w \<Longrightarrow> length (show_hex n) \<le> Suc w"
proof (induction w arbitrary: n)
  case 0
  then show ?case by (simp add: show_hex.simps [of n])
next
  case (Suc w)
  then have "n div 16 < 16 ^ Suc w" by (simp add: less_mult_imp_div_less mult.commute)
  then show ?case using Suc.IH [of "n div 16"] by (simp add: show_hex.simps [of n])
qed

lemma print_hex_ok: "hex_text (print_hex w n) \<and> hex_number (print_hex w n) = n"
proof -
  have "hex_digit 0 = 48" by (simp add: hex_digit_def)
  then have "hex_text (replicate k 48)" for k by (auto simp: hex_text_def intro!: exI [of _ 0])
  then show ?thesis using show_hex_ok by (simp add: print_hex_def hex_number_zeros)
qed

lemma length_print_hex: "n < 16 ^ w \<Longrightarrow> 0 < w \<Longrightarrow> length (print_hex w n) = w"
  using length_show_hex [of n "w - 1"] by (simp add: print_hex_def)

lemma length_print_hex_ge: "w \<le> length (print_hex w n)"
  by (simp add: print_hex_def)

lemma scan_hex_text:
  assumes t: "hex_text bs" and l: "2 \<le> length bs" and v: "hex_number bs < 2 ^ 64"
    and r: "rest = [] \<or> hd rest = COLON"
  shows "scan_hex (bs @ rest) = Some (of_nat (hex_number bs), rest)"
proof -
  obtain a b cs where bs: "bs = a # b # cs" using l by (cases bs; cases "tl bs") auto
  note all = hex_text_all [OF t]
  have dw: "dropWhile is_space (bs @ rest) = bs @ rest" using all(2) [of a] by (simp add: bs)
  have sg: "get_sign (bs @ rest) = (False, bs @ rest)"
    using all(4,5) [of a] by (simp add: bs get_sign_def)
  have sk: "skip_0x (bs @ rest) = bs @ rest"
    using all(6,7) [of b] by (simp add: bs skip_0x_def split: list.split)
  have c: "\<not> is_hex COLON" by (simp add: is_hex_def hex_value_def)
  have tw: "takeWhile is_hex (bs @ rest) = bs" "dropWhile is_hex (bs @ rest) = rest"
    using all(1) r c by (cases rest; simp add: takeWhile_append dropWhile_append)+
  have "min (hex_number bs) (2 ^ 64 - 1) = hex_number bs" using v by simp
  moreover have "bs \<noteq> []" by (simp add: bs)
  ultimately show ?thesis by (simp only: scan_hex_def dw sg sk tw Let_def prod.case if_False)
qed

lemma scan_print_hex:
  assumes "n < 2 ^ 64" "2 \<le> w" "rest = [] \<or> hd rest = COLON"
  shows "scan_hex (print_hex w n @ rest) = Some (of_nat n, rest)"
  using scan_hex_text [of "print_hex w n" rest] print_hex_ok [of w n] length_print_hex_ge [of w n] assms
  by simp

lemma unat_lt_64:
  fixes a :: "16 word" and b :: "32 word" and c :: "64 word"
  shows "unat a < 2 ^ 64" "unat b < 2 ^ 64" "unat c < 2 ^ 64"
  using unsigned_less [of a, where 'a = nat] unsigned_less [of b, where 'a = nat]
    unsigned_less [of c, where 'a = nat] by auto

lemma ucast_back [simp]:
  fixes a :: "16 word" and b :: "32 word"
  shows "ucast (ucast a :: 64 word) = a" "ucast (ucast b :: 64 word) = b"
  by (rule bit_word_eqI; simp add: bit_simps)+

lemma byte_masks: "(0xFF :: 32 word) = mask 8" "(0xFF00 :: 32 word) = push_bit 8 (mask 8)"
  by (simp_all add: mask_eq_exp_minus_1 push_bit_eq_mult)

lemma bit_htonl: "n < 32 \<Longrightarrow> bit (htonl w) n = bit w (8 * (3 - n div 8) + n mod 8)"
proof -
  assume n: "n < 32"
  consider "n < 8" | "8 \<le> n" "n < 16" | "16 \<le> n" "n < 24" | "24 \<le> n" using n by linarith
  then show ?thesis
  proof cases
    case 1
    then have "n div 8 = 0" "n mod 8 = n" by auto
    then show ?thesis using 1 by (auto simp: htonl_def byte_masks bit_simps add.commute)
  next
    case 2
    then have "n div 8 = 1" "n mod 8 = n - 8" by (auto simp: mod_if)
    then show ?thesis using 2 by (auto simp: htonl_def byte_masks bit_simps add.commute)
  next
    case 3
    then have "n div 8 = 2" "n mod 8 = n - 16" by (auto simp: mod_if)
    then show ?thesis using 3 n by (auto simp: htonl_def byte_masks bit_simps add.commute)
  next
    case 4
    then have "n div 8 = 3" "n mod 8 = n - 24" using n by (auto simp: mod_if)
    then show ?thesis using 4 n by (auto simp: htonl_def byte_masks bit_simps add.commute)
  qed
qed

lemma htonl_htonl [simp]: "htonl (htonl w) = w"
proof (rule bit_word_eqI)
  fix n assume "n < LENGTH(32)"
  then have "n < 32" by simp
  then have "n div 8 \<le> 3" by simp
  then show "bit (htonl (htonl w)) n = bit w n" using \<open>n < 32\<close>
    by (simp add: bit_htonl)
qed

lemma scan_word [simp]:
  fixes a :: "16 word" and b :: "32 word" and c :: "64 word"
  shows "scan_hex (print_hex 4 (unat a) @ COLON # rest) = Some (ucast a, COLON # rest)"
    "scan_hex (print_hex 8 (unat b) @ COLON # rest) = Some (ucast b, COLON # rest)"
    "scan_hex (print_hex 16 (unat c) @ COLON # rest) = Some (c, COLON # rest)"
    "scan_hex (print_hex 4 (unat b) @ COLON # rest) = Some (ucast b, COLON # rest)"
    "scan_hex (print_hex 8 (unat b)) = Some (ucast b, [])"
  using scan_print_hex [OF unat_lt_64(1), of 4 "COLON # rest" a]
    scan_print_hex [OF unat_lt_64(2), of 8 "COLON # rest" b]
    scan_print_hex [OF unat_lt_64(3), of 16 "COLON # rest" c]
    scan_print_hex [OF unat_lt_64(2), of 4 "COLON # rest" b]
    scan_print_hex [OF unat_lt_64(2), of 8 "[]" b] by simp_all

lemma length_wire_word [simp]:
  fixes b :: "32 word"
  shows "length (print_hex 8 (unat b)) = 8"
  using length_print_hex [of "unat b" 8] unsigned_less [of b, where 'a = nat] by simp

lemma wire_gid_roundtrip: "wire_gid_to_gid (length g) (gid_to_wire_gid g) = Some g"
proof (induction g)
  case (Cons w g)
  then show ?case by (simp add: gid_to_wire_gid_def)
qed simp

lemma gid_text: "hex_text (gid_to_wire_gid g) \<and> length (gid_to_wire_gid g) = 8 * length g"
  using print_hex_ok by (induction g) (simp_all add: gid_to_wire_gid_def)

lemma scan_string_hex: "hex_text bs \<Longrightarrow> bs \<noteq> [] \<Longrightarrow> scan_string bs = Some bs"
  using hex_text_all(2) [of bs] by (cases bs) (auto simp: scan_string_def takeWhile_eq_all_conv)

lemma scan_colon [simp]: "scan_char c (c # bs) = Some bs"
  by (simp add: scan_char_def)

lemma SetRemoteConnParam_print:
  assumes "length (cp_gid p) = 4"
  shows "SetRemoteConnParam m rk va (GetRdmaConnString m p) =
         Some (if m then p\<lparr> cp_rkey := rk, cp_vaddr := va \<rparr> else p)"
proof -
  have "gid_to_wire_gid (cp_gid p) \<noteq> []" using gid_text [of "cp_gid p"] assms by auto
  then have "scan_string (gid_to_wire_gid (cp_gid p)) = Some (gid_to_wire_gid (cp_gid p))"
    using gid_text scan_string_hex by blast
  moreover have "wire_gid_to_gid 4 (gid_to_wire_gid (cp_gid p)) = Some (cp_gid p)"
    using wire_gid_roundtrip [of "cp_gid p"] assms by simp
  ultimately show ?thesis by (simp add: SetRemoteConnParam_def GetRdmaConnString_def)
qed

lemma after_colon_print [simp]: "after_colon (print_hex w n @ COLON # rest) = Some rest"
  using print_hex_ok [of w n] hex_text_all(3) [of "print_hex w n"]
  by (simp add: after_colon_def dropWhile_append2)

text \<open>
  C36: What one node prints the other reads back. For every connection parameter with a \<open>gid\<close> of four
  words, the string that \<open>Client::GetConnString\<close> builds is parsed by \<open>Client::SetRemoteConnParam\<close> on the
  other side to the same local id, queue pair number, sequence number and \<open>gid\<close>, and between workers also
  the same key and base address; a worker reads the worker id the sender put in front (the id the master
  gave it, or the id of the sending worker), the master takes its own counter.
\<close>

theorem connection_string_roundtrip:
  assumes "length (cp_gid p) = 4"
  shows "cli_SetRemoteConnParam receiver_master for_master counter
           (GetConnString sender_master for_master wid workerid p) =
         Some (if receiver_master then of_int counter
               else if sender_master then wid else if for_master then 0 else workerid,
               if for_master then p\<lparr> cp_rkey := 0, cp_vaddr := 0 \<rparr> else p)"
  using assms by (simp add: cli_SetRemoteConnParam_def GetConnString_def SetRemoteConnParam_print)

definition sample_param :: ConnParam where
  "sample_param = \<lparr> cp_lid = 0x2a, cp_qpn = 0x11b, cp_psn = 0x7fff01, cp_rkey = 0x1ee, cp_vaddr = 0x7f0012340000,
     cp_gid = [0x80fe, 0, 0xff0002c9, 0xfe1234] \<rparr>"

theorem connection_string_roundtrip_witness:
  "cli_SetRemoteConnParam False False 0 (GetConnString False False 0 3 sample_param) = Some (3, sample_param)"
  using connection_string_roundtrip [of sample_param False False 0 False 0 3] by (simp add: sample_param_def)

lemma length_print_words [simp]:
  fixes a :: "16 word" and c :: "64 word"
  shows "length (print_hex 4 (unat a)) = 4" "length (print_hex 16 (unat c)) = 16"
  using length_print_hex [of "unat a" 4] length_print_hex [of "unat c" 16]
    unsigned_less [of a, where 'a = nat] unsigned_less [of c, where 'a = nat] by simp_all

lemma length_GetRdmaConnString:
  "length (cp_gid p) = 4 \<Longrightarrow> length (GetRdmaConnString m p) = (if m then 55 else 81)"
  using gid_text [of "cp_gid p"] by (simp add: GetRdmaConnString_def)

text \<open>
  C37: The strings do not fit the buffers they are printed into. With its terminating zero, the text of a
  \<open>gid\<close> needs 33 bytes and the arrays hold 32; the connection string needs one byte more than the
  \<open>MASTER_RDMA_CONN_STRLEN + 1\<close> or \<open>WORKER_RDMA_CONN_STRLEN + 1\<close> bytes allocated for it; and the string
  of a worker with the id in front one byte more than the \<open>MAX_CONN_STRLEN + 1\<close> bytes of \<open>connstr\<close> and of
  the accepting side's \<open>msg\<close>.
\<close>

theorem connection_strings_overflow:
  assumes "length (cp_gid p) = 4" "unat workerid < 16 ^ 4"
  shows "length (gid_to_wire_gid (cp_gid p)) + 1 = 32 + 1 \<and>
         length (GetRdmaConnString True p) + 1 = (MASTER_RDMA_CONN_STRLEN + 1) + 1 \<and>
         length (GetRdmaConnString False p) + 1 = (WORKER_RDMA_CONN_STRLEN + 1) + 1 \<and>
         length (GetConnString False False wid workerid p) + 1 = (MAX_CONN_STRLEN + 1) + 1"
  using gid_text [of "cp_gid p"] assms length_print_hex [of "unat workerid" 4]
  by (simp add: GetConnString_def length_GetRdmaConnString MASTER_RDMA_CONN_STRLEN_def
      WORKER_RDMA_CONN_STRLEN_def MAX_CONN_STRLEN_def)

theorem connection_strings_overflow_witness:
  "length (GetRdmaConnString True sample_param) + 1 = (MASTER_RDMA_CONN_STRLEN + 1) + 1"
  using connection_strings_overflow [of sample_param 3 0] by (simp add: sample_param_def)

end
