(* ===== verification/Join.thy ===== *)
theory Join
  imports Connection
begin

text \<open>
  How workers join a cluster: the clients of a server (\<open>src/server.cc\<close>), the exchange of connection
  strings (\<open>ExchConnParam\<close> of \<open>src/client.cc\<close>, \<open>AcceptTcpClientHandle\<close> of \<open>src/tcp.cc\<close>), the list of
  addresses the master hands out (\<open>PostAcceptWorker\<close>) and the connections a new worker makes with it
  (\<open>PostConnectMaster\<close>). A client is named by the number of its queue pair. \<open>dev_qp k\<close> is the number the
  device gives to the \<open>k\<close>-th queue pair of a node. Sockets deliver what was written in one \<open>read\<close>, up to
  the size that was asked for; workers join one after the other.
\<close>

subsection \<open>Servers and their clients\<close>

record Srv_Client =
  c_wid :: "32 word"
  c_forMaster :: bool
  c_remote :: "ConnParam option"  \<comment> \<open>what the queue pair was connected to\<close>

record Server =
  s_isMaster :: bool
  s_param :: ConnParam  \<comment> \<open>of the node; the queue pair number is the one of the client\<close>
  s_counter :: int  \<comment> \<open>\<open>resource->GetCounter()\<close>\<close>
  s_qps :: nat  \<comment> \<open>queue pairs created\<close>
  dev_qp :: "nat \<Rightarrow> 32 word"
  qpCliMap :: "32 word \<rightharpoonup> Srv_Client"
  widCliMap :: "32 word \<rightharpoonup> 32 word"
  s_master :: "32 word option"  \<comment> \<open>the client of the master\<close>

definition new_Server :: "bool \<Rightarrow> ConnParam \<Rightarrow> (nat \<Rightarrow> 32 word) \<Rightarrow> Server" where
  "new_Server m p q = \<lparr> s_isMaster = m, s_param = p, s_counter = 0, s_qps = 0, dev_qp = q,
     qpCliMap = Map.empty, widCliMap = Map.empty, s_master = None \<rparr>"

definition GetWorkerId :: "Server \<Rightarrow> 32 word option" where
  "GetWorkerId s =
     (if s_isMaster s then Some 0
      else do { q \<leftarrow> s_master s; c \<leftarrow> qpCliMap s q; Some (c_wid c) })"

definition conn_param :: "Server \<Rightarrow> 32 word \<Rightarrow> ConnParam" where
  "conn_param s q = (s_param s) \<lparr> cp_qpn := q \<rparr>"

definition set_remote :: "32 word \<Rightarrow> byte list \<Rightarrow> Server \<Rightarrow> Server option" where
  "set_remote q conn s = do {
     c \<leftarrow> qpCliMap s q;
     (wid, p) \<leftarrow> cli_SetRemoteConnParam (s_isMaster s) (c_forMaster c) (s_counter s) conn;
     Some (s \<lparr> qpCliMap := (qpCliMap s)(q \<mapsto> c \<lparr> c_wid := wid, c_remote := Some p \<rparr>) \<rparr>) }"

text \<open>The context gets its queue pair from the device; then the parameters are set, if they are known.\<close>

definition NewClient :: "bool \<Rightarrow> byte list option \<Rightarrow> Server \<Rightarrow> (32 word \<times> Server) option" where
  "NewClient for_master rdmaConn s =
     (let q = dev_qp s (s_qps s);
          s = s \<lparr> s_counter := s_counter s + 1, s_qps := s_qps s + 1,
                  qpCliMap := (qpCliMap s)(q \<mapsto> \<lparr> c_wid = 0, c_forMaster = for_master, c_remote = None \<rparr>) \<rparr>
      in case rdmaConn of
           None \<Rightarrow> Some (q, s)
         | Some conn \<Rightarrow> do { s \<leftarrow> set_remote q conn s; Some (q, s) })"

definition FindClient :: "32 word \<Rightarrow> Server \<Rightarrow> Srv_Client option" where
  "FindClient qpn s = qpCliMap s qpn"

definition UpdateWidMap :: "32 word \<Rightarrow> Server \<Rightarrow> Server option" where
  "UpdateWidMap q s = do {
     c \<leftarrow> qpCliMap s q;
     Some (s \<lparr> widCliMap := (widCliMap s)(c_wid c \<mapsto> q) \<rparr>) }"

definition Server_FindClientWid :: "32 word \<Rightarrow> Server \<Rightarrow> 32 word option" where
  "Server_FindClientWid wid s = widCliMap s wid"

definition RmClient :: "32 word \<Rightarrow> Server \<Rightarrow> Server option" where
  "RmClient q s = do {
     c \<leftarrow> qpCliMap s q;
     Some (s \<lparr> qpCliMap := (qpCliMap s)(q := None), widCliMap := (widCliMap s)(c_wid c := None) \<rparr>) }"

definition conn_string :: "32 word \<Rightarrow> Server \<Rightarrow> byte list option" where
  "conn_string q s = do {
     c \<leftarrow> qpCliMap s q;
     i \<leftarrow> GetWorkerId s;
     Some (GetConnString (s_isMaster s) (c_forMaster c) (c_wid c) i (conn_param s q)) }"

subsection \<open>The exchange over a socket\<close>

text \<open>The accepting side: the answer, none when nothing was read.\<close>

definition AcceptTcpClientHandle :: "byte list \<Rightarrow> Server \<Rightarrow> (byte list \<times> Server) option" where
  "AcceptTcpClientHandle sent s =
     (let msg = take (MAX_CONN_STRLEN + 1) sent
      in if msg = [] then Some ([], s)
         else do {
           (q, s) \<leftarrow> NewClient (s_isMaster s) (Some msg) s;
           s \<leftarrow> UpdateWidMap q s;
           p \<leftarrow> conn_string q s;
           s \<leftarrow> UpdateWidMap q s;
           Some (p, s) })"

text \<open>The connecting side: what it writes, and what it does with the answer; \<open>False\<close> is a return of -1.\<close>

definition exch_recv :: "32 word \<Rightarrow> nat \<Rightarrow> byte list \<Rightarrow> Server \<Rightarrow> (bool \<times> Server) option" where
  "exch_recv q conn_len reply s =
     (if length reply < conn_len then Some (False, s)
      else do {
        s \<leftarrow> set_remote q (take conn_len reply) s;
        s \<leftarrow> UpdateWidMap q s;
        Some (True, s) })"

definition ExchConnParam :: "32 word \<Rightarrow> Server \<Rightarrow> Server \<Rightarrow> (bool \<times> Server \<times> Server) option" where
  "ExchConnParam q s peer = do {
     str \<leftarrow> conn_string q s;
     (reply, peer) \<leftarrow> AcceptTcpClientHandle str peer;
     (ok, s) \<leftarrow> exch_recv q (length str) reply s;
     Some (ok, s, peer) }"

subsection \<open>The list of workers\<close>

definition MAX_IPPORT_STRLEN :: nat where "MAX_IPPORT_STRLEN = 21"
definition MAX_WORKERS_STRLEN :: nat where
  "MAX_WORKERS_STRLEN = nat MAX_NUM_WORKER * MAX_IPPORT_STRLEN + nat MAX_NUM_WORKER - 1"

abbreviation (input) COMMA :: byte where "COMMA \<equiv> 44"

text \<open>\<open>getline\<close> with a delimiter.\<close>

fun pieces :: "byte \<Rightarrow> byte list \<Rightarrow> byte list list" where
  "pieces d [] = [[]]"
| "pieces d (b # bs) =
     (if b = d then [] # pieces d bs
      else case pieces d bs of p # ps \<Rightarrow> (b # p) # ps | [] \<Rightarrow> [[b]])"

definition Split_string :: "byte \<Rightarrow> byte list \<Rightarrow> byte list list" where
  "Split_string d bs = filter (\<lambda>p. p \<noteq> []) (pieces d bs)"

text \<open>What \<open>PostAcceptWorker\<close> sends, and the list once the address of the worker is read.\<close>

definition worker_list :: "byte list \<Rightarrow> byte list" where
  "worker_list ips = (if ips = [] then [32] else ips)"

definition PostAcceptWorker :: "byte list \<Rightarrow> byte list \<Rightarrow> byte list" where
  "PostAcceptWorker sent ips =
     (let ips = (if ips = [] then [] else ips @ [COMMA])
      in ips @ take MAX_WORKERS_STRLEN sent)"

type_synonym address = "byte list \<times> nat"

definition address_text :: "address \<Rightarrow> byte list" where
  "address_text a = fst a @ COLON # show_nat (snd a)"

text \<open>The number \<open>atoi\<close> reads; a port is not negative.\<close>

definition atoi_port :: "byte list \<Rightarrow> nat" where
  "atoi_port bs = digits_value (takeWhile is_digit (dropWhile is_space bs))"

fun find_worker :: "address \<Rightarrow> (address \<times> Server) list \<Rightarrow> Server option" where
  "find_worker a [] = None"
| "find_worker a ((b, s) # ws) = (if a = b then Some s else find_worker a ws)"

fun set_worker :: "address \<Rightarrow> Server \<Rightarrow> (address \<times> Server) list \<Rightarrow> (address \<times> Server) list" where
  "set_worker a t [] = []"
| "set_worker a t ((b, s) # ws) = (if a = b then (b, t) # ws else (b, s) # set_worker a t ws)"

text \<open>The loop over the list. A connection that is refused ends the process.\<close>

fun connect_all :: "byte list list \<Rightarrow> Server \<Rightarrow> (address \<times> Server) list \<Rightarrow> (Server \<times> (address \<times> Server) list) option" where
  "connect_all [] s ws = Some (s, ws)"
| "connect_all (t # ts) s ws =
     (if length t < 9 then connect_all ts s ws
      else case Split_string COLON t of
        ip # port # _ \<Rightarrow> do {
          (q, s) \<leftarrow> NewClient False None s;
          peer \<leftarrow> find_worker (ip, atoi_port port) ws;
          (_, s, peer) \<leftarrow> ExchConnParam q s peer;
          connect_all ts s (set_worker (ip, atoi_port port) peer ws) }
      | _ \<Rightarrow> None)"

definition PostConnectMaster :: "byte list \<Rightarrow> Server \<Rightarrow> (address \<times> Server) list \<Rightarrow> (Server \<times> (address \<times> Server) list) option" where
  "PostConnectMaster sent s ws = connect_all (Split_string COMMA (take MAX_WORKERS_STRLEN sent)) s ws"

subsection \<open>The cluster\<close>

record Cluster =
  cl_master :: Server
  cl_ips :: "byte list"  \<comment> \<open>\<open>worker_ips\<close>\<close>
  cl_workers :: "(address \<times> Server) list"

text \<open>The part of the constructor of a worker that connects it.\<close>

definition join_cluster :: "address \<Rightarrow> Server \<Rightarrow> Cluster \<Rightarrow> Cluster option" where
  "join_cluster a s cl = do {
     (q, s) \<leftarrow> NewClient True None s;
     let s = s \<lparr> s_master := Some q \<rparr>;
     (ok, s, m) \<leftarrow> ExchConnParam q s (cl_master cl);
     if \<not> ok then Some (cl \<lparr> cl_master := m, cl_workers := cl_workers cl @ [(a, s)] \<rparr>)
     else do {
       (s, ws) \<leftarrow> PostConnectMaster (worker_list (cl_ips cl)) s (cl_workers cl);
       Some \<lparr> cl_master = m, cl_ips = PostAcceptWorker (address_text a) (cl_ips cl), cl_workers = ws @ [(a, s)] \<rparr> } }"

fun join_all :: "(address \<times> Server) list \<Rightarrow> Cluster \<Rightarrow> Cluster option" where
  "join_all [] cl = Some cl"
| "join_all ((a, s) # xs) cl = do { cl \<leftarrow> join_cluster a s cl; join_all xs cl }"

subsection \<open>One exchange\<close>

definition with_client :: "bool \<Rightarrow> 32 word \<Rightarrow> 32 word \<Rightarrow> ConnParam \<Rightarrow> Server \<Rightarrow> Server" where
  "with_client fm q wid p s = s \<lparr> s_counter := s_counter s + 1, s_qps := s_qps s + 1,
     qpCliMap := (qpCliMap s)(q \<mapsto> \<lparr> c_wid = wid, c_forMaster = fm, c_remote = Some p \<rparr>),
     widCliMap := (widCliMap s)(wid \<mapsto> q) \<rparr>"

definition strip :: "bool \<Rightarrow> ConnParam \<Rightarrow> ConnParam" where
  "strip fm p = (if fm then p \<lparr> cp_rkey := 0, cp_vaddr := 0 \<rparr> else p)"

lemma read_back:
  assumes "length (cp_gid p) = 4"
  shows "cli_SetRemoteConnParam rm fm counter (GetConnString sm fm wid i p) =
         Some (if rm then of_int counter else if sm then wid else if fm then 0 else i, strip fm p)"
  using assms by (simp add: cli_SetRemoteConnParam_def GetConnString_def SetRemoteConnParam_print strip_def)

lemma length_conn_string:
  assumes "length (cp_gid p) = 4" "unat (if sm then wid else if fm then 0 else i) < 16 ^ 4"
  shows "length (GetConnString sm fm wid i p) = (if fm then 60 else 86)"
  using assms length_print_hex [of "unat (if sm then wid else if fm then 0 else i)" 4]
  by (cases fm; cases sm) (simp_all add: GetConnString_def length_GetRdmaConnString)

lemma gid_conn_param [simp]: "cp_gid (conn_param s q) = cp_gid (s_param s)"
  by (simp add: conn_param_def)

lemma GetWorkerId_with_client:
  assumes "qpCliMap s q = None" "GetWorkerId s = Some i"
  shows "GetWorkerId (with_client fm q wid p s) = Some i"
  using assms by (auto simp: GetWorkerId_def with_client_def split: if_splits Option.bind_splits)

lemma accept_ok:
  assumes p: "length (cp_gid p) = 4" and new: "qpCliMap b (dev_qp b (s_qps b)) = None"
    and j: "GetWorkerId b = Some j" and i: "unat i < 16 ^ 4"
    and wid: "wid = (if s_isMaster b then of_int (s_counter b + 1) else i)"
  shows "AcceptTcpClientHandle (GetConnString False (s_isMaster b) w i p) b =
    Some (GetConnString (s_isMaster b) (s_isMaster b) wid j (conn_param b (dev_qp b (s_qps b))),
      with_client (s_isMaster b) (dev_qp b (s_qps b)) wid (strip (s_isMaster b) p) b)"
proof -
  let ?q = "dev_qp b (s_qps b)" and ?str = "GetConnString False (s_isMaster b) w i p"
  let ?b = "with_client (s_isMaster b) ?q wid (strip (s_isMaster b) p) b"
  have l: "length ?str = (if s_isMaster b then 60 else 86)" using length_conn_string [OF p] i by simp
  then have "take (MAX_CONN_STRLEN + 1) ?str = ?str"
    by (simp add: MAX_CONN_STRLEN_def WORKER_RDMA_CONN_STRLEN_def MASTER_RDMA_CONN_STRLEN_def)
  moreover have "?str \<noteq> []" using l by (cases "s_isMaster b") auto
  moreover have "NewClient (s_isMaster b) (Some ?str) b = Some (?q, ?b \<lparr> widCliMap := widCliMap b \<rparr>)"
    by (simp add: NewClient_def set_remote_def Let_def read_back [OF p] with_client_def wid)
  moreover have "conn_string ?q ?b = Some (GetConnString (s_isMaster b) (s_isMaster b) wid j (conn_param b ?q))"
    using GetWorkerId_with_client [OF new j]
    by (simp add: conn_string_def) (simp add: with_client_def conn_param_def)
  ultimately show ?thesis
    by (simp add: AcceptTcpClientHandle_def UpdateWidMap_def) (simp add: with_client_def)
qed

text \<open>A new client and its exchange with a peer, on either kind of peer.\<close>

definition fresh_client :: "bool \<Rightarrow> Server \<Rightarrow> Server" where
  "fresh_client fm s = s \<lparr> s_counter := s_counter s + 1, s_qps := s_qps s + 1,
     qpCliMap := (qpCliMap s)(dev_qp s (s_qps s) \<mapsto> \<lparr> c_wid = 0, c_forMaster = fm, c_remote = None \<rparr>),
     s_master := (if fm then Some (dev_qp s (s_qps s)) else s_master s) \<rparr>"

lemma exchange_ok:
  fixes a b :: Server
  defines "qa \<equiv> dev_qp a (s_qps a)" and "qb \<equiv> dev_qp b (s_qps b)" and "fm \<equiv> s_isMaster b"
  assumes a: "\<not> s_isMaster a" "length (cp_gid (s_param a)) = 4" "GetWorkerId (fresh_client fm a) = Some i" "unat i < 16 ^ 4"
    and b: "length (cp_gid (s_param b)) = 4" "qpCliMap b qb = None" "GetWorkerId b = Some j"
    and wid: "wid = (if fm then of_int (s_counter b + 1) else i)"
    and rid: "rid = (if fm then wid else j)" "unat rid < 16 ^ 4"
  shows "ExchConnParam qa (fresh_client fm a) b =
    Some (True, with_client fm qa rid (strip fm (conn_param b qb)) (a \<lparr> s_master := s_master (fresh_client fm a) \<rparr>),
      with_client fm qb wid (strip fm (conn_param a qa)) b)"
proof -
  let ?str = "GetConnString False fm 0 i (conn_param a qa)"
  let ?reply = "GetConnString fm fm wid j (conn_param b qb)"
  have s: "conn_string qa (fresh_client fm a) = Some ?str"
    using a by (simp add: conn_string_def) (simp add: fresh_client_def qa_def conn_param_def)
  have acc: "AcceptTcpClientHandle ?str b = Some (?reply, with_client fm qb wid (strip fm (conn_param a qa)) b)"
    using accept_ok [of "conn_param a qa" b j i wid 0] a b wid by (simp add: fm_def qb_def)
  have l: "length ?str = (if fm then 60 else 86)" using length_conn_string [of "conn_param a qa" False 0 fm i] a by simp
  have lr: "length ?reply = (if fm then 60 else 86)"
    using length_conn_string [of "conn_param b qb" fm wid fm j] b rid by (cases fm) simp_all
  have "cli_SetRemoteConnParam False fm (s_counter a + 1) ?reply = Some (rid, strip fm (conn_param b qb))"
    using read_back [of "conn_param b qb" False fm "s_counter a + 1" fm wid j] b rid by simp
  then have "exch_recv qa (length ?str) ?reply (fresh_client fm a) =
      Some (True, with_client fm qa rid (strip fm (conn_param b qb)) (a \<lparr> s_master := s_master (fresh_client fm a) \<rparr>))"
    using a(1) l lr by (simp add: exch_recv_def set_remote_def UpdateWidMap_def fresh_client_def with_client_def qa_def)
  with s acc show ?thesis by (simp add: ExchConnParam_def)
qed

subsection \<open>Links\<close>

text \<open>
  Node \<open>a\<close> with id \<open>i\<close> and node \<open>b\<close> with id \<open>j\<close> are linked when each finds a client under the id of the
  other, and the queue pairs of these two clients are connected to each other.
\<close>

definition linked :: "Server \<Rightarrow> 32 word \<Rightarrow> Server \<Rightarrow> 32 word \<Rightarrow> bool" where
  "linked a i b j \<longleftrightarrow> (\<exists>qa qb ca cb. widCliMap a j = Some qa \<and> widCliMap b i = Some qb \<and>
     qpCliMap a qa = Some ca \<and> qpCliMap b qb = Some cb \<and> c_wid ca = j \<and> c_wid cb = i \<and>
     c_remote ca = Some (conn_param b qb) \<and> c_remote cb = Some (conn_param a qa))"

text \<open>A worker with id \<open>i\<close> and the master.\<close>

definition linked_master :: "Server \<Rightarrow> 32 word \<Rightarrow> Server \<Rightarrow> bool" where
  "linked_master s i m \<longleftrightarrow> (\<exists>q qm c cm. s_master s = Some q \<and> widCliMap m i = Some qm \<and>
     qpCliMap s q = Some c \<and> qpCliMap m qm = Some cm \<and> c_wid c = i \<and> c_wid cm = i \<and>
     c_remote c = Some (strip True (conn_param m qm)) \<and> c_remote cm = Some (strip True (conn_param s q)))"

definition node_ok :: "Server \<Rightarrow> bool" where
  "node_ok s \<longleftrightarrow> inj_on (dev_qp s) {..< nat MAX_NUM_WORKER} \<and> dom (qpCliMap s) \<subseteq> dev_qp s ` {..< s_qps s} \<and>
     length (cp_gid (s_param s)) = 4"

text \<open>Nothing but the entries for the ids in \<open>J\<close> and new queue pairs has changed.\<close>

definition keeps :: "32 word set \<Rightarrow> Server \<Rightarrow> Server \<Rightarrow> bool" where
  "keeps J s t \<longleftrightarrow> s_isMaster t = s_isMaster s \<and> s_param t = s_param s \<and> s_master t = s_master s \<and>
     qpCliMap s \<subseteq>\<^sub>m qpCliMap t \<and> (\<forall>k. k \<notin> J \<longrightarrow> widCliMap t k = widCliMap s k)"

lemma keeps_refl [simp]: "keeps J s s" by (simp add: keeps_def)

lemma keeps_trans: "keeps J s t \<Longrightarrow> keeps K t u \<Longrightarrow> keeps (J \<union> K) s u"
  by (auto simp: keeps_def intro: map_le_trans)

lemma keeps_worker_id: "keeps J s t \<Longrightarrow> GetWorkerId s = Some i \<Longrightarrow> GetWorkerId t = Some i"
  by (auto simp: keeps_def GetWorkerId_def map_le_def dom_def split: if_splits Option.bind_splits)

lemma keeps_param: "keeps J s t \<Longrightarrow> conn_param t q = conn_param s q"
  by (simp add: keeps_def conn_param_def)

lemma keeps_client: "keeps J s t \<Longrightarrow> qpCliMap s q = Some c \<Longrightarrow> qpCliMap t q = Some c"
  by (auto simp: keeps_def map_le_def dom_def)

lemma keeps_wid: "keeps J s t \<Longrightarrow> k \<notin> J \<Longrightarrow> widCliMap t k = widCliMap s k"
  by (simp add: keeps_def)

lemma linked_keeps:
  assumes "linked a i b j" "keeps A a a'" "keeps B b b'" "j \<notin> A" "i \<notin> B"
  shows "linked a' i b' j"
  using assms unfolding linked_def by (auto simp: keeps_param keeps_wid keeps_client)

lemma linked_master_keeps:
  assumes "linked_master s i m" "keeps A s s'" "keeps B m m'" "i \<notin> B"
  shows "linked_master s' i m'"
proof -
  have "s_master s' = s_master s" using assms(2) by (simp add: keeps_def)
  then show ?thesis using assms unfolding linked_master_def by (auto simp: keeps_param keeps_wid keeps_client)
qed

lemma linked_sym: "linked a i b j \<Longrightarrow> linked b j a i"
  unfolding linked_def by blast

lemma fresh_qp: "node_ok s \<Longrightarrow> s_qps s < nat MAX_NUM_WORKER \<Longrightarrow> qpCliMap s (dev_qp s (s_qps s)) = None"
proof (rule ccontr)
  assume s: "node_ok s" "s_qps s < nat MAX_NUM_WORKER" "qpCliMap s (dev_qp s (s_qps s)) \<noteq> None"
  then have "dev_qp s (s_qps s) \<in> dev_qp s ` {..< s_qps s}" unfolding node_ok_def by blast
  then obtain k where "k < s_qps s" "dev_qp s k = dev_qp s (s_qps s)" by auto
  then show False using s inj_onD [of "dev_qp s" "{..< nat MAX_NUM_WORKER}" k "s_qps s"] by (simp add: node_ok_def)
qed

lemma with_client_keeps:
  "qpCliMap s q = None \<Longrightarrow> keeps {wid} s (with_client fm q wid p s)"
  by (auto simp: keeps_def with_client_def map_le_def)

lemma with_client_node:
  assumes "node_ok s"
  shows "node_ok (with_client fm (dev_qp s (s_qps s)) wid p s)"
proof -
  have "{..< Suc (s_qps s)} = insert (s_qps s) {..< s_qps s}" by auto
  then show ?thesis using assms by (auto simp: node_ok_def with_client_def)
qed

subsection \<open>The text of the list\<close>

definition address_ok :: "address \<Rightarrow> bool" where
  "address_ok a \<longleftrightarrow> fst a \<noteq> [] \<and> COLON \<notin> set (fst a) \<and> COMMA \<notin> set (fst a) \<and>
     9 \<le> length (address_text a) \<and> length (address_text a) \<le> MAX_IPPORT_STRLEN"

lemma pieces_not_Nil: "pieces d bs \<noteq> []"
  by (induction bs) (auto split: list.split)

lemma pieces_append: "pieces d (xs @ d # ys) = pieces d xs @ pieces d ys"
proof (induction xs)
  case (Cons b xs)
  then show ?case using pieces_not_Nil [of d xs] by (cases "pieces d xs") auto
qed simp

lemma Split_append [simp]: "Split_string d (xs @ d # ys) = Split_string d xs @ Split_string d ys"
  by (simp add: Split_string_def pieces_append)

lemma pieces_one: "d \<notin> set xs \<Longrightarrow> pieces d xs = [xs]"
  by (induction xs) auto

lemma Split_one: "d \<notin> set xs \<Longrightarrow> Split_string d xs = (if xs = [] then [] else [xs])"
  by (simp add: Split_string_def pieces_one)

lemma Split_Nil [simp]: "Split_string d [] = []"
  by (simp add: Split_string_def)

lemma port_text: "COLON \<notin> set (show_nat n)" "COMMA \<notin> set (show_nat n)" "show_nat n \<noteq> []"
  using show_nat_digits [of n] show_nat_not_Nil [of n] by (auto simp: is_digit_def)

lemma atoi_port_show [simp]: "atoi_port (show_nat n) = n"
proof -
  have d: "dropWhile is_space (show_nat n) = show_nat n"
    using show_nat_not_Nil [of n] show_nat_digits [of n] digit_not_space by (cases "show_nat n") auto
  have t: "takeWhile is_digit (show_nat n) = show_nat n" using show_nat_digits by (simp add: takeWhile_eq_all_conv)
  show ?thesis by (simp only: atoi_port_def d t digits_value_show)
qed

lemma split_address: "address_ok a \<Longrightarrow> Split_string COLON (address_text a) = [fst a, show_nat (snd a)]"
  using port_text by (simp add: address_text_def address_ok_def Split_one)

lemma split_address_list:
  assumes "address_ok a" "Split_string COMMA ips = map address_text as" "length ips \<le> 22 * length as"
  shows "Split_string COMMA (PostAcceptWorker (address_text a) ips) = map address_text (as @ [a]) \<and>
         length (PostAcceptWorker (address_text a) ips) \<le> 22 * length (as @ [a]) \<and>
         PostAcceptWorker (address_text a) ips \<noteq> []"
proof -
  have "take MAX_WORKERS_STRLEN (address_text a) = address_text a"
    using assms(1) by (simp add: address_ok_def MAX_WORKERS_STRLEN_def MAX_IPPORT_STRLEN_def MAX_NUM_WORKER_def)
  moreover have "COMMA \<notin> set (address_text a)" "address_text a \<noteq> []"
    using assms(1) port_text by (auto simp: address_ok_def address_text_def)
  ultimately show ?thesis using assms
    by (cases "as") (auto simp: PostAcceptWorker_def Split_one address_ok_def MAX_IPPORT_STRLEN_def)
qed

lemma find_worker_append: "a \<notin> fst ` set xs \<Longrightarrow> find_worker a (xs @ (a, s) # ys) = Some s"
  by (induction xs) (auto simp: image_iff)

lemma set_worker_append: "a \<notin> fst ` set xs \<Longrightarrow> set_worker a t (xs @ (a, s) # ys) = xs @ (a, t) # ys"
  by (induction xs) (auto simp: image_iff)

subsection \<open>Connecting to every worker of the list\<close>

text \<open>A worker that has its id.\<close>

definition ready :: "32 word \<Rightarrow> Server \<Rightarrow> bool" where
  "ready j s \<longleftrightarrow> node_ok s \<and> \<not> s_isMaster s \<and> GetWorkerId s = Some j \<and> unat j < 16 ^ 4"

lemma keeps_ready: "ready i s \<Longrightarrow> keeps J s t \<Longrightarrow> node_ok t \<Longrightarrow> ready i t"
  using keeps_worker_id [of J s t i] by (auto simp: ready_def) (simp add: keeps_def)

lemma connect_one:
  assumes a: "ready i a" "s_qps a < nat MAX_NUM_WORKER" and b: "ready j b" "s_qps b < nat MAX_NUM_WORKER"
  shows "\<exists>a' b' q. NewClient False None a = Some (q, fresh_client False a) \<and>
    ExchConnParam q (fresh_client False a) b = Some (True, a', b') \<and> keeps {j} a a' \<and> keeps {i} b b' \<and>
    linked a' i b' j \<and> node_ok a' \<and> node_ok b' \<and> s_qps a' = s_qps a + 1 \<and> s_qps b' = s_qps b + 1"
proof -
  let ?qa = "dev_qp a (s_qps a)" and ?qb = "dev_qp b (s_qps b)"
  let ?a = "with_client False ?qa j (conn_param b ?qb) a" and ?b = "with_client False ?qb i (conn_param a ?qa) b"
  have fa: "qpCliMap a ?qa = None" and fb: "qpCliMap b ?qb = None" using a b fresh_qp by (auto simp: ready_def)
  have "GetWorkerId (fresh_client False a) = Some i"
    using a fa by (auto simp: ready_def GetWorkerId_def fresh_client_def split: Option.bind_splits)
  then have "ExchConnParam ?qa (fresh_client False a) b = Some (True, ?a, ?b)"
    using exchange_ok [of a b i j i j] a b fb by (simp add: ready_def node_ok_def strip_def fresh_client_def)
  moreover have "NewClient False None a = Some (?qa, fresh_client False a)"
    by (simp add: NewClient_def fresh_client_def Let_def)
  moreover have "linked ?a i ?b j" by (auto simp: linked_def with_client_def conn_param_def)
  moreover have "node_ok ?a" "node_ok ?b" using a b with_client_node by (auto simp: ready_def)
  moreover have "s_qps ?a = s_qps a + 1" "s_qps ?b = s_qps b + 1" by (simp_all add: with_client_def)
  ultimately show ?thesis using with_client_keeps [OF fa] with_client_keeps [OF fb] by blast
qed

lemma connect_all_ok:
  assumes "length todo = length js"
    and "ready i s" "s_qps s + length todo \<le> nat MAX_NUM_WORKER"
    and "\<forall>k<length todo. address_ok (fst (todo ! k)) \<and> ready (js ! k) (snd (todo ! k)) \<and> s_qps (snd (todo ! k)) < nat MAX_NUM_WORKER"
    and "distinct (map fst (don @ todo))" "distinct js"
  shows "\<exists>s' todo'. connect_all (map (address_text \<circ> fst) todo) s (don @ todo) = Some (s', don @ todo') \<and>
    keeps (set js) s s' \<and> node_ok s' \<and> s_qps s' = s_qps s + length todo \<and> map fst todo' = map fst todo \<and>
    (\<forall>k<length todo. keeps {i} (snd (todo ! k)) (snd (todo' ! k)) \<and> node_ok (snd (todo' ! k)) \<and>
       s_qps (snd (todo' ! k)) = s_qps (snd (todo ! k)) + 1 \<and> linked s' i (snd (todo' ! k)) (js ! k))"
  using assms
proof (induction todo js arbitrary: s don rule: list_induct2)
  case Nil
  then show ?case by (simp add: ready_def)
next
  case (Cons x todo j js)
  obtain a b where x: "x = (a, b)" by fastforce
  have b: "ready j b" "address_ok a" "s_qps b < nat MAX_NUM_WORKER" and q: "s_qps s < nat MAX_NUM_WORKER"
    using Cons.prems(2,3) x by auto
  then obtain s1 b' q where one: "NewClient False None s = Some (q, fresh_client False s)"
    "ExchConnParam q (fresh_client False s) b = Some (True, s1, b')" "keeps {j} s s1" "keeps {i} b b'"
    "linked s1 i b' j" "node_ok s1" "node_ok b'" "s_qps s1 = s_qps s + 1" "s_qps b' = s_qps b + 1"
    using connect_one [OF Cons.prems(1)] by blast
  have a: "a \<notin> fst ` set don" using Cons.prems(4) x by auto
  have h1: "ready i s1" using Cons.prems(1) one(3,6) keeps_ready by blast
  have h2: "s_qps s1 + length todo \<le> nat MAX_NUM_WORKER" using Cons.prems(2) one(8) by simp
  have h3: "\<forall>k<length todo. address_ok (fst (todo ! k)) \<and> ready (js ! k) (snd (todo ! k)) \<and> s_qps (snd (todo ! k)) < nat MAX_NUM_WORKER"
    using Cons.prems(3) by (auto dest: spec [of _ "Suc _"])
  have h4: "distinct (map fst ((don @ [(a, b')]) @ todo))" and h5: "distinct js" using Cons.prems(4,5) x by simp_all
  obtain s' todo' where r:
    "connect_all (map (address_text \<circ> fst) todo) s1 ((don @ [(a, b')]) @ todo) = Some (s', (don @ [(a, b')]) @ todo')"
    "keeps (set js) s1 s'" "node_ok s'" "s_qps s' = s_qps s1 + length todo" "map fst todo' = map fst todo"
    "\<forall>k<length todo. keeps {i} (snd (todo ! k)) (snd (todo' ! k)) \<and> node_ok (snd (todo' ! k)) \<and>
       s_qps (snd (todo' ! k)) = s_qps (snd (todo ! k)) + 1 \<and> linked s' i (snd (todo' ! k)) (js ! k)"
    using Cons.IH [OF h1 h2 h3 h4 h5] by blast
  have "9 \<le> length (address_text a)" using b(2) by (simp add: address_ok_def)
  then have c: "connect_all (map (address_text \<circ> fst) (x # todo)) s (don @ x # todo) = Some (s', don @ (a, b') # todo')"
    using r(1) one(1,2) x split_address [OF b(2)] a by (simp add: find_worker_append set_worker_append)
  have l: "linked s' i b' j" using linked_keeps [OF one(5) r(2), of "{}" b'] Cons.prems(5) by simp
  have k: "keeps (set (j # js)) s s'" using keeps_trans [OF one(3) r(2)] by simp
  have e: "s_qps s' = s_qps s + length (x # todo)" "map fst ((a, b') # todo') = map fst (x # todo)"
    using r(4,5) one(8) x by simp_all
  have "\<forall>n<length (x # todo). keeps {i} (snd ((x # todo) ! n)) (snd (((a, b') # todo') ! n)) \<and> node_ok (snd (((a, b') # todo') ! n)) \<and>
       s_qps (snd (((a, b') # todo') ! n)) = s_qps (snd ((x # todo) ! n)) + 1 \<and> linked s' i (snd (((a, b') # todo') ! n)) ((j # js) ! n)"
    using r(6) one(4,7,9) l x by (auto simp: nth_Cons split: nat.split)
  with c k r(3) e show ?case by blast
qed

subsection \<open>A cluster grows\<close>

definition node_id :: "nat \<Rightarrow> 32 word" where "node_id k = of_nat (k + 1)"

lemma unat_node_id: "k < nat MAX_NUM_WORKER \<Longrightarrow> unat (node_id k) = k + 1"
  by (simp only: node_id_def unat_of_nat) (simp add: MAX_NUM_WORKER_def)

lemma node_id_inj: "k < nat MAX_NUM_WORKER \<Longrightarrow> l < nat MAX_NUM_WORKER \<Longrightarrow> node_id k = node_id l \<longleftrightarrow> k = l"
  using unat_node_id [of k] unat_node_id [of l] by (metis add_right_cancel)

definition mesh :: "Cluster \<Rightarrow> bool" where
  "mesh cl \<longleftrightarrow>
     (let ws = cl_workers cl; n = length ws; m = cl_master cl
      in s_isMaster m \<and> node_ok m \<and> s_qps m = n \<and> s_counter m = int n \<and> n \<le> nat MAX_NUM_WORKER \<and>
         distinct (map fst ws) \<and> Split_string COMMA (cl_ips cl) = map (address_text \<circ> fst) ws \<and>
         length (cl_ips cl) \<le> 22 * n \<and> (cl_ips cl = [] \<longrightarrow> ws = []) \<and>
         (\<forall>k<n. address_ok (fst (ws ! k)) \<and> ready (node_id k) (snd (ws ! k)) \<and> s_qps (snd (ws ! k)) = n \<and>
            linked_master (snd (ws ! k)) (node_id k) m \<and> dom (widCliMap (snd (ws ! k))) \<subseteq> node_id ` {..<n}) \<and>
         (\<forall>k<n. \<forall>l<k. linked (snd (ws ! k)) (node_id k) (snd (ws ! l)) (node_id l)))"

lemma keeps_dom: "keeps J s t \<Longrightarrow> dom (widCliMap t) \<subseteq> dom (widCliMap s) \<union> J"
proof
  fix x assume k: "keeps J s t" and x: "x \<in> dom (widCliMap t)"
  show "x \<in> dom (widCliMap s) \<union> J" using keeps_wid [OF k, of x] x by (cases "x \<in> J") (simp_all add: domIff)
qed

definition new_worker :: "Server \<Rightarrow> bool" where
  "new_worker s \<longleftrightarrow> (\<exists>p q. s = new_Server False p q) \<and> node_ok s"

lemma join_master:
  assumes m: "mesh cl" and n: "length (cl_workers cl) < nat MAX_NUM_WORKER" and s: "new_worker s"
  shows "\<exists>s1 m1 q. NewClient True None s = Some (q, fresh_client True s \<lparr> s_master := None \<rparr>) \<and> dev_qp s 0 = q \<and>
    ExchConnParam q (fresh_client True s) (cl_master cl) = Some (True, s1, m1) \<and>
    keeps {node_id (length (cl_workers cl))} (cl_master cl) m1 \<and> node_ok m1 \<and> s_qps m1 = length (cl_workers cl) + 1 \<and>
    s_counter m1 = int (length (cl_workers cl)) + 1 \<and> ready (node_id (length (cl_workers cl))) s1 \<and> s_qps s1 = 1 \<and>
    linked_master s1 (node_id (length (cl_workers cl))) m1 \<and>
    dom (widCliMap s1) \<subseteq> {node_id (length (cl_workers cl))}"
proof -
  obtain p q where s_def: "s = new_Server False p q" and ok: "node_ok s" using s by (auto simp: new_worker_def)
  let ?m = "cl_master cl" and ?n = "length (cl_workers cl)"
  have mm: "s_isMaster ?m" "node_ok ?m" "s_qps ?m = ?n" "s_counter ?m = int ?n" using m by (auto simp: mesh_def Let_def)
  let ?qa = "dev_qp s (s_qps s)" and ?qb = "dev_qp ?m (s_qps ?m)"
  let ?t = "s \<lparr> s_master := Some ?qa \<rparr>"
  let ?s1 = "with_client True ?qa (node_id ?n) (strip True (conn_param ?m ?qb)) ?t"
  let ?m1 = "with_client True ?qb (node_id ?n) (strip True (conn_param s ?qa)) ?m"
  have fb: "qpCliMap ?m ?qb = None" using fresh_qp [OF mm(2)] n mm(3) by simp
  have u: "unat (node_id ?n) < 16 ^ 4" using unat_node_id [OF n] n by (simp add: MAX_NUM_WORKER_def)
  have "ExchConnParam ?qa (fresh_client True s) ?m = Some (True, ?s1, ?m1)"
    using exchange_ok [of s ?m 0 0 "node_id ?n" "node_id ?n"] mm fb ok u
    by (simp add: s_def new_Server_def fresh_client_def GetWorkerId_def node_ok_def node_id_def)
  have "linked_master ?s1 (node_id ?n) ?m1"
    by (simp add: linked_master_def with_client_def conn_param_def)
  have "node_ok ?t" using ok by (simp add: node_ok_def)
  have "ready (node_id ?n) ?s1"
    using with_client_node [OF \<open>node_ok ?t\<close>] u by (simp add: ready_def) (simp add: GetWorkerId_def with_client_def s_def new_Server_def)
  have "node_ok ?m1" using with_client_node [OF mm(2)] .
  have "NewClient True None s = Some (?qa, fresh_client True s \<lparr> s_master := None \<rparr>)"
    by (simp add: NewClient_def fresh_client_def s_def new_Server_def Let_def)
  have "dom (widCliMap ?s1) \<subseteq> {node_id ?n}" "s_qps ?s1 = 1" "dev_qp s 0 = ?qa"
    "s_qps ?m1 = ?n + 1" "s_counter ?m1 = int ?n + 1"
    by (simp_all add: with_client_def s_def new_Server_def mm)
  have "keeps {node_id ?n} ?m ?m1" using with_client_keeps [OF fb] .
  show ?thesis by (intro exI [of _ ?s1] exI [of _ ?m1] exI [of _ ?qa] conjI) fact+
qed

lemma mesh_parts:
  assumes "mesh cl" "k < length (cl_workers cl)"
  shows "address_ok (fst (cl_workers cl ! k))" "ready (node_id k) (snd (cl_workers cl ! k))"
    "s_qps (snd (cl_workers cl ! k)) = length (cl_workers cl)"
    "linked_master (snd (cl_workers cl ! k)) (node_id k) (cl_master cl)"
    "dom (widCliMap (snd (cl_workers cl ! k))) \<subseteq> node_id ` {..<length (cl_workers cl)}"
    "l < k \<Longrightarrow> linked (snd (cl_workers cl ! k)) (node_id k) (snd (cl_workers cl ! l)) (node_id l)"
  using assms by (auto simp: mesh_def Let_def)

lemma PostConnectMaster_list:
  assumes m: "mesh cl" and n: "length (cl_workers cl) < nat MAX_NUM_WORKER"
  shows "PostConnectMaster (worker_list (cl_ips cl)) s (cl_workers cl) =
         connect_all (map (address_text \<circ> fst) (cl_workers cl)) s (cl_workers cl)"
proof (cases "cl_ips cl = []")
  case True
  then have "cl_workers cl = []" using m by (simp add: mesh_def Let_def)
  moreover have "take MAX_WORKERS_STRLEN [32] = [32 :: byte]"
    by (simp add: MAX_WORKERS_STRLEN_def MAX_IPPORT_STRLEN_def MAX_NUM_WORKER_def)
  ultimately show ?thesis using True by (simp add: PostConnectMaster_def worker_list_def Split_one)
next
  case False
  have "length (cl_ips cl) \<le> MAX_WORKERS_STRLEN" using m n
    by (simp add: mesh_def Let_def MAX_WORKERS_STRLEN_def MAX_IPPORT_STRLEN_def MAX_NUM_WORKER_def)
  then show ?thesis using False m by (simp add: PostConnectMaster_def worker_list_def mesh_def Let_def)
qed

lemma mesh_grow:
  assumes m: "mesh cl" and n: "length (cl_workers cl) < nat MAX_NUM_WORKER"
    and a: "address_ok a" "a \<notin> fst ` set (cl_workers cl)"
    and m1: "keeps {node_id (length (cl_workers cl))} (cl_master cl) m1" "node_ok m1"
      "s_qps m1 = length (cl_workers cl) + 1" "s_counter m1 = int (length (cl_workers cl)) + 1"
    and s1: "ready (node_id (length (cl_workers cl))) s1" "s_qps s1 = 1" "linked_master s1 (node_id (length (cl_workers cl))) m1"
      "dom (widCliMap s1) \<subseteq> {node_id (length (cl_workers cl))}"
    and s': "keeps (set (map node_id [0 ..< length (cl_workers cl)])) s1 s'" "node_ok s'" "s_qps s' = length (cl_workers cl) + 1"
    and ws': "map fst ws' = map fst (cl_workers cl)"
    and each: "\<forall>k<length (cl_workers cl). keeps {node_id (length (cl_workers cl))} (snd (cl_workers cl ! k)) (snd (ws' ! k)) \<and>
       node_ok (snd (ws' ! k)) \<and> s_qps (snd (ws' ! k)) = s_qps (snd (cl_workers cl ! k)) + 1 \<and>
       linked s' (node_id (length (cl_workers cl))) (snd (ws' ! k)) (node_id k)"
  shows "mesh \<lparr> cl_master = m1, cl_ips = PostAcceptWorker (address_text a) (cl_ips cl), cl_workers = ws' @ [(a, s')] \<rparr>"
proof -
  let ?ws = "cl_workers cl" and ?n = "length (cl_workers cl)" and ?ws' = "ws' @ [(a, s')]"
  have l: "length ws' = ?n" using arg_cong [OF ws', of length] by simp
  have w: "k < ?n \<Longrightarrow> node_id k \<noteq> node_id ?n" for k using node_id_inj [of k ?n] n by simp
  have img: "node_id ` {..<?n + 1} = insert (node_id ?n) (node_id ` {..<?n})" by (simp add: lessThan_Suc)
  have fst_ws: "k < ?n \<Longrightarrow> fst (ws' ! k) = fst (?ws ! k)" for k using arg_cong [OF ws', of "\<lambda>xs. xs ! k"] l by simp
  have ips: "Split_string COMMA (PostAcceptWorker (address_text a) (cl_ips cl)) = map (address_text \<circ> fst) ?ws' \<and>
      length (PostAcceptWorker (address_text a) (cl_ips cl)) \<le> 22 * (?n + 1) \<and> PostAcceptWorker (address_text a) (cl_ips cl) \<noteq> []"
    using split_address_list [OF a(1), of "cl_ips cl" "map fst ?ws"] m arg_cong [OF ws', of "map address_text"] by (simp add: mesh_def Let_def)
  have old: "address_ok (fst (?ws' ! k)) \<and> ready (node_id k) (snd (?ws' ! k)) \<and> s_qps (snd (?ws' ! k)) = ?n + 1 \<and>
      linked_master (snd (?ws' ! k)) (node_id k) m1 \<and> dom (widCliMap (snd (?ws' ! k))) \<subseteq> node_id ` {..<?n + 1}" if k: "k < ?n" for k
  proof -
    have e: "keeps {node_id ?n} (snd (?ws ! k)) (snd (ws' ! k))" "node_ok (snd (ws' ! k))" "s_qps (snd (ws' ! k)) = s_qps (snd (?ws ! k)) + 1"
      using each k by auto
    have "linked_master (snd (ws' ! k)) (node_id k) m1"
      using linked_master_keeps [OF mesh_parts(4) [OF m k] e(1) m1(1)] w [OF k] by simp
    moreover have "dom (widCliMap (snd (ws' ! k))) \<subseteq> node_id ` {..<?n + 1}"
      using keeps_dom [OF e(1)] mesh_parts(5) [OF m k] unfolding img by blast
    moreover have "ready (node_id k) (snd (ws' ! k))" using keeps_ready [OF mesh_parts(2) [OF m k] e(1,2)] .
    ultimately show ?thesis using mesh_parts(1,3) [OF m k] e(3) fst_ws [OF k] k l by (simp add: nth_append)
  qed
  have "set (map node_id [0 ..< ?n]) = node_id ` {..<?n}" by auto
  then have "dom (widCliMap s') \<subseteq> node_id ` {..<?n + 1}" using keeps_dom [OF s'(1)] s1(4) unfolding img by blast
  then have new: "ready (node_id ?n) s' \<and> linked_master s' (node_id ?n) m1 \<and> dom (widCliMap s') \<subseteq> node_id ` {..<?n + 1}"
    using keeps_ready [OF s1(1) s'(1,2)] linked_master_keeps [OF s1(3) s'(1), of "{}" m1] by simp
  have links: "linked (snd (?ws' ! k)) (node_id k) (snd (?ws' ! i)) (node_id i)" if k: "k < ?n + 1" and i: "i < k" for k i
  proof (cases "k = ?n")
    case True
    then show ?thesis using each i l by (simp add: nth_append)
  next
    case False
    then have kn: "k < ?n" "i < ?n" using k i by auto
    then show ?thesis using linked_keeps [OF mesh_parts(6) [OF m kn(1) i], of "{node_id ?n}" "snd (ws' ! k)" "{node_id ?n}" "snd (ws' ! i)"]
      each w l by (simp add: nth_append)
  qed
  have all: "\<forall>k<?n + 1. address_ok (fst (?ws' ! k)) \<and> ready (node_id k) (snd (?ws' ! k)) \<and> s_qps (snd (?ws' ! k)) = ?n + 1 \<and>
      linked_master (snd (?ws' ! k)) (node_id k) m1 \<and> dom (widCliMap (snd (?ws' ! k))) \<subseteq> node_id ` {..<?n + 1}"
    using old new s'(3) a(1) l by (auto simp: less_Suc_eq nth_append simp del: image_Suc_lessThan)
  have dist: "distinct (map fst ?ws')" using m a(2) ws' by (simp add: mesh_def Let_def)
  have len: "length ?ws' = ?n + 1" using l by simp
  have mm: "s_isMaster m1" using m m1(1) by (simp add: mesh_def Let_def keeps_def)
  show ?thesis
    using mm m1(2-4) n dist ips all links unfolding mesh_def Let_def Cluster.simps len by simp
qed

lemma join_step:
  assumes m: "mesh cl" and n: "length (cl_workers cl) < nat MAX_NUM_WORKER" and s: "new_worker s"
    and a: "address_ok a" "a \<notin> fst ` set (cl_workers cl)"
  shows "\<exists>cl'. join_cluster a s cl = Some cl' \<and> mesh cl' \<and>
    map fst (cl_workers cl') = map fst (cl_workers cl) @ [a]"
proof -
  let ?ws = "cl_workers cl" and ?n = "length (cl_workers cl)"
  let ?js = "map node_id [0 ..< ?n]"
  obtain s1 m1 where new: "NewClient True None s = Some (dev_qp s 0, fresh_client True s \<lparr> s_master := None \<rparr>)"
    and ex: "ExchConnParam (dev_qp s 0) (fresh_client True s) (cl_master cl) = Some (True, s1, m1)"
    and m1: "keeps {node_id ?n} (cl_master cl) m1" "node_ok m1" "s_qps m1 = ?n + 1" "s_counter m1 = int ?n + 1"
    and s1: "ready (node_id ?n) s1" "s_qps s1 = 1" "linked_master s1 (node_id ?n) m1" "dom (widCliMap s1) \<subseteq> {node_id ?n}"
    using join_master [OF m n s] by blast
  have "s_qps s = 0" using s by (auto simp: new_worker_def new_Server_def)
  then have f: "fresh_client True s \<lparr> s_master := Some (dev_qp s 0) \<rparr> = fresh_client True s" by (simp add: fresh_client_def)
  have todo: "\<forall>k<?n. address_ok (fst (?ws ! k)) \<and> ready (?js ! k) (snd (?ws ! k)) \<and> s_qps (snd (?ws ! k)) < nat MAX_NUM_WORKER"
    using mesh_parts [OF m] n by auto
  have dist: "distinct (map fst ([] @ ?ws))" "distinct ?js"
    using m n node_id_inj by (auto simp: mesh_def Let_def distinct_map intro!: inj_onI)
  have q: "s_qps s1 + ?n \<le> nat MAX_NUM_WORKER" using s1(2) n by simp
  obtain s' ws' where c: "connect_all (map (address_text \<circ> fst) ?ws) s1 ?ws = Some (s', ws')"
    and s': "keeps (set ?js) s1 s'" "node_ok s'" "s_qps s' = s_qps s1 + ?n" and ws': "map fst ws' = map fst ?ws"
    and each: "\<forall>k<?n. keeps {node_id ?n} (snd (?ws ! k)) (snd (ws' ! k)) \<and> node_ok (snd (ws' ! k)) \<and>
       s_qps (snd (ws' ! k)) = s_qps (snd (?ws ! k)) + 1 \<and> linked s' (node_id ?n) (snd (ws' ! k)) (?js ! k)"
    using connect_all_ok [OF _ s1(1) q todo dist] by auto
  let ?cl = "\<lparr> cl_master = m1, cl_ips = PostAcceptWorker (address_text a) (cl_ips cl), cl_workers = ws' @ [(a, s')] \<rparr>"
  have "join_cluster a s cl = Some ?cl"
    using new ex c f by (simp add: join_cluster_def PostConnectMaster_list [OF m n])
  moreover have "mesh ?cl" using each by (intro mesh_grow [OF m n a m1 s1 s'(1)]) (simp_all add: s' s1 ws')
  ultimately show ?thesis using ws' by auto
qed

lemma join_all_mesh:
  assumes "mesh cl" "length (cl_workers cl) + length xs \<le> nat MAX_NUM_WORKER"
    and "distinct (map fst (cl_workers cl) @ map fst xs)" "\<forall>(a, s) \<in> set xs. address_ok a \<and> new_worker s"
  shows "\<exists>cl'. join_all xs cl = Some cl' \<and> mesh cl' \<and> map fst (cl_workers cl') = map fst (cl_workers cl) @ map fst xs"
  using assms
proof (induction xs arbitrary: cl)
  case (Cons x xs)
  obtain a s where x: "x = (a, s)" by fastforce
  have n: "length (cl_workers cl) < nat MAX_NUM_WORKER" and a: "address_ok a" "new_worker s" "a \<notin> fst ` set (cl_workers cl)"
    using Cons.prems x by auto
  obtain cl1 where c: "join_cluster a s cl = Some cl1" "mesh cl1" "map fst (cl_workers cl1) = map fst (cl_workers cl) @ [a]"
    using join_step [OF Cons.prems(1) n a(2,1,3)] by blast
  have "length (cl_workers cl1) = length (cl_workers cl) + 1" using arg_cong [OF c(3), of length] by simp
  then have "length (cl_workers cl1) + length xs \<le> nat MAX_NUM_WORKER" using Cons.prems(2) by simp
  moreover have "distinct (map fst (cl_workers cl1) @ map fst xs)" using Cons.prems(3) x unfolding c(3) by simp
  ultimately obtain cl' where "join_all xs cl1 = Some cl'" "mesh cl'" "map fst (cl_workers cl') = map fst (cl_workers cl1) @ map fst xs"
    using Cons.IH [OF c(2)] Cons.prems(4) by auto
  then show ?case using c x by simp
qed simp

definition empty_cluster :: "ConnParam \<Rightarrow> (nat \<Rightarrow> 32 word) \<Rightarrow> Cluster" where
  "empty_cluster p q = \<lparr> cl_master = new_Server True p q, cl_ips = [], cl_workers = [] \<rparr>"

lemma empty_mesh: "node_ok (new_Server True p q) \<Longrightarrow> mesh (empty_cluster p q)"
  by (simp add: mesh_def empty_cluster_def Let_def) (simp add: new_Server_def)

text \<open>
  C33: Workers that join one after the other end up fully connected. For at most \<open>MAX_NUM_WORKER\<close> new
  workers with different, well-formed addresses, every join succeeds; the \<open>k\<close>-th worker has the id
  \<open>k\<close> (counted from 1); its queue pair with the master is connected to the one the master keeps under
  that id; and for any two different workers each finds a client under the id of the other, the queue
  pairs of the two being connected to each other. It knows no other id.
\<close>

theorem cluster_fully_connected:
  assumes "length xs \<le> nat MAX_NUM_WORKER" "distinct (map fst xs)"
    and "\<forall>(a, s) \<in> set xs. address_ok a \<and> new_worker s" "node_ok (new_Server True p q)"
  shows "\<exists>cl. join_all xs (empty_cluster p q) = Some cl \<and> map fst (cl_workers cl) = map fst xs \<and>
    (\<forall>k<length xs. GetWorkerId (snd (cl_workers cl ! k)) = Some (of_nat (k + 1)) \<and>
       linked_master (snd (cl_workers cl ! k)) (of_nat (k + 1)) (cl_master cl) \<and>
       dom (widCliMap (snd (cl_workers cl ! k))) \<subseteq> (\<lambda>l. of_nat (l + 1)) ` {..<length xs} \<and>
       (\<forall>l<length xs. l \<noteq> k \<longrightarrow>
          linked (snd (cl_workers cl ! k)) (of_nat (k + 1)) (snd (cl_workers cl ! l)) (of_nat (l + 1))))"
proof -
  have e: "length (cl_workers (empty_cluster p q)) + length xs \<le> nat MAX_NUM_WORKER"
    "distinct (map fst (cl_workers (empty_cluster p q)) @ map fst xs)"
    using assms(1,2) by (simp_all add: empty_cluster_def)
  from join_all_mesh [OF empty_mesh [OF assms(4)] e assms(3)] obtain cl where
    cl: "join_all xs (empty_cluster p q) = Some cl" "mesh cl" "map fst (cl_workers cl) = map fst xs"
    by (auto simp: empty_cluster_def)
  have l: "length (cl_workers cl) = length xs" using arg_cong [OF cl(3), of length] by simp
  note parts = mesh_parts [OF cl(2), unfolded l, folded node_id_def]
  have "linked (snd (cl_workers cl ! k)) (node_id k) (snd (cl_workers cl ! i)) (node_id i)"
    if "k < length xs" "i < length xs" "i \<noteq> k" for k i
    using parts(6) [of k i] parts(6) [of i k] linked_sym that by (cases "i < k") auto
  then show ?thesis using cl(1,3) parts(2,4,5) unfolding node_id_def
    by (intro exI [of _ cl]) (auto simp: ready_def)
qed

definition demo_server :: "bool \<Rightarrow> 32 word \<Rightarrow> Server" where
  "demo_server m r = new_Server m (sample_param \<lparr> cp_rkey := r \<rparr>) (\<lambda>k. 0x100 + of_nat k)"

lemma demo_qps: "inj_on (\<lambda>k. 0x100 + of_nat k :: 32 word) {..< nat MAX_NUM_WORKER}"
proof (rule inj_onI)
  fix x y assume x: "x \<in> {..< nat MAX_NUM_WORKER}" and y: "y \<in> {..< nat MAX_NUM_WORKER}"
    and "(0x100 + of_nat x :: 32 word) = 0x100 + of_nat y"
  then have "unat (of_nat x :: 32 word) = unat (of_nat y :: 32 word)" by simp
  then show "x = y" using x y by (simp only: unat_of_nat) (simp add: MAX_NUM_WORKER_def)
qed

lemma demo_node: "node_ok (demo_server m r)"
  using demo_qps by (simp add: node_ok_def demo_server_def new_Server_def sample_param_def)

lemma demo_new: "new_worker (demo_server False r)"
  using demo_node [of False r] by (auto simp: new_worker_def demo_server_def)

definition demo_ip :: "byte \<Rightarrow> address" where
  "demo_ip d = ([49, 48, 46, 48, 46, 48, 46, d], 12345)"

lemma demo_ip_ok: "d = 49 \<or> d = 50 \<Longrightarrow> address_ok (demo_ip d)"
  by (auto simp: address_ok_def demo_ip_def address_text_def show_nat.simps MAX_IPPORT_STRLEN_def)

theorem cluster_fully_connected_witness:
  "\<exists>cl. join_all [(demo_ip 49, demo_server False 1), (demo_ip 50, demo_server False 2)]
          (empty_cluster (sample_param \<lparr> cp_rkey := 0 \<rparr>) (\<lambda>k. 0x100 + of_nat k)) = Some cl \<and>
    GetWorkerId (snd (cl_workers cl ! 1)) = Some 2 \<and>
    linked (snd (cl_workers cl ! 0)) 1 (snd (cl_workers cl ! 1)) 2"
proof -
  let ?xs = "[(demo_ip 49, demo_server False 1), (demo_ip 50, demo_server False 2)]"
  have "length ?xs \<le> nat MAX_NUM_WORKER" "distinct (map fst ?xs)"
    by (simp_all add: MAX_NUM_WORKER_def demo_ip_def)
  moreover have "\<forall>(a, s) \<in> set ?xs. address_ok a \<and> new_worker s" using demo_new demo_ip_ok by auto
  moreover have "node_ok (new_Server True (sample_param \<lparr> cp_rkey := 0 \<rparr>) (\<lambda>k. 0x100 + of_nat k))"
    using demo_node [of True 0] by (simp add: demo_server_def)
  ultimately obtain cl where cl: "join_all ?xs (empty_cluster (sample_param \<lparr> cp_rkey := 0 \<rparr>) (\<lambda>k. 0x100 + of_nat k)) = Some cl"
    "\<forall>k<2. GetWorkerId (snd (cl_workers cl ! k)) = Some (of_nat (k + 1)) \<and>
       (\<forall>l<2. l \<noteq> k \<longrightarrow> linked (snd (cl_workers cl ! k)) (of_nat (k + 1)) (snd (cl_workers cl ! l)) (of_nat (l + 1)))"
    using cluster_fully_connected [of ?xs "sample_param \<lparr> cp_rkey := 0 \<rparr>" "\<lambda>k. 0x100 + of_nat k"]
    by (auto simp: numeral_2_eq_2)
  show ?thesis using cl(1) spec [OF cl(2), of 0] spec [OF cl(2), of 1] by (auto dest: spec [of _ "1 :: nat"])
qed

end
