(* ===== verification/Master.thy ===== *)
theory Master
  imports Worker_State Mem_Stats
begin

text \<open>
  The master of a cluster (\<open>src/master.cc\<close>, \<open>include/master.h\<close>): the list of workers it hands
  out when a worker joins, the memory statistics it collects and distributes, and the key-value
  store of the cluster. A client is named by the id of its worker. \<open>qp_order\<close> and \<open>m_workers\<close> are the
  clients in the iteration order of \<open>qpCliMap\<close> and \<open>widCliMapWorker\<close>.
\<close>

subsection \<open>State\<close>

record MClient =
  mc_qp :: "32 word"
  mc_size :: "64 word"
  mc_free :: "64 word"

record Master =
  worker_ips :: "byte list"
  m_clients :: "32 word \<rightharpoonup> MClient"
  qp_order :: "32 word list"
  unsynced_workers :: "32 word list"
  m_workers :: "32 word list"
  m_iter :: "32 word \<Rightarrow> 32 word list \<Rightarrow> 32 word list"  \<comment> \<open>the order after a key is inserted\<close>
  kvs :: "64 word \<rightharpoonup> byte list"
  to_serve_kv_request :: "64 word \<rightharpoonup> (32 word \<times> WorkRequest) list"
  unsynced_th :: nat
  m_out :: "msg list"

definition m_send :: "32 word \<Rightarrow> byte list \<Rightarrow> Master \<Rightarrow> Master" where
  "m_send c bs m = m \<lparr> m_out := m_out m @ [MSend c bs] \<rparr>"

subsection \<open>Memory statistics\<close>

text \<open>\<open>sprintf(buf + n, "%u:%d:%ld:%ld", ...)\<close>\<close>

definition stat_line :: "32 word \<Rightarrow> MClient \<Rightarrow> byte list" where
  "stat_line i cl = show_int (uint (mc_qp cl)) @ COLON # show_int (sint i) @ COLON #
     show_int (sint (mc_size cl)) @ COLON # show_int (sint (mc_free cl))"

fun stat_text :: "byte list \<Rightarrow> 32 word list \<Rightarrow> Master \<Rightarrow> byte list option" where
  "stat_text sep [] m = Some []"
| "stat_text sep (i # is) m = do {
     cl \<leftarrow> m_clients m i;
     rest \<leftarrow> stat_text sep is m;
     Some (stat_line i cl @ sep @ rest) }"

fun Broadcast :: "byte list \<Rightarrow> 32 word list \<Rightarrow> Master \<Rightarrow> Master" where
  "Broadcast bs [] m = m"
| "Broadcast bs (c # cs) m = Broadcast bs cs (m_send c bs m)"

definition stats_message :: "Work \<Rightarrow> nat \<Rightarrow> byte list \<Rightarrow> byte list" where
  "stats_message op n text = Ser (new_WorkRequest \<lparr> wr_op := op, wr_size := of_nat n \<rparr>) text"

definition update_mem_stats :: "32 word \<Rightarrow> WorkRequest \<Rightarrow> Master \<Rightarrow> Master option" where
  "update_mem_stats c wr m = do {
     cl \<leftarrow> m_clients m c;
     let m = m \<lparr> m_clients := (m_clients m)(c \<mapsto> cl \<lparr> mc_size := wr_size wr, mc_free := wr_addr wr \<rparr>),
                 unsynced_workers := unsynced_workers m @ [c],
                 m_workers := (if c \<in> set (m_workers m) then m_workers m else m_iter m c (m_workers m)) \<rparr>;
     if length (unsynced_workers m) = unsynced_th m
     then do {
       text \<leftarrow> stat_text [] (unsynced_workers m) m;
       Some (Broadcast (stats_message BROADCAST_MEM_STATS (unsynced_th m) text) (qp_order m) (m \<lparr> unsynced_workers := [] \<rparr>)) }
     else Some m }"

definition fetch_mem_stats :: "32 word \<Rightarrow> Master \<Rightarrow> Master option" where
  "fetch_mem_stats c m = do {
     text \<leftarrow> stat_text [COLON] (m_workers m) m;
     Some (m_send c (stats_message FETCH_MEM_STATS_REPLY (length (m_workers m)) text) m) }"

subsection \<open>Key-value store\<close>

text \<open>The reply to a \<open>GET\<close> that finds its key.\<close>

definition get_reply :: "WorkRequest \<Rightarrow> byte list \<Rightarrow> byte list" where
  "get_reply wr v = Ser (wr \<lparr> wr_op := GET_REPLY, wr_size := of_nat (length v) \<rparr>) v"

definition m_get :: "32 word \<Rightarrow> WorkRequest \<Rightarrow> Master \<Rightarrow> Master" where
  "m_get c wr m =
     (case kvs m (wr_addr wr) of
        Some v \<Rightarrow> m_send c (get_reply wr v) m
      | None \<Rightarrow> m \<lparr> to_serve_kv_request := (to_serve_kv_request m)
                  (wr_addr wr \<mapsto> (case to_serve_kv_request m (wr_addr wr) of Some q \<Rightarrow> q | None \<Rightarrow> []) @ [(c, wr)]) \<rparr>)"

text \<open>
  The loop over the requests that waited for \<open>key\<close>. The source uses a reference to the front of
  the queue after it has popped it; here the element is what it was.
\<close>

primrec serve_kv :: "(32 word \<Rightarrow> WorkRequest \<Rightarrow> Master \<Rightarrow> Master option) \<Rightarrow> nat \<Rightarrow> 64 word \<Rightarrow> Master \<Rightarrow> Master option" where
  "serve_kv PR 0 key m = Some m"
| "serve_kv PR (Suc k) key m =
     (case to_serve_kv_request m key of
        Some ((c, x) # q) \<Rightarrow> do {
          m \<leftarrow> PR c (set_flg TO_SERVE x) (m \<lparr> to_serve_kv_request := (to_serve_kv_request m)(key \<mapsto> q) \<rparr>);
          serve_kv PR k key m }
      | _ \<Rightarrow> None)"

definition m_put :: "(32 word \<Rightarrow> WorkRequest \<Rightarrow> Master \<Rightarrow> Master option) \<Rightarrow> mem \<Rightarrow> WorkRequest \<Rightarrow> Master \<Rightarrow> Master option" where
  "m_put PR memory wr m =
     (let v = map (\<lambda>i. memory (wr_ptr wr + of_nat i)) [0 ..< unat (wr_size wr)];
          key = wr_addr wr;
          m = m \<lparr> kvs := (kvs m)(key \<mapsto> v) \<rparr>
      in case to_serve_kv_request m key of
           None \<Rightarrow> Some m
         | Some q \<Rightarrow> do {
             m \<leftarrow> serve_kv PR (length q) key m;
             Some (m \<lparr> to_serve_kv_request := (to_serve_kv_request m)(key := None) \<rparr>) })"

subsection \<open>Dispatch\<close>

text \<open>
  A \<open>PUT\<close> calls the dispatcher again for the requests that waited; \<open>n\<close> bounds the nesting. The
  queue holds \<open>GET\<close> requests only, so \<open>2\<close> is enough.
\<close>

primrec Master_ProcessRequest :: "nat \<Rightarrow> mem \<Rightarrow> 32 word \<Rightarrow> WorkRequest \<Rightarrow> Master \<Rightarrow> Master option" where
  "Master_ProcessRequest 0 memory c wr m = None"
| "Master_ProcessRequest (Suc n) memory c wr m =
     (case wr_op wr of
        UPDATE_MEM_STATS \<Rightarrow> update_mem_stats c wr m
      | FETCH_MEM_STATS \<Rightarrow> fetch_mem_stats c m
      | PUT \<Rightarrow> m_put (Master_ProcessRequest n memory) memory wr m
      | GET \<Rightarrow> Some (m_get c wr m)
      | _ \<Rightarrow> Some m)"

end
