(* ===== verification/Rdma_Ring.thy ===== *)
theory Rdma_Ring
  imports Rdma_Context
begin

text \<open>
  The invariant of a connection. The work requests that the device has not completed, taken as one
  list, determine every counter of the context: how many are outstanding, how many of them
  occupy a slot, which of them are covered by a completion to come, and where the ring of slots
  begins and ends. The slots in use hold the messages that were put there, a request
  waits only while the device is full, and everything leaves in the order in which it was handed
  over.
\<close>

subsection \<open>Outstanding work requests\<close>

definition is_send :: "ibv_send_wr \<Rightarrow> bool" where "is_send x \<longleftrightarrow> sw_opcode x = IBV_WR_SEND"

definition sends :: "ibv_send_wr list \<Rightarrow> int" where "sends xs = int (length (filter is_send xs))"

text \<open>The work requests that a completion will report, and those that none reports yet.\<close>

definition settled :: "ibv_send_wr list \<Rightarrow> ibv_send_wr list" where
  "settled xs = rev (dropWhile (\<lambda>x. \<not> sw_signaled x) (rev xs))"

definition unsettled :: "ibv_send_wr list \<Rightarrow> ibv_send_wr list" where
  "unsettled xs = rev (takeWhile (\<lambda>x. \<not> sw_signaled x) (rev xs))"

text \<open>Every signaled work request carries the counts since the one before it.\<close>

fun ids_ok :: "int \<Rightarrow> int \<Rightarrow> ibv_send_wr list \<Rightarrow> bool" where
  "ids_ok s w [] \<longleftrightarrow> True"
| "ids_ok s w (x # xs) \<longleftrightarrow>
     (let s = (if is_send x then s + 1 else s); w = (if is_send x then w else w + 1)
      in if sw_signaled x then (\<exists>i. sw_wr_id x = pack_id i s w) \<and> ids_ok 0 0 xs else ids_ok s w xs)"

definition cfg_ok :: "RdmaContext \<Rightarrow> bool" where
  "cfg_ok c \<longleftrightarrow> 0 < max_unsignaled_msg c \<and> max_unsignaled_msg c \<le> max_pending_msg c \<and> max_pending_msg c < 2 ^ 16 \<and>
     send_buf_len c = nat (max_pending_msg c) * MAX_REQUEST_SIZE \<and> unat (send_buf c) + send_buf_len c \<le> 2 ^ 64 \<and>
     (\<forall>q ws. int (length q + length ws) \<le> max_pending_msg c \<longrightarrow> length ws \<le> rc_post c q ws)"

definition counts_ok :: "RdmaContext \<Rightarrow> ibv_send_wr list \<Rightarrow> bool" where
  "counts_ok c q \<longleftrightarrow> pending_msg c = int (length q) \<and> pending_send_msg c = sends q \<and>
     to_signaled_send_msg c = sends (settled q) \<and>
     to_signaled_w_r_msg c = int (length (settled q)) - sends (settled q) \<and>
     int (length (unsettled q)) < max_unsignaled_msg c \<and> ids_ok 0 0 q \<and> int (length q) \<le> max_pending_msg c"

definition ring_ok :: "RdmaContext \<Rightarrow> ibv_send_wr list \<Rightarrow> bool" where
  "ring_ok c q \<longleftrightarrow> 0 \<le> slot_tail c \<and> slot_tail c < max_pending_msg c \<and>
     slot_head c = (slot_tail c + sends q) mod max_pending_msg c \<and> (slots_full c \<longleftrightarrow> sends q = max_pending_msg c) \<and>
     map sge_addr (filter is_send q) =
       map (\<lambda>k. slot_ptr c ((slot_tail c + int k) mod max_pending_msg c)) [0 ..< nat (sends q)] \<and>
     (\<forall>x \<in> set q. is_send x \<longrightarrow> sge_length x \<le> MAX_REQUEST_SIZE)"

lemma sends_simps [simp]:
  "sends [] = 0" "sends (x # xs) = (if is_send x then 1 else 0) + sends xs" "sends (xs @ ys) = sends xs + sends ys"
  by (simp_all add: sends_def)

lemma sends_bounds: "0 \<le> sends xs" "sends xs \<le> int (length xs)"
  by (simp_all add: sends_def)

lemma settled_snoc [simp]:
  "settled [] = []" "unsettled [] = []"
  "settled (xs @ [x]) = (if sw_signaled x then xs @ [x] else settled xs)"
  "unsettled (xs @ [x]) = (if sw_signaled x then [] else unsettled xs @ [x])"
  by (simp_all add: settled_def unsettled_def)

lemma settled_unsettled: "settled xs @ unsettled xs = xs"
  unfolding settled_def unsettled_def by (metis rev_append rev_rev_ident takeWhile_dropWhile_id)

lemma settled_after:
  assumes "sw_signaled x"
  shows "settled (xs @ x # ys) = xs @ x # settled ys" "unsettled (xs @ x # ys) = unsettled ys"
proof -
  have "settled ((xs @ [x]) @ ys) = (xs @ [x]) @ settled ys \<and> unsettled ((xs @ [x]) @ ys) = unsettled ys"
  proof (induction ys rule: rev_induct)
    case (snoc y ys)
    then show ?case unfolding append_assoc [symmetric] settled_snoc by simp
  qed (use assms in simp)
  then show "settled (xs @ x # ys) = xs @ x # settled ys" "unsettled (xs @ x # ys) = unsettled ys" by simp_all
qed

lemma length_split: "int (length q) = int (length (settled q)) + int (length (unsettled q))"
  "sends q = sends (settled q) + sends (unsettled q)"
  using settled_unsettled [of q] by (metis length_append of_nat_add) (metis settled_unsettled sends_simps(3))

lemma ids_ok_unsignaled:
  assumes "\<forall>x \<in> set xs. \<not> sw_signaled x"
  shows "ids_ok s w (xs @ ys) \<longleftrightarrow> ids_ok (s + sends xs) (w + (int (length xs) - sends xs)) ys"
  using assms by (induction xs arbitrary: s w) (auto simp: Let_def algebra_simps)

lemma ids_ok_after: "sw_signaled x \<Longrightarrow> ids_ok s w ((xs @ [x]) @ ys) \<longleftrightarrow> ids_ok s w (xs @ [x]) \<and> ids_ok 0 0 ys"
  by (induction xs arbitrary: s w) (auto simp: Let_def)

lemma unsettled_unsignaled: "\<forall>x \<in> set (unsettled xs). \<not> sw_signaled x"
  unfolding unsettled_def by (simp) (metis set_takeWhileD)

lemma settled_cases: "settled q = [] \<or> (\<exists>ys y. settled q = ys @ [y] \<and> sw_signaled y)"
proof (induction q rule: rev_induct)
  case (snoc x xs)
  then show ?case by (cases "sw_signaled x") auto
qed simp

lemma ids_ok_settled: "ids_ok 0 0 (settled q @ ys) \<longleftrightarrow> ids_ok 0 0 (settled q) \<and> ids_ok 0 0 ys"
  using settled_cases [of q]
proof
  assume "\<exists>zs y. settled q = zs @ [y] \<and> sw_signaled y"
  then obtain zs y where "settled q = zs @ [y]" "sw_signaled y" by blast
  then show ?thesis using ids_ok_after [of y 0 0 zs ys] by (simp only:)
qed simp

lemma ids_ok_snoc:
  "ids_ok 0 0 (q @ [x]) \<longleftrightarrow>
     ids_ok 0 0 q \<and>
     (sw_signaled x \<longrightarrow> (\<exists>i. sw_wr_id x = pack_id i (sends (unsettled q) + (if is_send x then 1 else 0))
        (int (length (unsettled q)) - sends (unsettled q) + (if is_send x then 0 else 1))))"
proof -
  note u = ids_ok_unsignaled [OF unsettled_unsignaled, of 0 0 q]
  have "ids_ok 0 0 (q @ [x]) \<longleftrightarrow> ids_ok 0 0 (settled q) \<and> ids_ok 0 0 (unsettled q @ [x])"
    using ids_ok_settled [of q "unsettled q @ [x]"] by (simp only: append_assoc [symmetric] settled_unsettled)
  moreover have "ids_ok 0 0 q \<longleftrightarrow> ids_ok 0 0 (settled q)"
    using ids_ok_settled [of q "unsettled q"] u [of "[]"] by (simp only: settled_unsettled append_Nil2 ids_ok.simps simp_thms)
  ultimately show ?thesis
    unfolding u by (simp add: Let_def)
qed

subsection \<open>Signaling\<close>

lemma uint16_small: "0 \<le> x \<Longrightarrow> x < 2 ^ 16 \<Longrightarrow> uint16 x = x"
  by (simp add: uint16_def)

text \<open>What the counters say when one more work request has been counted.\<close>

lemma unsignaled_after:
  assumes "cfg_ok c" "counts_ok c q" "int (length q) < max_pending_msg c"
    and "pending_msg c1 = pending_msg c + 1" "pending_send_msg c1 = pending_send_msg c + (if s then 1 else 0)"
    and "to_signaled_send_msg c1 = to_signaled_send_msg c" "to_signaled_w_r_msg c1 = to_signaled_w_r_msg c"
  shows "unsignaled_sends c1 = sends (unsettled q) + (if s then 1 else 0)"
    "unsignaled_writes c1 = int (length (unsettled q)) - sends (unsettled q) + (if s then 0 else 1)"
proof -
  note l = length_split [of q] sends_bounds [of "unsettled q"] sends_bounds [of "settled q"]
  have m: "max_pending_msg c < 2 ^ 16" "int (length q) \<le> max_pending_msg c - 1"
    using assms(1,3) by (simp_all add: cfg_ok_def)
  have "pending_send_msg c1 - to_signaled_send_msg c1 = sends (unsettled q) + (if s then 1 else 0)"
    "pending_msg c1 - pending_send_msg c1 - to_signaled_w_r_msg c1 =
      int (length (unsettled q)) - sends (unsettled q) + (if s then 0 else 1)"
    using assms(2,4-7) l by (simp_all add: counts_ok_def)
  then show "unsignaled_sends c1 = sends (unsettled q) + (if s then 1 else 0)"
    "unsignaled_writes c1 = int (length (unsettled q)) - sends (unsettled q) + (if s then 0 else 1)"
    unfolding unsignaled_sends_def unsignaled_writes_def using l m
    by (auto intro!: uint16_small)
qed

lemma counts_ok_mark:
  assumes "cfg_ok c" "counts_ok c q" "int (length q) < max_pending_msg c" "\<not> sw_signaled x" "is_send x \<longleftrightarrow> s"
    and "pending_msg c1 = pending_msg c + 1" "pending_send_msg c1 = pending_send_msg c + (if s then 1 else 0)"
    and "to_signaled_send_msg c1 = to_signaled_send_msg c" "to_signaled_w_r_msg c1 = to_signaled_w_r_msg c"
    and "max_unsignaled_msg c1 = max_unsignaled_msg c" "max_pending_msg c1 = max_pending_msg c"
    and mk: "mark_signaled i sig x c1 = (y, c2)"
  shows "counts_ok c2 (q @ [y])"
proof -
  note u = unsignaled_after [OF assms(1-3,6-9)]
  note l = length_split [of q] sends_bounds [of "unsettled q"]
  have q: "pending_msg c = int (length q)" "pending_send_msg c = sends q" "to_signaled_send_msg c = sends (settled q)"
    "to_signaled_w_r_msg c = int (length (settled q)) - sends (settled q)"
    "int (length (unsettled q)) < max_unsignaled_msg c" "ids_ok 0 0 q"
    using assms(2) by (simp_all add: counts_ok_def)
  show ?thesis
  proof (cases "to_signal sig c1")
    case True
    then have y: "sw_signaled y" "is_send y \<longleftrightarrow> s" "sw_wr_id y = pack_id i (unsignaled_sends c1) (unsignaled_writes c1)"
      and c2: "c2 = c1 \<lparr> to_signaled_send_msg := to_signaled_send_msg c1 + unsignaled_sends c1,
                to_signaled_w_r_msg := to_signaled_w_r_msg c1 + unsignaled_writes c1 \<rparr>"
      using mk assms(5) by (auto simp: mark_signaled_def is_send_def)
    have "ids_ok 0 0 (q @ [y])" unfolding ids_ok_snoc using y u q(6) by auto
    then show ?thesis
      using assms(1,3,6-11) y q u l by (simp add: counts_ok_def c2 cfg_ok_def)
  next
    case False
    then have y: "y = x" and c2: "c2 = c1" using mk by (simp_all add: mark_signaled_def)
    have "int (length (unsettled q)) + 1 \<noteq> max_unsignaled_msg c1"
      using False u by (auto simp: to_signal_def split: if_splits)
    moreover have "ids_ok 0 0 (q @ [x])" unfolding ids_ok_snoc using assms(4) q(6) by simp
    ultimately show ?thesis
      using assms(3-11) q l by (simp add: counts_ok_def c2 y)
  qed
qed

text \<open>A merged send is not signaled again.\<close>

lemma mark_merged:
  assumes "cfg_ok c" "counts_ok c q"
  shows "mark_signaled i False x c = (x, c)"
proof -
  note l = length_split [of q] sends_bounds [of "unsettled q"] sends_bounds [of "settled q"]
  have m: "max_pending_msg c < 2 ^ 16" "int (length q) \<le> max_pending_msg c"
    using assms by (simp_all add: cfg_ok_def counts_ok_def)
  have "unsignaled_sends c = sends (unsettled q)" "unsignaled_writes c = int (length (unsettled q)) - sends (unsettled q)"
    using assms(2) l m by (auto simp: counts_ok_def unsignaled_sends_def unsignaled_writes_def uint16_small)
  then show ?thesis
    using assms(2) by (simp add: mark_signaled_def to_signal_def counts_ok_def)
qed

lemma mark_signaled_fields:
  assumes "mark_signaled i sig x c = (y, d)"
  shows "sw_opcode y = sw_opcode x" "sge_addr y = sge_addr x" "sge_length y = sge_length x"
    "sw_remote_addr y = sw_remote_addr x" "sw_imm_data y = sw_imm_data x"
    "d = c \<lparr> to_signaled_send_msg := to_signaled_send_msg d, to_signaled_w_r_msg := to_signaled_w_r_msg d \<rparr>"
  using assms by (cases c; auto simp: mark_signaled_def split: if_splits)+

subsection \<open>The ring of slots\<close>

lemma mod_ring:
  fixes t s n :: int
  assumes "0 \<le> t" "t < n" "0 \<le> s" "s < n"
  shows "(t + s) mod n = (if t + s < n then t + s else t + s - n)"
    "((t + s) mod n + 1) mod n = (t + (s + 1)) mod n"
    "(t + (s + 1)) mod n = t \<longleftrightarrow> s + 1 = n"
proof -
  show *: "(t + s) mod n = (if t + s < n then t + s else t + s - n)"
    using assms mod_pos_pos_trivial [of "t + s - n" n] by (auto simp: minus_mod_self2)
  show "((t + s) mod n + 1) mod n = (t + (s + 1)) mod n"
    by (metis add.assoc mod_add_left_eq)
  show "(t + (s + 1)) mod n = t \<longleftrightarrow> s + 1 = n"
    using assms mod_pos_pos_trivial [of "t + (s + 1) - n" n] mod_pos_pos_trivial [of "t + (s + 1)" n]
    by (cases "t + (s + 1) < n") auto
qed

lemma GetFreeSlot_ring:
  assumes "counts_ok c q" "ring_ok c q" "int (length q) < max_pending_msg c"
  shows "GetFreeSlot c = Some (slot_ptr c (slot_head c),
    c \<lparr> slot_head := (slot_head c + 1) mod max_pending_msg c, slots_full := (sends q + 1 = max_pending_msg c) \<rparr>)"
proof -
  let ?n = "max_pending_msg c" and ?t = "slot_tail c" and ?h = "slot_head c"
  note s = sends_bounds [of q]
  have t: "0 \<le> ?t" "?t < ?n" "?h = (?t + sends q) mod ?n" and f: "slots_full c \<longleftrightarrow> sends q = ?n" and p: "pending_msg c < ?n"
    using assms by (simp_all add: ring_ok_def counts_ok_def)
  have sn: "sends q < ?n" using s assms(3) by simp
  note m = mod_ring [OF t(1,2) s(1) sn]
  have h: "?h = (if ?t + sends q < ?n then ?t + sends q else ?t + sends q - ?n)" using t m by simp
  have "0 < (if RMINUS ?t ?h ?n = 0 \<and> \<not> slots_full c then ?n else RMINUS ?t ?h ?n)"
    using t(1,2) sn s(1) f unfolding h RMINUS_def by auto
  moreover have n: "(if ?h + 1 = ?n then 0 else ?h + 1) = (?h + 1) mod ?n"
    using t(1,2) h sn s(1) by (auto simp: mod_pos_pos_trivial)
  moreover have "(?h + 1) mod ?n = ?t \<longleftrightarrow> sends q + 1 = ?n"
    using t(3) m by simp
  moreover have "\<not> slots_full c" using f sn by simp
  ultimately show ?thesis
    using p unfolding GetFreeSlot_def Let_def n by simp
qed

lemma ring_ok_send:
  assumes "ring_ok c q" "sends q < max_pending_msg c" "is_send x" "sge_addr x = slot_ptr c (slot_head c)"
    and "sge_length x \<le> MAX_REQUEST_SIZE"
    and "max_pending_msg d = max_pending_msg c" "send_buf d = send_buf c" "slot_tail d = slot_tail c"
    and "slot_head d = (slot_head c + 1) mod max_pending_msg c" "slots_full d \<longleftrightarrow> sends q + 1 = max_pending_msg c"
  shows "ring_ok d (q @ [x])"
proof -
  have t: "0 \<le> slot_tail c" "slot_tail c < max_pending_msg c" using assms(1) by (simp_all add: ring_ok_def)
  note m = mod_ring [OF t sends_bounds(1) assms(2)]
  have p: "slot_ptr d = slot_ptr c" using assms(7) by (simp add: slot_ptr_def fun_eq_iff)
  have n: "nat (sends q + 1) = Suc (nat (sends q))" using sends_bounds(1) [of q] by simp
  have "slot_head d = (slot_tail c + (sends q + 1)) mod max_pending_msg c"
    using assms(1,9) m by (simp add: ring_ok_def)
  moreover have "sge_addr x = slot_ptr c ((slot_tail c + sends q) mod max_pending_msg c)"
    using assms(1,4) by (simp add: ring_ok_def)
  ultimately show ?thesis
    using assms(1,3,5-8,10) sends_bounds(1) [of q] unfolding ring_ok_def p by (auto simp: n)
qed

lemma ring_ok_other:
  assumes "ring_ok c q" "\<not> is_send x"
  shows "ring_ok c (q @ [x])"
  using assms by (auto simp: ring_ok_def)

lemma ring_ok_cong:
  assumes "max_pending_msg d = max_pending_msg c" "send_buf d = send_buf c" "slot_tail d = slot_tail c"
    "slot_head d = slot_head c" "slots_full d = slots_full c"
  shows "ring_ok d q = ring_ok c q"
  using assms by (simp add: ring_ok_def slot_ptr_def)

subsection \<open>Slots in memory\<close>

definition off_buf :: "RdmaContext \<Rightarrow> ptr \<Rightarrow> nat \<Rightarrow> bool" where
  "off_buf c p n \<longleftrightarrow> (\<forall>k < n. \<not> in_range (send_buf c) (send_buf_len c) (p + of_nat k))"

lemma slot_index:
  assumes "cfg_ok c" "0 \<le> k" "k < max_pending_msg c" "in_range (slot_ptr c k) MAX_REQUEST_SIZE a"
  shows "in_range (send_buf c) (send_buf_len c) a" "unat (a - send_buf c) div MAX_REQUEST_SIZE = nat k"
proof -
  let ?j = "unat (a - slot_ptr c k)" and ?z = "MAX_REQUEST_SIZE"
  have j: "?j < ?z" using assms(4) by (simp add: in_range_def)
  have "nat k + 1 \<le> nat (max_pending_msg c)" using assms(2,3) by simp
  then have "(nat k + 1) * ?z \<le> nat (max_pending_msg c) * ?z" by (rule mult_le_mono1)
  then have b: "nat k * ?z + ?j < send_buf_len c" "send_buf_len c \<le> 2 ^ 64"
    using j assms(1) by (simp_all add: cfg_ok_def)
  have "a - send_buf c = of_nat (nat k * ?z + ?j)"
    using assms(2) by (simp add: slot_ptr_def)
  then have u: "unat (a - send_buf c) = nat k * ?z + ?j"
    using b by (simp only: unat_of_nat) simp
  then show "in_range (send_buf c) (send_buf_len c) a" using b by (simp add: in_range_def)
  have "0 < ?z" by (simp add: MAX_REQUEST_SIZE_def)
  with u j show "unat (a - send_buf c) div ?z = nat k" by simp
qed

lemma bytes_at_cong: "(\<And>k. k < n \<Longrightarrow> m' (p + of_nat k) = m (p + of_nat k)) \<Longrightarrow> bytes_at p n m' = bytes_at p n m"
  by (simp add: bytes_at_def)

lemma length_bytes_at [simp]: "length (bytes_at p n m) = n"
  by (simp add: bytes_at_def)

lemma bytes_at_memcpy: "n \<le> 2 ^ 64 \<Longrightarrow> bytes_at p n (memcpy p q n m) = bytes_at q n m"
  by (auto simp: bytes_at_def memcpy_def in_range_def unat_of_nat)

lemma bytes_at_write:
  assumes "length bs < 2 ^ 64"
  shows "bytes_at p (length bs) (write_bytes p (bs @ ys) m) = bs"
  using assms by (intro nth_equalityI) (auto simp: bytes_at_def write_bytes_def in_range_def unat_of_nat nth_append)

lemma bytes_at_append: "bytes_at p (a + b) m = bytes_at p a m @ bytes_at (p + of_nat a) b m"
  unfolding bytes_at_def by (intro nth_equalityI) (auto simp: nth_append algebra_simps simp flip: of_nat_add)

text \<open>Memory changes in one slot at most.\<close>

definition slot_only :: "RdmaContext \<Rightarrow> int \<Rightarrow> mem \<Rightarrow> mem \<Rightarrow> bool" where
  "slot_only c k m m' \<longleftrightarrow> (\<forall>a. \<not> in_range (slot_ptr c k) MAX_REQUEST_SIZE a \<longrightarrow> m' a = m a)"

lemma slot_only_other_slot:
  assumes "cfg_ok c" "0 \<le> k" "k < max_pending_msg c" "0 \<le> j" "j < max_pending_msg c" "j \<noteq> k"
    and "slot_only c k m m'" "n \<le> MAX_REQUEST_SIZE"
  shows "bytes_at (slot_ptr c j) n m' = bytes_at (slot_ptr c j) n m"
proof (rule bytes_at_cong)
  fix i assume "i < n"
  with assms(8) have "i < MAX_REQUEST_SIZE" "i < 2 ^ 64" by (simp_all add: MAX_REQUEST_SIZE_def)
  then have j: "in_range (slot_ptr c j) MAX_REQUEST_SIZE (slot_ptr c j + of_nat i)" by (simp add: in_range_def unat_of_nat)
  have "\<not> in_range (slot_ptr c k) MAX_REQUEST_SIZE (slot_ptr c j + of_nat i)"
    using slot_index(2) [OF assms(1,4,5) j] slot_index(2) [OF assms(1-3), of "slot_ptr c j + of_nat i"] assms(2,4,6) by auto
  with assms(7) show "m' (slot_ptr c j + of_nat i) = m (slot_ptr c j + of_nat i)" by (simp add: slot_only_def)
qed

lemma slot_only_off_buf:
  assumes "cfg_ok c" "0 \<le> k" "k < max_pending_msg c" "slot_only c k m m'" "off_buf c p n"
  shows "bytes_at p n m' = bytes_at p n m"
  using assms slot_index(1) [OF assms(1-3)] by (intro bytes_at_cong) (auto simp: slot_only_def off_buf_def)

subsection \<open>What has been handed over, and in which order\<close>

datatype wmsg =
    WSend "byte list"
  | WRdma ibv_wr_opcode ptr nat ptr "32 word"  \<comment> \<open>local address, length, remote address, immediate data\<close>

definition msg_of :: "mem \<Rightarrow> RdmaRequest \<Rightarrow> wmsg" where
  "msg_of m r =
     (if rr_op r = IBV_WR_SEND then WSend (bytes_at (rr_src r) (rr_len r) m)
      else if rr_op r = IBV_WR_RDMA_READ then WRdma (rr_op r) (rr_dest r) (rr_len r) (rr_src r) 0
      else WRdma (rr_op r) (rr_src r) (rr_len r) (rr_dest r) (if rr_op r = IBV_WR_RDMA_WRITE_WITH_IMM then htonl (rr_imm r) else 0))"

fun join0 :: "byte list list \<Rightarrow> byte list" where
  "join0 [] = []"
| "join0 [b] = b"
| "join0 (b # bs) = b @ 0 # join0 bs"

text \<open>A work request on data \<open>d\<close> carries one request, or several sends with zero bytes between them.\<close>

definition carries :: "byte list \<Rightarrow> ibv_send_wr \<Rightarrow> wmsg list \<Rightarrow> bool" where
  "carries d x g \<longleftrightarrow>
     (if is_send x then \<exists>bss. bss \<noteq> [] \<and> g = map WSend bss \<and> d = join0 bss
      else g = [WRdma (sw_opcode x) (sge_addr x) (sge_length x) (sw_remote_addr x) (sw_imm_data x)])"

abbreviation (input) sge_data :: "mem \<Rightarrow> ibv_send_wr \<Rightarrow> byte list" where
  "sge_data m x \<equiv> bytes_at (sge_addr x) (sge_length x) m"

definition carried :: "RdmaContext \<Rightarrow> ibv_send_wr list \<Rightarrow> wmsg list \<Rightarrow> bool" where
  "carried c ws pre \<longleftrightarrow> (\<exists>gs hs. list_all2 (\<lambda>x. carries (sw_data x) x) (rc_log c) gs \<and>
     list_all2 (\<lambda>x. carries (sge_data (rc_mem c) x) x) ws hs \<and> pre = concat gs @ concat hs)"

definition slots_data_ok :: "RdmaContext \<Rightarrow> bool" where
  "slots_data_ok c \<longleftrightarrow> (\<forall>x \<in> set (rc_sq c). is_send x \<longrightarrow> sge_data (rc_mem c) x = sw_data x)"

definition queue_ok :: "RdmaContext \<Rightarrow> RdmaRequest list \<Rightarrow> bool" where
  "queue_ok c rs \<longleftrightarrow> (\<forall>r \<in> set rs. rr_op r \<noteq> IBV_WR_ATOMIC_CMP_AND_SWP \<and>
     (rr_op r = IBV_WR_SEND \<longrightarrow> rr_len r < MAX_REQUEST_SIZE \<and> off_buf c (rr_src r) (rr_len r)))"

text \<open>The state while the work requests \<open>ws\<close> are built: \<open>pre\<close> is what they and all earlier ones carry.\<close>

definition built_ok :: "RdmaContext \<Rightarrow> ibv_send_wr list \<Rightarrow> wmsg list \<Rightarrow> bool" where
  "built_ok c ws pre \<longleftrightarrow> cfg_ok c \<and> counts_ok c (rc_sq c @ ws) \<and> ring_ok c (rc_sq c @ ws) \<and> slots_data_ok c \<and> carried c ws pre"

definition rdma_inv :: "RdmaContext \<Rightarrow> wmsg list \<Rightarrow> bool" where
  "rdma_inv c calls \<longleftrightarrow> (\<exists>pre. built_ok c [] pre \<and> calls = pre @ map (msg_of (rc_mem c)) (pending_requests c)) \<and>
     queue_ok c (pending_requests c) \<and> (pending_requests c \<noteq> [] \<longrightarrow> pending_msg c = max_pending_msg c)"

subsection \<open>Building one more work request\<close>

lemma ring_prefix:
  assumes "ring_ok c (q1 @ q2)"
  shows "map sge_addr (filter is_send q1) =
    map (\<lambda>k. slot_ptr c ((slot_tail c + int k) mod max_pending_msg c)) [0 ..< nat (sends q1)]"
proof -
  let ?f = "\<lambda>k. slot_ptr c ((slot_tail c + int k) mod max_pending_msg c)"
  have "take (length (filter is_send q1)) (map sge_addr (filter is_send (q1 @ q2))) =
      take (length (filter is_send q1)) (map ?f [0 ..< nat (sends (q1 @ q2))])"
    using assms by (simp only: ring_ok_def)
  then show ?thesis
    using sends_bounds(1) [of q2] by (simp add: take_map sends_def nat_add_distrib)
qed

lemma ring_other_slots:
  assumes "ring_ok c (q1 @ q2)" "sends q1 < max_pending_msg c" "y \<in> set q1" "is_send y"
  shows "\<exists>j. 0 \<le> j \<and> j < max_pending_msg c \<and> j \<noteq> (slot_tail c + sends q1) mod max_pending_msg c \<and> sge_addr y = slot_ptr c j"
proof -
  let ?n = "max_pending_msg c" and ?t = "slot_tail c"
  have "sge_addr y \<in> set (map sge_addr (filter is_send q1))" using assms(3,4) by simp
  then obtain k where k: "k < nat (sends q1)" "sge_addr y = slot_ptr c ((?t + int k) mod ?n)"
    unfolding ring_prefix [OF assms(1)] by auto
  have n: "0 < ?n" using assms(1) by (simp add: ring_ok_def)
  have "(?t + int k) mod ?n \<noteq> (?t + sends q1) mod ?n"
  proof
    assume "(?t + int k) mod ?n = (?t + sends q1) mod ?n"
    then have "?n dvd sends q1 - int k" by (simp add: mod_eq_dvd_iff dvd_diff_commute)
    moreover have "0 < sends q1 - int k" "sends q1 - int k < ?n" using k(1) assms(2) by simp_all
    ultimately show False using zdvd_imp_le by fastforce
  qed
  with k n show ?thesis by (intro exI [of _ "(?t + int k) mod ?n"]) simp
qed

definition counted :: "bool \<Rightarrow> RdmaContext \<Rightarrow> RdmaContext \<Rightarrow> bool" where
  "counted s c d \<longleftrightarrow> send_buf d = send_buf c \<and> send_buf_len d = send_buf_len c \<and> max_pending_msg d = max_pending_msg c \<and>
     max_unsignaled_msg d = max_unsignaled_msg c \<and> rc_post d = rc_post c \<and> rc_sq d = rc_sq c \<and> rc_log d = rc_log c \<and>
     pending_requests d = pending_requests c \<and> slot_tail d = slot_tail c \<and>
     to_signaled_send_msg d = to_signaled_send_msg c \<and> to_signaled_w_r_msg d = to_signaled_w_r_msg c \<and>
     pending_msg d = pending_msg c + 1 \<and> pending_send_msg d = pending_send_msg c + (if s then 1 else 0) \<and>
     slot_head d = (if s then (slot_head c + 1) mod max_pending_msg c else slot_head c) \<and>
     slots_full d = (if s then pending_send_msg c + 1 = max_pending_msg c else slots_full c)"

lemma carried_slot_only:
  assumes "carried c ws pre" "rc_log d = rc_log c" "\<forall>x \<in> set ws. is_send x \<longrightarrow> sge_data (rc_mem d) x = sge_data (rc_mem c) x"
  shows "carried d ws pre"
proof -
  have "list_all2 (\<lambda>x. carries (sge_data (rc_mem d) x) x) ws hs" if "list_all2 (\<lambda>x. carries (sge_data (rc_mem c) x) x) ws hs" for hs
    using that assms(3) by (auto simp: list_all2_conv_all_nth carries_def)
  with assms(1,2) show ?thesis by (auto simp: carried_def)
qed

lemma carried_snoc:
  assumes "carried c ws pre" "carries (sge_data (rc_mem c) x) x g"
  shows "carried c (ws @ [x]) (pre @ g)"
proof -
  obtain gs hs where "list_all2 (\<lambda>x. carries (sw_data x) x) (rc_log c) gs"
    "list_all2 (\<lambda>x. carries (sge_data (rc_mem c) x) x) ws hs" "pre = concat gs @ concat hs"
    using assms(1) by (auto simp: carried_def)
  with assms(2) show ?thesis
    unfolding carried_def by (intro exI [of _ gs] exI [of _ "hs @ [g]"]) (simp add: list_all2_appendI)
qed

lemma built_push:
  assumes b: "built_ok c ws pre" and room: "int (length (rc_sq c @ ws)) < max_pending_msg c" and ct: "counted s c c1"
    and x: "is_send x \<longleftrightarrow> s" "\<not> sw_signaled x"
    and slot: "s \<Longrightarrow> sge_addr x = slot_ptr c (slot_head c) \<and> sge_length x \<le> MAX_REQUEST_SIZE \<and>
      slot_only c (slot_head c) (rc_mem c) (rc_mem c1)"
    and same: "\<not> s \<Longrightarrow> rc_mem c1 = rc_mem c"
    and g: "carries (sge_data (rc_mem c1) x) x g"
    and mk: "mark_signaled i sig x c1 = (y, d)"
  shows "built_ok d (ws @ [y]) (pre @ g)"
proof -
  let ?q = "rc_sq c @ ws"
  have cfg: "cfg_ok c" and cnt: "counts_ok c ?q" and ring: "ring_ok c ?q" and dat: "slots_data_ok c" and car: "carried c ws pre"
    using b by (simp_all add: built_ok_def)
  note y = mark_signaled_fields [OF mk]
  have sn: "sends ?q < max_pending_msg c" using sends_bounds(2) [of ?q] room by simp
  have sy: "is_send y \<longleftrightarrow> s" using y(1) x(1) by (simp add: is_send_def)
  have ps: "pending_send_msg c = sends ?q" using cnt by (simp add: counts_ok_def)
  have h: "slot_head c = (slot_tail c + sends ?q) mod max_pending_msg c" "0 \<le> slot_head c" "slot_head c < max_pending_msg c"
    using ring by (simp_all add: ring_ok_def)
  have d: "d = c1 \<lparr> to_signaled_send_msg := to_signaled_send_msg d, to_signaled_w_r_msg := to_signaled_w_r_msg d \<rparr>" by (rule y(6))
  have fr: "send_buf d = send_buf c" "send_buf_len d = send_buf_len c" "max_pending_msg d = max_pending_msg c"
    "max_unsignaled_msg d = max_unsignaled_msg c" "rc_post d = rc_post c" "rc_sq d = rc_sq c" "rc_log d = rc_log c"
    "slot_tail d = slot_tail c" "slot_head d = slot_head c1" "slots_full d = slots_full c1" "rc_mem d = rc_mem c1"
    using ct by (subst d, simp add: counted_def)+
  have keep: "sge_data (rc_mem d) z = sge_data (rc_mem c) z" if z: "z \<in> set ?q" "is_send z" for z
  proof (cases s)
    case True
    obtain j where j: "0 \<le> j" "j < max_pending_msg c" "j \<noteq> slot_head c" "sge_addr z = slot_ptr c j"
      using ring_other_slots [of c ?q "[]" z] ring sn z h(1) by auto
    have "sge_length z \<le> MAX_REQUEST_SIZE" using ring z by (auto simp: ring_ok_def)
    then show ?thesis
      using slot_only_other_slot [OF cfg h(2,3) j(1-3)] slot [OF True] j(4) fr(11) by simp
  qed (use same fr in simp)
  have "counts_ok d (?q @ [y])"
    using counts_ok_mark [OF cfg cnt room x(2,1) _ _ _ _ _ _ mk] ct by (simp add: counted_def)
  moreover have "ring_ok d (?q @ [y])"
  proof (cases s)
    case True
    then show ?thesis
      using ring_ok_send [OF ring sn, of y d] slot y(2,3) sy fr ct ps by (simp add: counted_def)
  next
    case False
    have "ring_ok d ?q" using ring_ok_cong [of d c ?q] ring fr ct False by (simp add: counted_def)
    with False sy show ?thesis by (intro ring_ok_other) simp_all
  qed
  moreover have "slots_data_ok d" using dat keep fr(6) unfolding slots_data_ok_def by simp
  moreover have "cfg_ok d" using cfg fr by (simp add: cfg_ok_def)
  moreover have "carries (sge_data (rc_mem d) y) y g" using g y fr by (simp add: carries_def is_send_def)
  then have "carried d (ws @ [y]) (pre @ g)"
    using carried_slot_only [OF car fr(7)] keep by (intro carried_snoc) simp_all
  ultimately show ?thesis by (simp add: built_ok_def fr)
qed

subsection \<open>Merging\<close>

lemma join0_snoc: "bss \<noteq> [] \<Longrightarrow> join0 (bss @ [b]) = join0 bss @ 0 # b"
proof (induction bss rule: join0.induct)
  case (3 b c bs)
  then show ?case by simp
qed simp_all

lemma carried_merge:
  assumes "carried c (ws @ [x]) pre" "is_send x" "is_send y" "rc_log d = rc_log c"
    and "\<forall>z \<in> set ws. is_send z \<longrightarrow> sge_data (rc_mem d) z = sge_data (rc_mem c) z"
    and "sge_data (rc_mem d) y = sge_data (rc_mem c) x @ 0 # b"
  shows "carried d (ws @ [y]) (pre @ [WSend b])"
proof -
  obtain gs hs where h: "list_all2 (\<lambda>x. carries (sw_data x) x) (rc_log c) gs"
    "list_all2 (\<lambda>x. carries (sge_data (rc_mem c) x) x) (ws @ [x]) hs" "pre = concat gs @ concat hs"
    using assms(1) by (auto simp: carried_def)
  then obtain hs0 g where g: "hs = hs0 @ [g]" "list_all2 (\<lambda>x. carries (sge_data (rc_mem c) x) x) ws hs0" "carries (sge_data (rc_mem c) x) x g"
    by (auto simp: list_all2_append1 list_all2_Cons1)
  then obtain bss where b: "bss \<noteq> []" "g = map WSend bss" "sge_data (rc_mem c) x = join0 bss"
    using assms(2) by (auto simp: carries_def)
  have "carries (sge_data (rc_mem d) y) y (g @ [WSend b])"
    using b assms(3,6) by (auto simp: carries_def join0_snoc intro!: exI [of _ "bss @ [b]"])
  moreover have "carried c ws (concat gs @ concat hs0)" using h(1) g(2) by (auto simp: carried_def)
  ultimately have "carried d (ws @ [y]) ((concat gs @ concat hs0) @ (g @ [WSend b]))"
    using carried_slot_only [OF _ assms(4,5)] by (intro carried_snoc)
  then show ?thesis by (simp add: h(3) g(1))
qed

lemma in_range_offset:
  assumes "in_range (p + of_nat k) n (p + of_nat i)" "i < 2 ^ 63" "k + n \<le> 2 ^ 63"
  shows "k \<le> i" "i < k + n"
proof -
  let ?j = "unat (of_nat i - of_nat k :: 64 word)"
  have j: "?j < n" using assms(1) by (simp add: in_range_def)
  have "(of_nat i :: 64 word) = of_nat (?j + k)" by simp
  then have "unat (of_nat i :: 64 word) = unat (of_nat (?j + k) :: 64 word)" by (rule arg_cong)
  then have "i = ?j + k" using j assms(2,3) by (simp only: unat_of_nat) simp
  with j show "k \<le> i" "i < k + n" by simp_all
qed

lemma merge_memory:
  assumes "bp + n + 1 + 1 \<le> MAX_REQUEST_SIZE" "\<And>i. i < n \<Longrightarrow> q + of_nat i \<noteq> p + of_nat bp"
    and m': "m' = memcpy (p + of_nat bp + 1) q n (m(p + of_nat bp := 0))"
  shows "bytes_at p (bp + (1 + n)) m' = bytes_at p bp m @ 0 # bytes_at q n m"
    "\<not> in_range p MAX_REQUEST_SIZE a \<Longrightarrow> m' a = m a"
proof -
  have s: "bp + n + 2 \<le> 1024" using assms(1) by (simp add: MAX_REQUEST_SIZE_def)
  have p: "p + of_nat bp + 1 = p + of_nat (bp + 1)" by simp
  have out: "\<not> in_range (p + of_nat (bp + 1)) n (p + of_nat i)" if "i \<le> bp" for i
    using in_range_offset [of p "bp + 1" n i] that s by auto
  have ne: "p + of_nat i \<noteq> p + (of_nat bp :: 64 word)" if "i < bp" for i
    using that s unat_of_nat [of i, where 'a = 64] unat_of_nat [of bp, where 'a = 64] by auto
  have "bytes_at q n (m(p + of_nat bp := 0)) = bytes_at q n m"
    by (rule bytes_at_cong) (simp add: assms(2))
  then have t: "bytes_at (p + of_nat (bp + 1)) n m' = bytes_at q n m"
    using s bytes_at_memcpy [of n "p + of_nat (bp + 1)" q "m(p + of_nat bp := 0)"] by (simp only: m' p) simp
  have h: "bytes_at p bp m' = bytes_at p bp m"
    by (rule bytes_at_cong) (use out ne in \<open>simp add: m' p memcpy_def del: of_nat_add of_nat_Suc\<close>)
  have z: "m' (p + of_nat bp) = 0" using out [of bp] by (simp add: m' p memcpy_def del: of_nat_add of_nat_Suc)
  show "bytes_at p (bp + (1 + n)) m' = bytes_at p bp m @ 0 # bytes_at q n m"
    using bytes_at_append [of p "bp + 1" n m'] bytes_at_append [of p bp 1 m'] t h z
    by (simp add: bytes_at_def [of _ "Suc 0"] del: of_nat_add of_nat_Suc)
  assume a: "\<not> in_range p MAX_REQUEST_SIZE a"
  have "a = p + of_nat (unat (a - p))" by simp
  moreover have "\<not> unat (a - p) < 1024" using a by (simp add: in_range_def MAX_REQUEST_SIZE_def)
  moreover have "p + of_nat bp \<noteq> a" using a s by (auto simp: in_range_def unat_of_nat MAX_REQUEST_SIZE_def)
  moreover have "\<not> in_range (p + of_nat (bp + 1)) n a"
  proof
    assume r: "in_range (p + of_nat (bp + 1)) n a"
    let ?j = "unat (a - (p + of_nat (bp + 1)))"
    have "a - p = of_nat (?j + (bp + 1))" by simp
    then have "unat (a - p) = unat (of_nat (?j + (bp + 1)) :: 64 word)" by (rule arg_cong)
    moreover have "?j < n" using r by (simp add: in_range_def)
    ultimately have "unat (a - p) = ?j + (bp + 1)" using s by (simp only: unat_of_nat) simp
    with \<open>?j < n\<close> s \<open>\<not> unat (a - p) < 1024\<close> show False by simp
  qed
  ultimately show "m' a = m a" by (simp add: m' p memcpy_def del: of_nat_add of_nat_Suc)
qed

lemma counts_ok_replace:
  assumes "counts_ok c (q @ [x])" "is_send y = is_send x" "sw_signaled y = sw_signaled x" "sw_wr_id y = sw_wr_id x"
  shows "counts_ok c (q @ [y])"
  using assms by (cases "sw_signaled x") (simp_all add: counts_ok_def ids_ok_snoc)

lemma built_merge:
  assumes b: "built_ok c (ws @ [x]) pre" and x: "is_send x" and bp: "sge_length x + rr_len r + 1 + 1 \<le> MAX_REQUEST_SIZE"
    and src: "off_buf c (rr_src r) (rr_len r)" and mg: "merge_send r (sge_length x) x c = (y, d)"
  shows "built_ok d (ws @ [y]) (pre @ [WSend (bytes_at (rr_src r) (rr_len r) (rc_mem c))])"
    "slot_only c ((slot_tail c + sends (rc_sq c @ ws)) mod max_pending_msg c) (rc_mem c) (rc_mem d)"
proof -
  let ?q = "rc_sq c @ ws" and ?p = "sge_addr x" and ?bp = "sge_length x" and ?m = "rc_mem c" and ?n = "max_pending_msg c"
  let ?k = "(slot_tail c + sends ?q) mod ?n"
  have cfg: "cfg_ok c" and cnt: "counts_ok c (?q @ [x])" and ring: "ring_ok c (?q @ [x])" and dat: "slots_data_ok c"
    and car: "carried c (ws @ [x]) pre" using b by (simp_all add: built_ok_def)
  have k: "0 \<le> ?k" "?k < ?n" using ring by (simp_all add: ring_ok_def)
  have sn: "sends ?q < ?n" using cnt sends_bounds(2) [of ?q] by (simp add: counts_ok_def)
  have "nat (sends (?q @ [x])) = Suc (nat (sends ?q))" using x sends_bounds(1) [of ?q] by simp
  then have p: "?p = slot_ptr c ?k" using ring x sends_bounds(1) [of ?q] by (simp add: ring_ok_def)
  have y: "y = x \<lparr> sge_length := ?bp + (1 + rr_len r) \<rparr>"
    and d: "d = c \<lparr> rc_mem := memcpy (?p + of_nat ?bp + 1) (rr_src r) (rr_len r) (?m(?p + of_nat ?bp := 0)),
      rc_freed := rc_freed c @ [rr_src r] \<rparr>"
    using mg by (auto simp: merge_send_def fill_slot_def)
  have "in_range ?p MAX_REQUEST_SIZE (?p + of_nat ?bp)" using bp by (simp add: in_range_def unat_of_nat MAX_REQUEST_SIZE_def)
  then have "rr_src r + of_nat i \<noteq> ?p + of_nat ?bp" if "i < rr_len r" for i
    using src that slot_index(1) [OF cfg k] unfolding p off_buf_def by metis
  note mem = merge_memory [OF bp this, of "rc_mem d" ?m]
  show only: "slot_only c ?k ?m (rc_mem d)" unfolding slot_only_def p [symmetric] using mem(2) by (simp add: d)
  have new: "sge_data (rc_mem d) y = sge_data ?m x @ 0 # bytes_at (rr_src r) (rr_len r) ?m" using mem(1) by (simp add: y d)
  have keep: "sge_data (rc_mem d) v = sge_data ?m v" if v: "v \<in> set ?q" "is_send v" for v
  proof -
    obtain j where j: "0 \<le> j" "j < ?n" "j \<noteq> ?k" "sge_addr v = slot_ptr c j" using ring_other_slots [OF ring sn v] by auto
    have "sge_length v \<le> MAX_REQUEST_SIZE" using ring v by (auto simp: ring_ok_def)
    then show ?thesis using slot_only_other_slot [OF cfg k j(1-3) only] j(4) by simp
  qed
  have sy: "is_send y" "sw_signaled y = sw_signaled x" "sw_wr_id y = sw_wr_id x" "sge_addr y = ?p" "sge_length y \<le> MAX_REQUEST_SIZE"
    using x bp by (simp_all add: y is_send_def)
  have fd: "rc_sq d = rc_sq c" "rc_log d = rc_log c" "cfg_ok d" "slot_ptr d = slot_ptr c"
    using cfg by (simp_all add: d cfg_ok_def slot_ptr_def fun_eq_iff)
  have "counts_ok c (?q @ [y])" using counts_ok_replace [OF cnt] sy x by (simp del: append_assoc)
  then have "counts_ok d (?q @ [y])" by (simp add: counts_ok_def d)
  moreover have "ring_ok d (?q @ [y])" using ring sy x unfolding ring_ok_def fd by (auto simp: d)
  moreover have "slots_data_ok d" using dat keep by (simp add: slots_data_ok_def fd)
  moreover have "carried d (ws @ [y]) (pre @ [WSend (bytes_at (rr_src r) (rr_len r) ?m)])"
    using carried_merge [OF car x sy(1) fd(2) _ new] keep by simp
  ultimately show "built_ok d (ws @ [y]) (pre @ [WSend (bytes_at (rr_src r) (rr_len r) ?m)])"
    using fd by (simp add: built_ok_def)
qed

subsection \<open>The loop over the waiting requests\<close>

text \<open>What the loop leaves alone.\<close>

definition stays :: "RdmaContext \<Rightarrow> RdmaContext \<Rightarrow> bool" where
  "stays c d \<longleftrightarrow> send_buf d = send_buf c \<and> send_buf_len d = send_buf_len c \<and> max_pending_msg d = max_pending_msg c \<and>
     rc_sq d = rc_sq c \<and> rc_log d = rc_log c \<and> pending_requests d = pending_requests c \<and>
     (\<forall>p n. off_buf c p n \<longrightarrow> bytes_at p n (rc_mem d) = bytes_at p n (rc_mem c))"

lemma stays_refl: "stays c c"
  by (simp add: stays_def)

lemma stays_off_buf: "stays c d \<Longrightarrow> off_buf d p n = off_buf c p n"
  by (simp add: stays_def off_buf_def)

lemma stays_trans: "stays c d \<Longrightarrow> stays d e \<Longrightarrow> stays c e"
  by (simp add: stays_def off_buf_def)

lemma stays_queue:
  assumes "stays c d" "queue_ok c rs"
  shows "queue_ok d rs" "map (msg_of (rc_mem d)) rs = map (msg_of (rc_mem c)) rs"
proof -
  show "queue_ok d rs" using assms(2) by (simp add: queue_ok_def stays_off_buf [OF assms(1)])
  have "msg_of (rc_mem d) r = msg_of (rc_mem c) r" if "r \<in> set rs" for r
    using assms that by (simp add: msg_of_def queue_ok_def stays_def)
  then show "map (msg_of (rc_mem d)) rs = map (msg_of (rc_mem c)) rs" by simp
qed

lemma stays_mark:
  assumes "mark_signaled i sig x c1 = (y, d)" "stays c c1"
  shows "stays c d"
  by (subst mark_signaled_fields(6) [OF assms(1)]) (use assms(2) in \<open>simp add: stays_def\<close>)

lemma stays_slot_only:
  assumes "built_ok c ws pre" "0 \<le> k" "k < max_pending_msg c" "slot_only c k (rc_mem c) (rc_mem d)"
    and "send_buf d = send_buf c" "send_buf_len d = send_buf_len c" "max_pending_msg d = max_pending_msg c"
    "rc_sq d = rc_sq c" "rc_log d = rc_log c" "pending_requests d = pending_requests c"
  shows "stays c d"
  using assms slot_only_off_buf [of c k "rc_mem c" "rc_mem d"] by (simp add: stays_def built_ok_def)

lemma memcpy_slot_only: "n \<le> MAX_REQUEST_SIZE \<Longrightarrow> slot_only c k m (memcpy (slot_ptr c k) p n m)"
  by (auto simp: slot_only_def memcpy_def in_range_def)

lemma built_new:
  assumes b: "built_ok c ws pre" and room: "int (length (rc_sq c @ ws)) < max_pending_msg c" and r: "queue_ok c [r]"
  shows "\<exists>x c1. new_pending r c = Some (x, c1) \<and>
    (\<forall>i sig y d. mark_signaled i sig x c1 = (y, d) \<longrightarrow>
       built_ok d (ws @ [y]) (pre @ [msg_of (rc_mem c) r]) \<and> stays c d \<and>
       (is_send y \<longleftrightarrow> rr_op r = IBV_WR_SEND) \<and> sge_length y = rr_len r)"
proof (cases "rr_op r = IBV_WR_SEND")
  case True
  let ?p = "slot_ptr c (slot_head c)" and ?q = "rc_sq c @ ws"
  have cnt: "counts_ok c ?q" and ring: "ring_ok c ?q" using b by (simp_all add: built_ok_def)
  have h: "0 \<le> slot_head c" "slot_head c < max_pending_msg c" using ring by (simp_all add: ring_ok_def)
  have l: "rr_len r \<le> MAX_REQUEST_SIZE" "off_buf c (rr_src r) (rr_len r)" using r True by (simp_all add: queue_ok_def)
  define c0 where "c0 = c \<lparr> slot_head := (slot_head c + 1) mod max_pending_msg c, slots_full := (sends ?q + 1 = max_pending_msg c) \<rparr>"
  define c1 where "c1 = count_msg (count_send (fill_slot ?p r c0))"
  define x where "x = send_wr_of r ?p c0"
  have n: "new_pending r c = Some (x, c1)"
    using True GetFreeSlot_ring [OF cnt ring room] by (simp add: new_pending_def c1_def x_def c0_def)
  have ct: "counted True c c1"
    using cnt by (simp add: counted_def counts_ok_def c1_def c0_def count_msg_def count_send_def fill_slot_def)
  have m: "rc_mem c1 = memcpy ?p (rr_src r) (rr_len r) (rc_mem c)"
    by (simp add: c1_def c0_def count_msg_def count_send_def fill_slot_def)
  have so: "slot_only c (slot_head c) (rc_mem c) (rc_mem c1)" unfolding m by (rule memcpy_slot_only [OF l(1)])
  have x: "is_send x" "\<not> sw_signaled x" "sge_addr x = ?p" "sge_length x = rr_len r"
    using True by (simp_all add: x_def send_wr_of_def is_send_def)
  have "sge_data (rc_mem c1) x = bytes_at (rr_src r) (rr_len r) (rc_mem c)"
    using l(1) by (simp add: x m bytes_at_memcpy MAX_REQUEST_SIZE_def)
  then have g: "carries (sge_data (rc_mem c1) x) x [msg_of (rc_mem c) r]"
    using x(1) True by (auto simp: carries_def msg_of_def intro!: exI [of _ "[bytes_at (rr_src r) (rr_len r) (rc_mem c)]"])
  have st: "stays c c1"
    using stays_slot_only [OF b h so] ct by (simp add: counted_def)
  show ?thesis
    using n built_push [OF b room ct, of x] x so g l(1) stays_mark [OF _ st] mark_signaled_fields(1,3)
    by (intro exI [of _ x] exI [of _ c1]) (auto simp: True is_send_def)
next
  case False
  define p where "p = (if rr_op r = IBV_WR_RDMA_READ then rr_dest r else rr_src r)"
  have n: "new_pending r c = Some (send_wr_of r p c, count_msg c)" using False by (simp add: new_pending_def p_def)
  have ct: "counted False c (count_msg c)" by (simp add: counted_def count_msg_def)
  have x: "\<not> is_send (send_wr_of r p c)" "\<not> sw_signaled (send_wr_of r p c)" "sge_length (send_wr_of r p c) = rr_len r"
    "rc_mem (count_msg c) = rc_mem c"
    using False by (simp_all add: send_wr_of_def is_send_def count_msg_def)
  have g: "carries (sge_data (rc_mem c) (send_wr_of r p c)) (send_wr_of r p c) [msg_of (rc_mem c) r]"
    using x(1) False r by (cases "rr_op r") (simp_all add: carries_def msg_of_def send_wr_of_def p_def queue_ok_def)
  have st: "stays c (count_msg c)" by (simp add: stays_def count_msg_def)
  show ?thesis
    using n built_push [OF b room ct, of "send_wr_of r p c"] x g stays_mark [OF _ st] mark_signaled_fields(1,3)
    by (intro exI [of _ "send_wr_of r p c"] exI [of _ "count_msg c"]) (auto simp: False is_send_def)
qed

lemma pending_loop_built:
  assumes "built_ok c ws pre" "queue_ok c rs" "int (length (rc_sq c) + n) = max_pending_msg c" "length ws \<le> n"
    and "ws \<noteq> [] \<Longrightarrow> is_send (last ws) \<Longrightarrow> bp = sge_length (last ws)"
  shows "\<exists>ws' rest d pre'. pending_loop n ws bp rs c = Some (ws', rest, d) \<and> built_ok d ws' pre' \<and> stays c d \<and>
    pre' @ map (msg_of (rc_mem d)) rest = pre @ map (msg_of (rc_mem c)) rs \<and> queue_ok d rest \<and>
    length ws' \<le> n \<and> (rest \<noteq> [] \<longrightarrow> length ws' = n) \<and> (ws \<noteq> [] \<or> rs \<noteq> [] \<and> 0 < n \<longrightarrow> ws' \<noteq> [])"
  using assms
proof (induction rs arbitrary: ws bp c pre)
  case Nil
  then show ?case by (simp add: stays_refl queue_ok_def)
next
  case (Cons r rs)
  let ?m = "rc_mem c"
  have nc: "rr_op r \<noteq> IBV_WR_ATOMIC_CMP_AND_SWP" and q: "queue_ok c [r]" "queue_ok c rs"
    using Cons.prems(2) by (simp_all add: queue_ok_def)
  have go: ?case if l: "pending_loop n ws bp (r # rs) c = pending_loop n ws1 bp1 rs d" and b: "built_ok d ws1 (pre @ [msg_of ?m r])"
      and st: "stays c d" and w: "ws1 \<noteq> []" "length ws1 \<le> n" "is_send (last ws1) \<Longrightarrow> bp1 = sge_length (last ws1)" for ws1 bp1 d
  proof -
    have "int (length (rc_sq d) + n) = max_pending_msg d" using Cons.prems(3) st by (simp add: stays_def)
    from Cons.IH [OF b stays_queue(1) [OF st q(2)] this w(2), of bp1] w(1,3) stays_queue(2) [OF st q(2)] st
    show ?thesis unfolding l by (auto; blast intro: stays_trans)
  qed
  show ?case
  proof (cases "can_merge r bp ws")
    case True
    then obtain us x where ws: "ws = us @ [x]" by (cases ws rule: rev_cases) (simp_all add: can_merge_def)
    have x: "is_send x" "rr_op r = IBV_WR_SEND" "bp = sge_length x" "bp + rr_len r + 1 + 1 \<le> MAX_REQUEST_SIZE" "\<not> rr_signaled r"
      using True Cons.prems(5) by (simp_all add: can_merge_def ws is_send_def)
    obtain y d where y: "merge_send r bp x c = (y, d)" by fastforce
    have src: "off_buf c (rr_src r) (rr_len r)" using q(1) x(2) by (simp add: queue_ok_def)
    note m = built_merge [OF Cons.prems(1) [unfolded ws] x(1) x(4) [unfolded x(3)] src y [unfolded x(3)]]
    have "0 < max_pending_msg c" using Cons.prems(1) by (simp add: built_ok_def cfg_ok_def)
    then have st: "stays c d"
      using stays_slot_only [OF Cons.prems(1) _ _ m(2)] y by (auto simp: merge_send_def fill_slot_def)
    have mk: "mark_signaled (rr_id r) (rr_signaled r) y d = (y, d)"
      using mark_merged [of d] m(1) x(5) by (auto simp: built_ok_def)
    have "is_send y" "sge_length y = bp + (1 + rr_len r)" using y x(1) by (auto simp: merge_send_def is_send_def)
    then show ?thesis
      using go [of "us @ [y]" "bp + (1 + rr_len r)" d] m(1) st y mk True Cons.prems(4) x(2) by (simp add: ws msg_of_def)
  next
    case False
    show ?thesis
    proof (cases "length ws = n")
      case True
      then have "pending_loop n ws bp (r # rs) c = Some (ws, r # rs, c)" using False nc by simp
      with Cons.prems True show ?thesis by (auto simp: stays_refl)
    next
      case less: False
      then have room: "int (length (rc_sq c @ ws)) < max_pending_msg c" using Cons.prems(3,4) by simp
      obtain x c1 where n: "new_pending r c = Some (x, c1)" and
        B: "\<And>i sig y d. mark_signaled i sig x c1 = (y, d) \<Longrightarrow> built_ok d (ws @ [y]) (pre @ [msg_of ?m r]) \<and> stays c d \<and>
          (is_send y \<longleftrightarrow> rr_op r = IBV_WR_SEND) \<and> sge_length y = rr_len r"
        using built_new [OF Cons.prems(1) room q(1)] by blast
      obtain y d where mk: "mark_signaled (rr_id r) (rr_signaled r) x c1 = (y, d)" by fastforce
      show ?thesis
        using go [of "ws @ [y]" "if rr_op r = IBV_WR_SEND then rr_len r else 0" d] B [OF mk] n mk False nc less Cons.prems(4) by simp
    qed
  qed
qed

subsection \<open>Handing over to the device\<close>

text \<open>Work requests that differ in their data or their inline flag only.\<close>

definition alike :: "ibv_send_wr \<Rightarrow> ibv_send_wr \<Rightarrow> bool" where
  "alike x y \<longleftrightarrow> sw_opcode y = sw_opcode x \<and> sw_signaled y = sw_signaled x \<and> sw_wr_id y = sw_wr_id x \<and>
     sge_addr y = sge_addr x \<and> sge_length y = sge_length x \<and> sw_remote_addr y = sw_remote_addr x \<and> sw_imm_data y = sw_imm_data x"

lemma alike_send: "alike x y \<Longrightarrow> is_send y = is_send x"
  by (simp add: alike_def is_send_def)

lemma alike_list:
  assumes "list_all2 alike q q'"
  shows "sends q' = sends q" "list_all2 alike (settled q) (settled q')" "length (unsettled q') = length (unsettled q)"
    "sends (unsettled q') = sends (unsettled q)" "ids_ok 0 0 q' = ids_ok 0 0 q"
    "map sge_addr (filter is_send q') = map sge_addr (filter is_send q)"
proof -
  have "sends q' = sends q \<and> list_all2 alike (settled q) (settled q') \<and> length (unsettled q') = length (unsettled q) \<and>
    sends (unsettled q') = sends (unsettled q) \<and> ids_ok 0 0 q' = ids_ok 0 0 q \<and>
    map sge_addr (filter is_send q') = map sge_addr (filter is_send q)"
    using assms
  proof (induction q arbitrary: q' rule: rev_induct)
    case (snoc x xs)
    then obtain ys y where q': "q' = ys @ [y]" "list_all2 alike xs ys" "alike x y"
      by (auto simp: list_all2_append1 list_all2_Cons1)
    have "sw_signaled y = sw_signaled x" "sw_wr_id y = sw_wr_id x" "sge_addr y = sge_addr x"
      using q'(3) by (simp_all add: alike_def)
    with snoc.IH [OF q'(2)] q' alike_send [OF q'(3)] show ?case
      by (cases "sw_signaled x") (auto simp: ids_ok_snoc list_all2_appendI)
  qed simp
  then show "sends q' = sends q" "list_all2 alike (settled q) (settled q')" "length (unsettled q') = length (unsettled q)"
    "sends (unsettled q') = sends (unsettled q)" "ids_ok 0 0 q' = ids_ok 0 0 q"
    "map sge_addr (filter is_send q') = map sge_addr (filter is_send q)" by blast+
qed

lemma alike_counts:
  assumes "list_all2 alike q q'" "counts_ok c q"
  shows "counts_ok c q'"
  using assms(2) alike_list [OF assms(1)] alike_list(1) [OF alike_list(2) [OF assms(1)]]
    list_all2_lengthD [OF assms(1)] list_all2_lengthD [OF alike_list(2) [OF assms(1)]]
  by (simp add: counts_ok_def)

lemma alike_ring:
  assumes "list_all2 alike q q'" "ring_ok c q"
  shows "ring_ok c q'"
proof -
  have "\<forall>y \<in> set q'. \<exists>x \<in> set q. alike x y"
    using assms(1) by (metis list_all2_conv_all_nth in_set_conv_nth)
  then have "\<forall>y \<in> set q'. is_send y \<longrightarrow> sge_length y \<le> MAX_REQUEST_SIZE"
    using assms(2) unfolding ring_ok_def by (metis alike_def alike_send)
  with assms(2) alike_list [OF assms(1)] show ?thesis by (simp add: ring_ok_def)
qed

definition with_data :: "mem \<Rightarrow> ibv_send_wr \<Rightarrow> ibv_send_wr" where
  "with_data m x = x \<lparr> sw_data := sge_data m x \<rparr>"

lemma alike_posted: "alike x (with_data m (set_inline c x))"
  by (simp add: alike_def with_data_def set_inline_def)

lemma built_post:
  assumes b: "built_ok c ws pre" and ws'_def: "ws' = map (with_data (rc_mem c) \<circ> set_inline e) ws"
  shows "post_send (map (set_inline e) ws) c = (True, c \<lparr> rc_sq := rc_sq c @ ws', rc_log := rc_log c @ ws' \<rparr>)"
    "built_ok (c \<lparr> rc_sq := rc_sq c @ ws', rc_log := rc_log c @ ws' \<rparr>) [] pre"
proof -
  let ?d = "c \<lparr> rc_sq := rc_sq c @ ws', rc_log := rc_log c @ ws' \<rparr>"
  have cfg: "cfg_ok c" and cnt: "counts_ok c (rc_sq c @ ws)" and ring: "ring_ok c (rc_sq c @ ws)" and dat: "slots_data_ok c"
    and car: "carried c ws pre" using b by (simp_all add: built_ok_def)
  have "int (length (rc_sq c) + length ws') \<le> max_pending_msg c" using cnt by (simp add: counts_ok_def ws'_def)
  then have k: "length ws' \<le> rc_post c (rc_sq c) ws'" using cfg unfolding cfg_ok_def by blast
  have w: "map (\<lambda>x. x \<lparr> sw_data := sge_data (rc_mem c) x \<rparr>) (map (set_inline e) ws) = ws'"
    by (simp add: ws'_def with_data_def)
  show "post_send (map (set_inline e) ws) c = (True, ?d)"
    unfolding post_send_def Let_def w using k by simp
  have al: "list_all2 alike (rc_sq c @ ws) (rc_sq c @ ws')"
    unfolding ws'_def by (auto simp: list_all2_conv_all_nth nth_append alike_posted) (simp add: alike_def)
  have "counts_ok ?d (rc_sq c @ ws')" using alike_counts [OF al cnt] by (simp add: counts_ok_def)
  moreover have "ring_ok ?d (rc_sq c @ ws')"
    using alike_ring [OF al ring] ring_ok_cong [of ?d c "rc_sq c @ ws'"] by simp
  moreover have "slots_data_ok ?d" using dat by (auto simp: slots_data_ok_def ws'_def with_data_def set_inline_def)
  moreover have "carried ?d [] pre"
  proof -
    obtain gs hs where h: "list_all2 (\<lambda>x. carries (sw_data x) x) (rc_log c) gs"
      "list_all2 (\<lambda>x. carries (sge_data (rc_mem c) x) x) ws hs" "pre = concat gs @ concat hs"
      using car by (auto simp: carried_def)
    have "list_all2 (\<lambda>x. carries (sw_data x) x) ws' hs"
      using h(2) by (auto simp: ws'_def list_all2_conv_all_nth with_data_def set_inline_def carries_def is_send_def)
    with h(1,3) show ?thesis
      unfolding carried_def by (intro exI [of _ "gs @ hs"] exI [of _ "[]"]) (simp add: list_all2_appendI)
  qed
  moreover have "cfg_ok ?d" using cfg by (simp add: cfg_ok_def)
  ultimately show "built_ok ?d [] pre" by (simp add: built_ok_def)
qed

lemma ProcessPendingRequests_inv:
  assumes b: "built_ok c [] pre" and q: "queue_ok c (pending_requests c)"
    and room: "pending_msg c + int n \<le> max_pending_msg c" "0 < n"
    and wait: "pending_requests c \<noteq> [] \<Longrightarrow> pending_msg c + int n = max_pending_msg c"
  shows "\<exists>d. ProcessPendingRequests n c = Some d \<and> rdma_inv d (pre @ map (msg_of (rc_mem c)) (pending_requests c))"
proof (cases "pending_requests c = []")
  case True
  then show ?thesis using b by (auto simp: ProcessPendingRequests_def rdma_inv_def queue_ok_def)
next
  case False
  have "pending_msg c = int (length (rc_sq c))" using b by (simp add: built_ok_def counts_ok_def)
  then have "int (length (rc_sq c) + n) = max_pending_msg c" using wait [OF False] by simp
  then obtain ws rest d pre' where l: "pending_loop n [] 0 (pending_requests c) c = Some (ws, rest, d)"
    and d: "built_ok d ws pre'" "stays c d" "queue_ok d rest" "ws \<noteq> []" "rest \<noteq> [] \<longrightarrow> length ws = n"
    and o: "pre' @ map (msg_of (rc_mem d)) rest = pre @ map (msg_of (rc_mem c)) (pending_requests c)"
    using pending_loop_built [OF b q, of n 0] False room(2) by auto
  define ws' where "ws' = map (with_data (rc_mem d) \<circ> set_inline d) ws"
  let ?e = "d \<lparr> pending_requests := rest \<rparr>"
  let ?f = "?e \<lparr> rc_sq := rc_sq ?e @ ws', rc_log := rc_log ?e @ ws' \<rparr>"
  have "built_ok ?e ws pre'" using d(1)
    by (simp add: built_ok_def cfg_ok_def counts_ok_def ring_ok_def slots_data_ok_def carried_def slot_ptr_def)
  note p = built_post [OF this, of ws' d]
  have "ProcessPendingRequests n c = Some ?f"
    using False l d(4) p(1) by (simp add: ProcessPendingRequests_def ws'_def)
  moreover have "pending_msg ?f = max_pending_msg ?f" if "rest \<noteq> []"
    using d(1,2,5) that room wait [OF False] b by (simp add: built_ok_def counts_ok_def stays_def)
  then have "rdma_inv ?f (pre' @ map (msg_of (rc_mem d)) rest)"
    using p(2) d(3) unfolding rdma_inv_def by (auto simp: queue_ok_def off_buf_def ws'_def)
  ultimately show ?thesis unfolding o by blast
qed

lemma set_inline_marked:
  assumes "mark_signaled i sig (set_inline c x) c1 = (y, d)"
  shows "set_inline c y = y"
  using assms by (cases x) (auto simp: mark_signaled_def set_inline_def split: if_splits)

lemma rdma_inv_idle:
  assumes "rdma_inv c calls" "pending_msg c < max_pending_msg c"
  shows "built_ok c [] calls" "pending_requests c = []" "int (length (rc_sq c @ [])) < max_pending_msg c"
  using assms by (auto simp: rdma_inv_def built_ok_def counts_ok_def)

lemma rdma_inv_posted: "built_ok d [] calls \<Longrightarrow> pending_requests d = [] \<Longrightarrow> rdma_inv d calls"
  by (simp add: rdma_inv_def queue_ok_def)

lemma Rdma_inv:
  assumes inv: "rdma_inv c calls" and op: "rr_op r \<noteq> IBV_WR_SEND" "rr_op r \<noteq> IBV_WR_ATOMIC_CMP_AND_SWP"
  shows "\<exists>d. Rdma r c = Some (if pending_msg c < max_pending_msg c then int (rr_len r) else -1, d) \<and>
    rdma_inv d (calls @ [msg_of (rc_mem c) r])"
proof (cases "pending_msg c < max_pending_msg c")
  case True
  define p where "p = (if rr_op r = IBV_WR_RDMA_READ then rr_dest r else rr_src r)"
  define x where "x = set_inline c (send_wr_of r p c)"
  obtain y d where mk: "mark_signaled (rr_id r) (rr_signaled r) x (count_msg c) = (y, d)" by fastforce
  note i = rdma_inv_idle [OF inv True]
  have ct: "counted False c (count_msg c)" by (simp add: counted_def count_msg_def)
  have x: "\<not> is_send x" "\<not> sw_signaled x" using op by (simp_all add: x_def set_inline_def send_wr_of_def is_send_def)
  have "carries (sge_data (rc_mem (count_msg c)) x) x [msg_of (rc_mem c) r]"
    using op x(1) by (cases "rr_op r") (simp_all add: carries_def msg_of_def x_def set_inline_def send_wr_of_def p_def)
  then have "built_ok d [y] (calls @ [msg_of (rc_mem c) r])"
    using built_push [OF i(1,3) ct _ x(2) _ _ _ mk] x(1) by (simp add: count_msg_def)
  note b = built_post [OF this refl, of c]
  have "pending_requests d = []" using i(2) by (subst mark_signaled_fields(6) [OF mk]) (simp add: count_msg_def)
  moreover have "set_inline c y = y" using set_inline_marked mk unfolding x_def by blast
  ultimately show ?thesis
    using True op mk b by (auto simp: Rdma_def p_def [symmetric] x_def [symmetric] intro!: rdma_inv_posted)
next
  case False
  have "pending_msg c \<le> max_pending_msg c" using inv by (auto simp: rdma_inv_def built_ok_def counts_ok_def)
  with False inv op show ?thesis
    by (auto simp: Rdma_def rdma_inv_def queue_ok_def built_ok_def cfg_ok_def counts_ok_def ring_ok_def slots_data_ok_def
        carried_def slot_ptr_def off_buf_def)
qed

lemma slot_registered:
  assumes "cfg_ok c" "0 \<le> k" "k < max_pending_msg c"
  shows "IsRegistered c (slot_ptr c k)"
proof -
  let ?a = "slot_ptr c k"
  have "in_range ?a MAX_REQUEST_SIZE ?a" by (simp add: in_range_def MAX_REQUEST_SIZE_def)
  then have "unat (?a - send_buf c) < send_buf_len c" using slot_index(1) [OF assms] by (simp add: in_range_def)
  moreover have "unat (send_buf c) + send_buf_len c \<le> 2 ^ 64" using assms(1) by (simp add: cfg_ok_def)
  moreover have "?a = of_nat (unat (send_buf c) + unat (?a - send_buf c))" by simp
  then have "unat ?a = unat (of_nat (unat (send_buf c) + unat (?a - send_buf c)) :: 64 word)" by (rule arg_cong)
  ultimately show ?thesis by (simp only: IsRegistered_def unat_of_nat) simp
qed

text \<open>A buffer from \<open>zmalloc\<close> lies outside the send buffer and outside the buffers that still wait.\<close>

definition fresh_buf :: "RdmaContext \<Rightarrow> ptr \<Rightarrow> nat \<Rightarrow> bool" where
  "fresh_buf c z n \<longleftrightarrow> off_buf c z n \<and> (\<forall>r \<in> set (pending_requests c). rr_op r = IBV_WR_SEND \<longrightarrow>
     (\<forall>i < rr_len r. \<not> in_range z n (rr_src r + of_nat i)))"

lemma in_range_iff: "n \<le> 2 ^ 64 \<Longrightarrow> in_range p n a \<longleftrightarrow> (\<exists>k < n. a = p + of_nat k)"
  by (auto simp: in_range_def unat_of_nat intro!: exI [of _ "unat (a - p)"])

lemma write_bytes_outside: "\<not> in_range p (length bs) a \<Longrightarrow> write_bytes p bs m a = m a"
  by (simp add: write_bytes_def)

text \<open>The data of an outstanding send lies in the send buffer.\<close>

lemma ring_data_in_buf:
  assumes "cfg_ok c" "ring_ok c q" "x \<in> set q" "is_send x" "i < sge_length x"
  shows "in_range (send_buf c) (send_buf_len c) (sge_addr x + of_nat i)"
proof -
  let ?f = "\<lambda>k. (slot_tail c + int k) mod max_pending_msg c"
  have "sge_addr x \<in> set (map sge_addr (filter is_send q))" using assms(3,4) by simp
  also have "\<dots> = set (map (\<lambda>k. slot_ptr c (?f k)) [0 ..< nat (sends q)])" using assms(2) by (simp only: ring_ok_def)
  finally obtain k where k: "sge_addr x = slot_ptr c (?f k)" by auto
  have f: "0 \<le> ?f k" "?f k < max_pending_msg c" using assms(2) by (simp_all add: ring_ok_def)
  have "sge_length x \<le> MAX_REQUEST_SIZE" using assms(2-4) by (auto simp: ring_ok_def)
  with assms(5) have "in_range (slot_ptr c (?f k)) MAX_REQUEST_SIZE (sge_addr x + of_nat i)"
    by (simp add: k in_range_def unat_of_nat MAX_REQUEST_SIZE_def)
  then show ?thesis by (rule slot_index(1) [OF assms(1) f])
qed

lemma send_busy:
  assumes inv: "rdma_inv c calls" and full: "\<not> pending_msg c < max_pending_msg c"
    and z: "fresh_buf c z (length bs + 1)" and bs: "length bs < MAX_REQUEST_SIZE"
  shows "\<exists>d. send_message z bs c = Some (-1, d) \<and> rdma_inv d (calls @ [WSend bs])"
proof -
  let ?m = "write_bytes z (bs @ [0]) (rc_mem c)" and ?r = "rdma_request IBV_WR_SEND z (length bs) 0 False 0 0"
  let ?d = "c \<lparr> rc_mem := ?m, pending_requests := pending_requests c @ [?r] \<rparr>"
  obtain pre where b: "built_ok c [] pre" and calls: "calls = pre @ map (msg_of (rc_mem c)) (pending_requests c)"
    and q: "queue_ok c (pending_requests c)" using inv by (auto simp: rdma_inv_def)
  have cnt: "counts_ok c (rc_sq c)" and ring: "ring_ok c (rc_sq c)" and cfg: "cfg_ok c" using b by (simp_all add: built_ok_def)
  have "GetFreeSlot c = None" using full by (simp add: GetFreeSlot_def Let_def)
  then have s: "send_message z bs c = Some (-1, ?d)"
    using full by (simp add: send_message_def ctx_Send_def Rdma_def)
  have n: "length bs + 1 \<le> 2 ^ 64" using bs by (simp add: MAX_REQUEST_SIZE_def)
  have "sge_data ?m x = sge_data (rc_mem c) x" if x: "x \<in> set (rc_sq c)" "is_send x" for x
  proof (rule bytes_at_cong)
    fix i assume i: "i < sge_length x"
    have "in_range (send_buf c) (send_buf_len c) (sge_addr x + of_nat i)" by (rule ring_data_in_buf [OF cfg ring x i])
    with z n have "\<not> in_range z (length bs + 1) (sge_addr x + of_nat i)"
      by (auto simp: fresh_buf_def off_buf_def in_range_iff)
    then show "?m (sge_addr x + of_nat i) = rc_mem c (sge_addr x + of_nat i)" by (simp add: write_bytes_outside)
  qed
  then have "built_ok ?d [] pre" using b
    by (auto simp: built_ok_def cfg_ok_def counts_ok_def ring_ok_def slots_data_ok_def carried_def slot_ptr_def)
  moreover have "msg_of ?m r = msg_of (rc_mem c) r" if "r \<in> set (pending_requests c)" for r
    using that z by (auto simp: msg_of_def fresh_buf_def write_bytes_outside intro!: bytes_at_cong)
  moreover have "msg_of ?m ?r = WSend bs"
    using bytes_at_write [of bs z "[0]" "rc_mem c"] n by (simp add: msg_of_def rdma_request_def)
  moreover have "queue_ok ?d (pending_requests ?d)"
    using q z bs by (auto simp: queue_ok_def fresh_buf_def off_buf_def rdma_request_def)
  moreover have "pending_msg c = max_pending_msg c" using cnt full by (simp add: counts_ok_def)
  ultimately have "rdma_inv ?d (calls @ [WSend bs])" unfolding rdma_inv_def calls by (auto intro!: exI [of _ pre])
  with s show ?thesis by blast
qed

lemma Rdma_registered:
  assumes "pending_msg c < max_pending_msg c" "IsRegistered c p" "r = rdma_request IBV_WR_SEND p n i sig 0 0"
    and "mark_signaled i sig (set_inline (count_send c) (send_wr_of r p (count_send c))) (count_msg (count_send c)) = (y, d)"
    and "post_send [y] d = (True, e)" "IsRegistered e p"
  shows "Rdma r c = Some (int n, e)"
proof -
  have r: "rr_op r = IBV_WR_SEND" "rr_src r = p" "rr_len r = n" "rr_id r = i" "rr_signaled r = sig"
    by (simp_all add: assms(3) rdma_request_def)
  show ?thesis using assms(1,2,4-6) unfolding Rdma_def r by simp
qed

lemma send_direct:
  assumes inv: "rdma_inv c calls" and free: "pending_msg c < max_pending_msg c" and bs: "length bs < MAX_REQUEST_SIZE"
  shows "\<exists>d. send_message z bs c = Some (int (length bs), d) \<and> rdma_inv d (calls @ [WSend bs]) \<and> pending_requests d = []"
proof -
  let ?p = "slot_ptr c (slot_head c)" and ?n = "max_pending_msg c" and ?r = "\<lambda>p. rdma_request IBV_WR_SEND p (length bs) 0 False 0 0"
  note i = rdma_inv_idle [OF inv free]
  have cfg: "cfg_ok c" and cnt: "counts_ok c (rc_sq c)" and ring: "ring_ok c (rc_sq c)" using i(1) by (simp_all add: built_ok_def)
  have h: "0 \<le> slot_head c" "slot_head c < ?n" using ring by (simp_all add: ring_ok_def)
  define c0 where "c0 = c \<lparr> slot_head := (slot_head c + 1) mod ?n, slots_full := (sends (rc_sq c) + 1 = ?n), rc_mem := write_bytes ?p (bs @ [0]) (rc_mem c) \<rparr>"
  define c1 where "c1 = count_msg (count_send c0)"
  define x where "x = set_inline (count_send c0) (send_wr_of (?r ?p) ?p (count_send c0))"
  have g: "GetFreeSlot c = Some (?p, c \<lparr> slot_head := (slot_head c + 1) mod ?n, slots_full := (sends (rc_sq c) + 1 = ?n) \<rparr>)"
    using GetFreeSlot_ring [OF cnt ring] i(3) by simp
  have reg: "IsRegistered d ?p" if "send_buf d = send_buf c" "send_buf_len d = send_buf_len c" for d
    using slot_registered [OF cfg h] that by (simp add: IsRegistered_def)
  have ct: "counted True c c1" using cnt by (simp add: counted_def counts_ok_def c1_def c0_def count_msg_def count_send_def)
  have x: "is_send x" "\<not> sw_signaled x" "sge_addr x = ?p" "sge_length x = length bs"
    by (simp_all add: x_def set_inline_def send_wr_of_def is_send_def rdma_request_def)
  have m: "rc_mem c1 = write_bytes ?p (bs @ [0]) (rc_mem c)" by (simp add: c1_def c0_def count_msg_def count_send_def)
  have so: "slot_only c (slot_head c) (rc_mem c) (rc_mem c1)"
    using bs by (auto simp: m slot_only_def write_bytes_def in_range_def)
  have "sge_data (rc_mem c1) x = bs" using bs bytes_at_write [of bs ?p "[0]"] by (simp add: x m MAX_REQUEST_SIZE_def)
  then have cr: "carries (sge_data (rc_mem c1) x) x [WSend bs]" using x(1) by (auto simp: carries_def intro!: exI [of _ "[bs]"])
  obtain y d where mk: "mark_signaled 0 False x c1 = (y, d)" by fastforce
  have "built_ok d [y] (calls @ [WSend bs])"
    using built_push [OF i(1,3) ct _ x(2) _ _ cr mk] x so bs by simp
  note b = built_post [OF this refl, of "count_send c0"]
  have f: "pending_requests d = []" "send_buf d = send_buf c" "send_buf_len d = send_buf_len c"
    using i(2) by (subst mark_signaled_fields(6) [OF mk], simp add: c1_def c0_def count_msg_def count_send_def)+
  have y: "set_inline (count_send c0) y = y" using set_inline_marked mk unfolding x_def by blast
  have "send_message z bs c = Rdma (?r ?p) c0" by (simp add: send_message_def g ctx_Send_def c0_def)
  also have "\<dots> = Some (int (length bs), snd (post_send [y] d))"
    by (rule Rdma_registered [OF _ reg refl mk [unfolded x_def c1_def]]) (use free b(1) y reg f in \<open>simp_all add: c0_def\<close>)
  finally show ?thesis using b y f by (auto intro!: rdma_inv_posted)
qed

end
