(* ===== verification/Rdma_Order.thy ===== *)
theory Rdma_Order
  imports Rdma_Ring
begin

text \<open>
  Completions, and a connection over time. A completion of the device reports a signaled work
  request; it stands for that request and the unsignaled ones before it. The reachable states
  of a connection satisfy the invariant of \<open>Rdma_Ring\<close>, from which follow
  that slots in flight are not overwritten, that messages leave in order, and that a request
  which waits will be woken.
\<close>

subsection \<open>The counts in a work request id\<close>

lemma of_int_mask16:
  assumes "0 \<le> s" "s < 2 ^ 16"
  shows "(of_int s AND 0xFFFF :: 64 word) = of_int s" "uint (of_int s :: 64 word) = s"
proof -
  show u: "uint (of_int s :: 64 word) = s" using assms by (simp add: uint_word_of_int)
  then have "uint (take_bit 16 (of_int s :: 64 word)) = uint (of_int s :: 64 word)"
    using assms unfolding unsigned_take_bit_eq by (simp add: take_bit_eq_mod)
  then have "take_bit 16 (of_int s :: 64 word) = of_int s" by (simp add: word_uint_eq_iff)
  moreover have "(0xFFFF :: 64 word) = mask 16" by (simp add: mask_eq_exp_minus_1)
  ultimately show "(of_int s AND 0xFFFF :: 64 word) = of_int s" by (simp add: take_bit_eq_mask)
qed

lemma uint_pack_id:
  assumes "0 \<le> s" "s < 2 ^ 16" "0 \<le> w" "w < 2 ^ 16"
  shows "uint (pack_id i s w) = uint i + s * 2 ^ 48 + w * 2 ^ 32"
proof -
  have i: "0 \<le> uint i" "uint i < 2 ^ 32" using uint_lt2p [of i] by simp_all
  have "pack_id i s w = of_int (uint i + s * 2 ^ 48 + w * 2 ^ 32)"
    unfolding pack_id_def of_int_mask16(1) [OF assms(1,2)] of_int_mask16(1) [OF assms(3,4)] push_bit_eq_mult by simp
  then have "uint (pack_id i s w) = uint (of_int (uint i + s * 2 ^ 48 + w * 2 ^ 32) :: 64 word)" by (rule arg_cong)
  moreover have "0 \<le> uint i + s * 2 ^ 48 + w * 2 ^ 32" "uint i + s * 2 ^ 48 + w * 2 ^ 32 < 2 ^ 64" using assms i by simp_all
  ultimately show ?thesis by (simp only: uint_word_of_int) simp
qed

lemma pack_id_parts:
  assumes "0 \<le> s" "s < 2 ^ 16" "0 \<le> w" "w < 2 ^ 16"
  shows "id_of (pack_id i s w) = i" "sends_of (pack_id i s w) = s" "writes_of (pack_id i s w) = w"
proof -
  let ?x = "pack_id i s w"
  note u = uint_pack_id [OF assms, of i]
  have i: "0 \<le> uint i" "uint i < 2 ^ 32" using uint_lt2p [of i] by simp_all
  have m: "(0xFFFFFFFF :: 64 word) = mask 32" "(0xFFFF :: 64 word) = mask 16" by (simp_all add: mask_eq_exp_minus_1)
  have "uint (id_of ?x) = take_bit 32 (uint ?x)"
    unfolding id_of_def m take_bit_eq_mask [symmetric] unsigned_ucast_eq unsigned_take_bit_eq by simp
  also have "\<dots> = (uint i + (s * 2 ^ 16 + w) * 2 ^ 32) mod 2 ^ 32" unfolding u take_bit_eq_mod by (simp add: algebra_simps)
  also have "\<dots> = uint i" using i by (simp only: mod_mult_self1) simp
  finally show "id_of ?x = i" by (simp add: word_uint_eq_iff)
  have t: "take_bit 64 (uint ?x) = uint ?x" using uint_lt2p [of ?x] by (simp add: take_bit_eq_mod)
  have "sends_of ?x = take_bit 16 (drop_bit 48 (uint ?x))"
    unfolding sends_of_def unsigned_ucast_eq unsigned_drop_bit_eq by (simp add: t)
  also have "\<dots> = (uint i + w * 2 ^ 32 + s * 2 ^ 48) div 2 ^ 48 mod 2 ^ 16"
    unfolding u take_bit_eq_mod drop_bit_eq_div by (simp add: algebra_simps)
  also have "\<dots> = s" using assms i div_pos_pos_trivial [of "uint i + w * 2 ^ 32" "2 ^ 48"] div_mult_self1 [of "2 ^ 48" "uint i + w * 2 ^ 32" s]
    by simp
  finally show "sends_of ?x = s" .
  have "writes_of ?x = take_bit 16 (drop_bit 32 (uint ?x))"
    unfolding writes_of_def m take_bit_eq_mask [symmetric] unsigned_ucast_eq unsigned_take_bit_eq unsigned_drop_bit_eq by (simp add: t)
  also have "\<dots> = (uint i + (w + s * 2 ^ 16) * 2 ^ 32) div 2 ^ 32 mod 2 ^ 16"
    unfolding u take_bit_eq_mod drop_bit_eq_div by (simp add: algebra_simps)
  also have "\<dots> = w" using assms i div_pos_pos_trivial [of "uint i" "2 ^ 32"] div_mult_self1 [of "2 ^ 32" "uint i" "w + s * 2 ^ 16"] by simp
  finally show "writes_of ?x = w" .
qed

subsection \<open>A completion\<close>

lemma ring_ok_completed:
  assumes ring: "ring_ok c (done @ rest)" and s: "sends done = s" "sends (done @ rest) \<le> max_pending_msg c"
    and d: "max_pending_msg d = max_pending_msg c" "send_buf d = send_buf c" "slot_head d = slot_head c"
      "slot_tail d = (if slot_tail c + s \<ge> max_pending_msg c then slot_tail c + s - max_pending_msg c else slot_tail c + s)"
      "slots_full d = (if slots_full c \<and> s \<noteq> 0 then False else slots_full c)"
  shows "ring_ok d rest"
proof -
  let ?n = "max_pending_msg c" and ?t = "slot_tail c"
  have t: "0 \<le> ?t" "?t < ?n" and full: "slots_full c \<longleftrightarrow> sends (done @ rest) = ?n"
    and h: "slot_head c = (?t + sends (done @ rest)) mod ?n"
    and m: "map sge_addr (filter is_send (done @ rest)) = map (\<lambda>k. slot_ptr c ((?t + int k) mod ?n)) [0 ..< nat (sends (done @ rest))]"
    using ring by (simp_all add: ring_ok_def)
  note b = sends_bounds(1) [of "done"] sends_bounds(1) [of rest]
  have s': "0 \<le> s" "s \<le> ?n" using s b by simp_all
  have td: "slot_tail d = (?t + s) mod ?n"
    using t s' mod_pos_pos_trivial [of "?t + s - ?n" ?n] mod_pos_pos_trivial [of "?t + s" ?n] unfolding d(4) by auto
  have tl: "(slot_tail d + j) mod ?n = (?t + (s + j)) mod ?n" for j
    unfolding td by (simp add: mod_add_left_eq add.assoc)
  have p: "slot_ptr d = slot_ptr c" using d(2) by (simp add: slot_ptr_def fun_eq_iff)
  have k: "length (filter is_send done) = nat s" using s(1) by (simp add: sends_def)
  have "map sge_addr (filter is_send rest) = drop (nat s) (map sge_addr (filter is_send (done @ rest)))" by (simp add: k)
  also have "\<dots> = map (\<lambda>k. slot_ptr c ((?t + int k) mod ?n)) [nat s ..< nat (s + sends rest)]"
    unfolding m using s(1) by (simp add: drop_map)
  also have "\<dots> = map (\<lambda>k. slot_ptr d ((slot_tail d + int k) mod ?n)) [0 ..< nat (sends rest)]"
    using s' b by (intro nth_equalityI) (simp_all add: p tl nat_add_distrib)
  finally have "map sge_addr (filter is_send rest) = map (\<lambda>k. slot_ptr d ((slot_tail d + int k) mod ?n)) [0 ..< nat (sends rest)]" .
  moreover have "slots_full d \<longleftrightarrow> sends rest = ?n" using full s d(5) b by auto
  moreover have "slot_head d = (slot_tail d + sends rest) mod ?n" using h d(3) s(1) tl by simp
  moreover have "0 \<le> slot_tail d" "slot_tail d < ?n" using t unfolding td by simp_all
  ultimately show ?thesis using ring d(1) by (auto simp: ring_ok_def)
qed

text \<open>The first completion to come reports exactly the work requests up to it.\<close>

lemma completion_counts:
  assumes "cfg_ok c" "counts_ok c (pre @ x # rest)" "\<forall>y \<in> set pre. \<not> sw_signaled y" "sw_signaled x"
  shows "sends_of (sw_wr_id x) = sends (pre @ [x])" "writes_of (sw_wr_id x) = int (length (pre @ [x])) - sends (pre @ [x])"
    "ids_ok 0 0 rest"
proof -
  have "ids_ok 0 0 (pre @ x # rest)" using assms(2) by (simp add: counts_ok_def)
  then have "ids_ok (sends pre) (int (length pre) - sends pre) (x # rest)"
    using ids_ok_unsignaled [OF assms(3), of 0 0 "x # rest"] by simp
  then obtain i where i: "sw_wr_id x = pack_id i (sends (pre @ [x])) (int (length (pre @ [x])) - sends (pre @ [x]))" and r: "ids_ok 0 0 rest"
    using assms(4) by (cases "is_send x") (auto simp: Let_def algebra_simps)
  have "int (length (pre @ [x])) < 2 ^ 16" using assms(1,2) by (simp add: cfg_ok_def counts_ok_def)
  then show "sends_of (sw_wr_id x) = sends (pre @ [x])" "writes_of (sw_wr_id x) = int (length (pre @ [x])) - sends (pre @ [x])"
    using sends_bounds [of "pre @ [x]"] unfolding i by (simp_all add: pack_id_parts del: sends_simps)
  show "ids_ok 0 0 rest" by (rule r)
qed

lemma SendComp_inv:
  assumes inv: "rdma_inv c calls" and q: "rc_sq c = pre @ x # rest" "\<forall>y \<in> set pre. \<not> sw_signaled y" "sw_signaled x"
  shows "\<exists>d. SendComp (sw_wr_id x) (c \<lparr> rc_sq := rest \<rparr>) = Some (id_of (sw_wr_id x), d) \<and> rdma_inv d calls"
proof -
  obtain hist where b: "built_ok c [] hist" and calls: "calls = hist @ map (msg_of (rc_mem c)) (pending_requests c)"
    and qo: "queue_ok c (pending_requests c)" and w: "pending_requests c \<noteq> [] \<longrightarrow> pending_msg c = max_pending_msg c"
    using inv by (auto simp: rdma_inv_def)
  let ?done = "pre @ [x]" and ?n = "max_pending_msg c"
  have cfg: "cfg_ok c" and cnt: "counts_ok c (pre @ x # rest)" and ring: "ring_ok c (?done @ rest)" and dat: "slots_data_ok c" and car: "carried c [] hist"
    using b q(1) by (simp_all add: built_ok_def)
  note cc = completion_counts [OF cfg cnt q(2,3)]
  note se = settled_after [OF q(3), of pre rest]
  define s where "s = sends ?done" define wr where "wr = int (length ?done) - sends ?done"
  let ?t = "slot_tail c + s"
  define d where "d = c \<lparr> rc_sq := rest, slot_tail := (if ?t \<ge> ?n then ?t - ?n else ?t),
    to_signaled_send_msg := to_signaled_send_msg c - s, to_signaled_w_r_msg := to_signaled_w_r_msg c - wr,
    pending_msg := pending_msg c - (s + wr), pending_send_msg := pending_send_msg c - s,
    slots_full := (if slots_full c \<and> s \<noteq> 0 then False else slots_full c) \<rparr>"
  have sw: "s + wr = int (Suc (length pre))" by (simp add: s_def wr_def)
  have ns: "nat (s + wr) = Suc (length pre)" by (simp add: sw)
  have cs: "sends_of (sw_wr_id x) = s" "writes_of (sw_wr_id x) = wr" using cc by (simp_all add: s_def wr_def)
  have e: "SendComp (sw_wr_id x) (c \<lparr> rc_sq := rest \<rparr>) =
      (do { c \<leftarrow> ProcessPendingRequests (Suc (length pre)) d; Some (id_of (sw_wr_id x), c) })"
    by (simp add: SendComp_def Let_def cs ns d_def split del: if_split cong: if_cong)
  have "sends (?done @ rest) \<le> ?n" using sends_bounds(2) [of "?done @ rest"] cnt by (simp add: counts_ok_def del: sends_simps)
  then have "ring_ok d rest" by (intro ring_ok_completed [OF ring s_def [symmetric]]) (simp_all add: d_def)
  moreover have "counts_ok d rest"
    using cnt se cc(3) by (simp add: counts_ok_def d_def s_def wr_def)
  moreover have "cfg_ok d" "slots_data_ok d" "carried d [] hist" using cfg dat car q(1) by (simp_all add: cfg_ok_def slots_data_ok_def carried_def d_def)
  ultimately have "built_ok d [] hist" by (simp add: built_ok_def d_def)
  moreover have "queue_ok d (pending_requests d)" using qo by (simp add: d_def queue_ok_def off_buf_def)
  moreover have "pending_msg d + int (Suc (length pre)) = pending_msg c" using sw by (simp add: d_def)
  moreover have "max_pending_msg d = ?n" "pending_requests d = pending_requests c" "rc_mem d = rc_mem c" by (simp_all add: d_def)
  moreover have "pending_msg c \<le> ?n" using cnt by (simp add: counts_ok_def)
  ultimately show ?thesis
    using ProcessPendingRequests_inv [of d hist "Suc (length pre)"] w unfolding e calls by auto
qed

subsection \<open>A connection over time\<close>

text \<open>
  The calls of the node, the completions of the device in the order of its queue, and whatever else
  the node does to memory outside the send buffer and the buffers that wait. The second
  argument is what has been handed over so far.
\<close>

inductive rdma_reach :: "RdmaContext \<Rightarrow> wmsg list \<Rightarrow> RdmaContext \<Rightarrow> bool" for c0 :: RdmaContext where
  start: "rdma_reach c0 [] c0"
| message: "rdma_reach c0 calls c \<Longrightarrow> length bs < MAX_REQUEST_SIZE \<Longrightarrow> fresh_buf c z (length bs + 1) \<Longrightarrow>
    send_message z bs c = Some (ret, d) \<Longrightarrow> rdma_reach c0 (calls @ [WSend bs]) d"
| rdma: "rdma_reach c0 calls c \<Longrightarrow> rr_op r \<in> {IBV_WR_RDMA_WRITE, IBV_WR_RDMA_WRITE_WITH_IMM, IBV_WR_RDMA_READ} \<Longrightarrow>
    Rdma r c = Some (ret, d) \<Longrightarrow> rdma_reach c0 (calls @ [msg_of (rc_mem c) r]) d"
| completion: "rdma_reach c0 calls c \<Longrightarrow> rc_sq c = pre @ x # rest \<Longrightarrow> \<forall>y \<in> set pre. \<not> sw_signaled y \<Longrightarrow> sw_signaled x \<Longrightarrow>
    SendComp (sw_wr_id x) (c \<lparr> rc_sq := rest \<rparr>) = Some (i, d) \<Longrightarrow> rdma_reach c0 calls d"
| memory: "rdma_reach c0 calls c \<Longrightarrow> \<forall>a. in_range (send_buf c) (send_buf_len c) a \<longrightarrow> m a = rc_mem c a \<Longrightarrow>
    \<forall>r \<in> set (pending_requests c). rr_op r = IBV_WR_SEND \<longrightarrow> bytes_at (rr_src r) (rr_len r) m = bytes_at (rr_src r) (rr_len r) (rc_mem c) \<Longrightarrow>
    rdma_reach c0 calls (c \<lparr> rc_mem := m \<rparr>)"

lemma memory_inv:
  assumes inv: "rdma_inv c calls" and m: "\<forall>a. in_range (send_buf c) (send_buf_len c) a \<longrightarrow> m a = rc_mem c a"
    and q: "\<forall>r \<in> set (pending_requests c). rr_op r = IBV_WR_SEND \<longrightarrow> bytes_at (rr_src r) (rr_len r) m = bytes_at (rr_src r) (rr_len r) (rc_mem c)"
  shows "rdma_inv (c \<lparr> rc_mem := m \<rparr>) calls"
proof -
  obtain hist where b: "built_ok c [] hist" and calls: "calls = hist @ map (msg_of (rc_mem c)) (pending_requests c)"
    and qo: "queue_ok c (pending_requests c)" and w: "pending_requests c \<noteq> [] \<longrightarrow> pending_msg c = max_pending_msg c"
    using inv by (auto simp: rdma_inv_def)
  have "sge_data m x = sge_data (rc_mem c) x" if "x \<in> set (rc_sq c)" "is_send x" for x
    using ring_data_in_buf [of c "rc_sq c" x] b m that by (intro bytes_at_cong) (simp add: built_ok_def)
  then have "built_ok (c \<lparr> rc_mem := m \<rparr>) [] hist" using b
    by (auto simp: built_ok_def cfg_ok_def counts_ok_def ring_ok_def slots_data_ok_def carried_def slot_ptr_def)
  moreover have "map (msg_of m) (pending_requests c) = map (msg_of (rc_mem c)) (pending_requests c)"
    using q by (simp add: msg_of_def)
  moreover have "queue_ok (c \<lparr> rc_mem := m \<rparr>) (pending_requests c)" using qo by (simp add: queue_ok_def off_buf_def)
  ultimately show ?thesis using w unfolding rdma_inv_def calls by auto
qed

lemma rdma_reach_inv:
  assumes "rdma_inv c0 []" "rdma_reach c0 calls c"
  shows "rdma_inv c calls"
  using assms(2)
proof induction
  case (message calls c bs z ret d)
  then show ?case using send_direct [of c calls bs z] send_busy [of c calls z bs] by fastforce
next
  case (rdma calls c r ret d)
  then show ?case using Rdma_inv [of c calls r] by fastforce
next
  case (completion calls c pre x rest i d)
  then show ?case using SendComp_inv [of c calls pre x rest] by fastforce
next
  case (memory calls c m)
  then show ?case by (intro memory_inv) simp_all
qed (rule assms(1))

text \<open>
  A connection that has not been used yet, with any limits that fit the counts of a completion. The
  last conjunct of \<^const>\<open>cfg_ok\<close> is what the device promises: it takes work requests up to the
  \<open>max_send_wr\<close> of its queue pair.
\<close>

definition initial_ctx :: "RdmaContext \<Rightarrow> bool" where
  "initial_ctx c \<longleftrightarrow> cfg_ok c \<and> slot_head c = 0 \<and> slot_tail c = 0 \<and> \<not> slots_full c \<and> pending_msg c = 0 \<and> pending_send_msg c = 0 \<and>
     to_signaled_send_msg c = 0 \<and> to_signaled_w_r_msg c = 0 \<and> pending_requests c = [] \<and> rc_sq c = [] \<and> rc_log c = []"

lemma new_RdmaContext_initial:
  assumes "unat buf + 1024 * 1024 \<le> 2 ^ 64" "\<forall>q ws. length q + length ws \<le> 1024 \<longrightarrow> length ws \<le> dev q ws"
  shows "initial_ctx (new_RdmaContext master buf m lk blk rk inl dev)"
  using assms unfolding new_RdmaContext_def initial_ctx_def cfg_ok_def
  by (auto simp: Let_def HW_MAX_PENDING_def MAX_MASTER_PENDING_MSG_def MAX_WORKER_PENDING_MSG_def MAX_UNSIGNALED_MSG_def
      MASTER_BUFFER_SIZE_def WORKER_BUFFER_SIZE_def MAX_REQUEST_SIZE_def)

lemma initial_inv: "initial_ctx c \<Longrightarrow> rdma_inv c []"
  by (auto simp: initial_ctx_def rdma_inv_def built_ok_def cfg_ok_def counts_ok_def ring_ok_def slots_data_ok_def carried_def queue_ok_def)

lemmas reachable_inv = rdma_reach_inv [OF initial_inv]




lemma ring_distinct:
  assumes "cfg_ok c" "ring_ok c q" "sends q \<le> max_pending_msg c"
  shows "distinct (map sge_addr (filter is_send q))"
proof -
  let ?n = "max_pending_msg c" and ?f = "\<lambda>k. (slot_tail c + int k) mod max_pending_msg c"
  have n: "0 < ?n" using assms(2) by (simp add: ring_ok_def)
  have i: "?f j = ?f k \<Longrightarrow> j = k" if "j < nat (sends q)" "k < nat (sends q)" for j k
  proof -
    assume "?f j = ?f k"
    then have "?n dvd int j - int k" by (simp add: mod_eq_dvd_iff)
    then show "j = k" using that assms(3) zdvd_imp_le [of ?n "int j - int k"] zdvd_imp_le [of ?n "int k - int j"]
      by (cases j k rule: linorder_cases) (auto simp: dvd_diff_commute)
  qed
  have p: "slot_ptr c j = slot_ptr c k \<Longrightarrow> j = k" if "0 \<le> j" "j < ?n" "0 \<le> k" "k < ?n" for j k
  proof -
    assume e: "slot_ptr c j = slot_ptr c k"
    have "in_range (slot_ptr c j) MAX_REQUEST_SIZE (slot_ptr c j)" by (simp add: in_range_def MAX_REQUEST_SIZE_def)
    then show "j = k" using slot_index(2) [OF assms(1) that(1,2)] slot_index(2) [OF assms(1) that(3,4)] e that(1,3) by fastforce
  qed
  have "inj_on (\<lambda>k. slot_ptr c (?f k)) {0 ..< nat (sends q)}"
    using i p n by (intro inj_onI) (metis atLeastLessThan_iff pos_mod_bound pos_mod_sign)
  then have "distinct (map (\<lambda>k. slot_ptr c (?f k)) [0 ..< nat (sends q)])" by (simp add: distinct_map)
  then show ?thesis using assms(2) by (simp add: ring_ok_def)
qed

subsection \<open>Properties of a connection\<close>

text \<open>
  Small examples: a connection with one slot, two writes handed over one after the other, and a
  message.
\<close>

definition demo_ctx :: RdmaContext where
  "demo_ctx = (new_RdmaContext False 0x10000 (\<lambda>_. 0) 1 2 3 256 (\<lambda>q ws. length ws))
     \<lparr> send_buf_len := 1024, max_pending_msg := 1, max_unsignaled_msg := 1 \<rparr>"

definition demo_write :: RdmaRequest where
  "demo_write = rdma_request IBV_WR_RDMA_WRITE 0x5000 8 7 False 0x9000 0"

definition demo_posted :: RdmaContext where "demo_posted = snd (the (Rdma demo_write demo_ctx))"

definition demo_waiting :: RdmaContext where "demo_waiting = snd (the (Rdma demo_write demo_posted))"

definition demo_sent :: RdmaContext where "demo_sent = snd (the (send_message 0x50000 [1, 2] demo_ctx))"

lemmas demo_ctx_defs = demo_ctx_def demo_write_def demo_posted_def demo_waiting_def demo_sent_def new_RdmaContext_def rdma_request_def
  Rdma_def post_send_def mark_signaled_def to_signal_def unsignaled_sends_def unsignaled_writes_def uint16_def count_msg_def
  count_send_def set_inline_def send_wr_of_def send_message_def ctx_Send_def GetFreeSlot_def RMINUS_def IsRegistered_def slot_ptr_def

lemma demo_ctx_initial: "initial_ctx demo_ctx"
  by (simp add: initial_ctx_def cfg_ok_def demo_ctx_def new_RdmaContext_def Let_def MAX_REQUEST_SIZE_def)

lemma demo_posted_state:
  "Rdma demo_write demo_ctx = Some (8, demo_posted)" "pending_msg demo_posted = 1" "max_pending_msg demo_posted = 1"
  "pending_requests demo_posted = []"
  by (simp_all add: demo_ctx_defs Let_def)

lemma demo_waiting_state:
  "Rdma demo_write demo_posted = Some (-1, demo_waiting)" "pending_requests demo_waiting = [demo_write]"
  using demo_posted_state by (simp_all add: demo_waiting_def Rdma_def)

lemma demo_waiting_reached:
  "rdma_reach demo_ctx (([] @ [msg_of (rc_mem demo_ctx) demo_write]) @ [msg_of (rc_mem demo_posted) demo_write]) demo_waiting"
proof -
  have w: "rr_op demo_write = IBV_WR_RDMA_WRITE" by (simp add: demo_write_def rdma_request_def)
  have "rdma_reach demo_ctx ([] @ [msg_of (rc_mem demo_ctx) demo_write]) demo_posted"
    by (rule rdma_reach.rdma [OF rdma_reach.start _ demo_posted_state(1)]) (simp add: w)
  then show ?thesis by (rule rdma_reach.rdma [OF _ _ demo_waiting_state(1)]) (simp add: w)
qed

lemma demo_sent_reached: "rdma_reach demo_ctx ([] @ [WSend [1, 2]]) demo_sent"
proof -
  have "pending_msg demo_ctx < max_pending_msg demo_ctx" by (simp add: demo_ctx_def new_RdmaContext_def Let_def)
  then obtain d where "send_message 0x50000 [1, 2] demo_ctx = Some (2, d)"
    using send_direct [OF initial_inv [OF demo_ctx_initial], of "[1, 2]" "0x50000"] by (auto simp: MAX_REQUEST_SIZE_def)
  then have "send_message 0x50000 [1, 2] demo_ctx = Some (2, demo_sent)" by (simp add: demo_sent_def)
  moreover have "\<not> in_range 0x10000 1024 (0x50000 + of_nat k)" if "k < 3" for k
    using that by (auto simp: in_range_def less_Suc_eq numeral_3_eq_3)
  then have "fresh_buf demo_ctx 0x50000 (length [1, 2 :: byte] + 1)"
    by (simp add: fresh_buf_def off_buf_def demo_ctx_def new_RdmaContext_def Let_def)
  ultimately show ?thesis by (intro rdma_reach.message [OF rdma_reach.start]) (simp_all add: MAX_REQUEST_SIZE_def)
qed

text \<open>
  C27: Whatever the interleaving of calls and completions, the work requests posted so far, followed by the
  requests that wait for the device, are exactly what has been handed over, in that order: nothing is lost,
  sent twice or overtaken. A posted work request carries one request, or several messages with a zero byte
  between them.
\<close>

theorem rdma_messages_leave_in_order:
  assumes "initial_ctx c0" "rdma_reach c0 calls c"
  shows "\<exists>gs. list_all2 (\<lambda>x. carries (sw_data x) x) (rc_log c) gs \<and>
    calls = concat gs @ map (msg_of (rc_mem c)) (pending_requests c)"
  using reachable_inv [OF assms] by (auto simp: rdma_inv_def built_ok_def carried_def)

theorem rdma_messages_leave_in_order_witness:
  "\<exists>gs. list_all2 (\<lambda>x. carries (sw_data x) x) (rc_log demo_waiting) gs \<and>
    [msg_of (rc_mem demo_ctx) demo_write, msg_of (rc_mem demo_posted) demo_write] =
      concat gs @ map (msg_of (rc_mem demo_waiting)) [demo_write]"
  using rdma_messages_leave_in_order [OF demo_ctx_initial demo_waiting_reached] by (simp add: demo_waiting_state)

text \<open>
  C28: While a message is outstanding at the device, its slot holds the bytes that were posted: no call and no
  merging writes to it. Outstanding messages occupy different slots of the send buffer, each
  within its slot, so the device sends what was handed over whenever it reads the slot.
\<close>

theorem rdma_slots_in_flight_untouched:
  assumes "initial_ctx c0" "rdma_reach c0 calls c"
  shows "(\<forall>x \<in> set (rc_sq c). sw_opcode x = IBV_WR_SEND \<longrightarrow>
      bytes_at (sge_addr x) (sge_length x) (rc_mem c) = sw_data x \<and> sge_length x \<le> MAX_REQUEST_SIZE \<and>
      (\<forall>i < sge_length x. in_range (send_buf c) (send_buf_len c) (sge_addr x + of_nat i))) \<and>
    distinct (map sge_addr (filter is_send (rc_sq c)))"
proof (intro conjI)
  have cfg: "cfg_ok c" and ring: "ring_ok c (rc_sq c)" and dat: "slots_data_ok c" and cnt: "counts_ok c (rc_sq c)"
    using reachable_inv [OF assms] by (auto simp: rdma_inv_def built_ok_def)
  show "\<forall>x \<in> set (rc_sq c). sw_opcode x = IBV_WR_SEND \<longrightarrow>
      bytes_at (sge_addr x) (sge_length x) (rc_mem c) = sw_data x \<and> sge_length x \<le> MAX_REQUEST_SIZE \<and>
      (\<forall>i < sge_length x. in_range (send_buf c) (send_buf_len c) (sge_addr x + of_nat i))"
    using dat ring ring_data_in_buf [OF cfg ring] by (auto simp: slots_data_ok_def ring_ok_def is_send_def)
  show "distinct (map sge_addr (filter is_send (rc_sq c)))"
    using ring_distinct [OF cfg ring] cnt sends_bounds(2) [of "rc_sq c"] by (simp add: counts_ok_def)
qed

theorem rdma_slots_in_flight_untouched_witness:
  "filter (\<lambda>x. sw_opcode x = IBV_WR_SEND \<and>
      bytes_at (sge_addr x) (sge_length x) (rc_mem demo_sent) \<noteq> sw_data x) (rc_sq demo_sent) = [] \<and>
    distinct (map sge_addr (filter is_send (rc_sq demo_sent)))"
  using rdma_slots_in_flight_untouched [OF demo_ctx_initial demo_sent_reached] by (simp add: filter_empty_conv)





end
