(* ===== verification/Delivery.thy ===== *)
theory Delivery
  imports Dispatch Rdma_Order
begin

text \<open>
  The two ends of the merging of messages: what \<open>ProcessPendingRequests\<close> of \<open>src/rdma.cc\<close> puts into one
  slot with zero bytes in between is taken apart again by the loop of \<open>ProcessRdmaRequest\<close> in
  \<open>src/server.cc\<close>, message by message.
\<close>

text \<open>A request on the wire with its payload.\<close>

definition wire_ok :: "WorkRequest \<times> byte list \<Rightarrow> bool" where
  "wire_ok m \<longleftrightarrow> wire_fields (wr_op (fst m)) \<noteq> None \<and> data_ok (fst m) (snd m) \<and>
     - (2 ^ 31) \<le> wr_counter (fst m) \<and> wr_counter (fst m) < 2 ^ 31"

definition ser :: "WorkRequest \<times> byte list \<Rightarrow> byte list" where
  "ser m = Ser (fst m) (snd m)"

lemma takeWhile_data_end: "0 \<notin> set data \<Longrightarrow> takeWhile (\<lambda>b. b \<noteq> 0) data = data"
  by (induction data) auto

lemma deser_end:
  assumes "wire_ok (wr, data)"
  shows "Deser buf (Ser wr data @ 0 # rest) wr0 = Deser buf (Ser wr data) wr0"
proof -
  have "sint (word_of_int (wr_counter wr) :: 32 word) = wr_counter wr"
    using assms by (intro sint_word_of_int_32) (simp_all add: wire_ok_def)
  moreover have "work_of_code (work_code (wr_op wr)) = wr_op wr" "wire_fields (wr_op wr) \<noteq> None" "data_ok wr data"
    using assms by (simp_all add: wire_ok_def)
  ultimately show ?thesis
    by (cases "wr_op wr") (simp_all add: Deser_def Ser_def reader_defs Let_def data_ok_def payload_at_def takeWhile_data_end)
qed

lemma deser_alone:
  assumes "wire_ok (wr, data)"
  shows "\<exists>wr'. Deser buf (Ser wr data) wr0 = Some (wr', length (Ser wr data))"
proof -
  obtain fs where "wire_fields (wr_op wr) = Some fs" using assms by (auto simp: wire_ok_def)
  then show ?thesis
    using deser_ser [of wr fs data buf "[]" wr0] assms unfolding deser_end [OF assms] by (auto simp: wire_ok_def)
qed

lemma ser_not_Nil: "wire_ok (wr, data) \<Longrightarrow> 0 < length (Ser wr data)"
  by (cases "wr_op wr") (auto simp: wire_ok_def Ser_def Let_def)

text \<open>The messages of a buffer, each received alone at the address where it lies.\<close>

fun one_by_one :: "rstep \<Rightarrow> 32 word \<Rightarrow> ptr \<Rightarrow> byte list list \<Rightarrow> Worker \<Rightarrow> Worker option" where
  "one_by_one PR c buf [] w = Some w"
| "one_by_one PR c buf (m # ms) w = do {
     w \<leftarrow> recv_loop (length m) PR c buf m w;
     one_by_one PR c (buf + of_nat (Suc (length m))) ms w }"

lemma recv_loop_Nil [simp]: "recv_loop k PR c buf [] = Some" "one_by_one PR c buf [] = Some"
  by (rule ext, cases k, simp_all)+

lemma recv_loop_single:
  assumes "wire_ok m" "0 < k"
  shows "recv_loop k PR c buf (ser m) w = do {
    (wr, len) \<leftarrow> Deser buf (ser m) new_WorkRequest;
    let (r, w) = wr_new wr w;
    PR c r w }"
proof -
  obtain wr data where m: "m = (wr, data)" by fastforce
  obtain wr' where d: "Deser buf (ser m) new_WorkRequest = Some (wr', length (ser m))"
    using deser_alone assms(1) unfolding m ser_def by fastforce
  obtain j where "k = Suc j" using assms(2) by (cases k) simp_all
  moreover have "ser m \<noteq> []" using ser_not_Nil assms(1) unfolding m ser_def by fastforce
  ultimately show ?thesis using d by (simp add: Let_def case_prod_beta)
qed

lemma recv_loop_merged:
  assumes "\<forall>m \<in> set ms. wire_ok m" "length (join0 (map ser ms)) \<le> k"
  shows "recv_loop k PR c buf (join0 (map ser ms)) w = one_by_one PR c buf (map ser ms) w"
  using assms
proof (induction ms arbitrary: k buf w)
  case (Cons m ms)
  obtain wr data where m: "m = (wr, data)" by fastforce
  have ok: "wire_ok (wr, data)" using Cons.prems(1) m by simp
  have n: "0 < length (ser m)" using ser_not_Nil [OF ok] by (simp add: m ser_def)
  obtain wr' where d: "Deser buf (ser m) new_WorkRequest = Some (wr', length (ser m))"
    using deser_alone [OF ok] by (fastforce simp: m ser_def)
  show ?case
  proof (cases ms)
    case Nil
    then have "length (ser m) \<le> k" using Cons.prems(2) by simp
    then have "0 < k" by (rule less_le_trans [OF n])
    then show ?thesis using recv_loop_single [of m k] recv_loop_single [of m "length (ser m)"] ok n Nil by (simp add: m)
  next
    case (Cons m' ms')
    then have j: "join0 (map ser (m # ms)) = ser m @ 0 # join0 (map ser ms)" by simp
    have "length (ser m @ 0 # join0 (map ser ms)) \<le> k" using Cons.prems(2) unfolding j .
    then obtain i where k: "k = Suc i" "length (join0 (map ser ms)) \<le> i" using n by (cases k) auto
    have "Deser buf (join0 (map ser (m # ms))) new_WorkRequest = Some (wr', length (ser m))"
      unfolding j using deser_end [OF ok, of buf] d by (simp add: m ser_def)
    then have "recv_loop k PR c buf (join0 (map ser (m # ms))) w =
        (let (r, w) = wr_new wr' w in do { w \<leftarrow> PR c r w; recv_loop i PR c (buf + of_nat (Suc (length (ser m)))) (join0 (map ser ms)) w })"
      unfolding k(1) j by (simp add: Let_def case_prod_beta)
    also have "\<dots> = one_by_one PR c buf (map ser (m # ms)) w"
      using recv_loop_single [of m "length (ser m)" PR c buf w] ok n d Cons.IH [OF _ k(2)] Cons.prems(1)
      by (simp add: m Let_def case_prod_beta)
    finally show ?thesis .
  qed
qed simp

lemma carried_messages:
  assumes "rdma_inv c calls" "x \<in> set (rc_log c)" "is_send x"
  shows "\<exists>bss. bss \<noteq> [] \<and> sw_data x = join0 bss \<and> (\<forall>b \<in> set bss. WSend b \<in> set calls)"
proof -
  obtain gs rest where gs: "list_all2 (\<lambda>x. carries (sw_data x) x) (rc_log c) gs" "calls = concat gs @ rest"
    using assms(1) by (auto simp: rdma_inv_def built_ok_def carried_def)
  obtain i where i: "i < length (rc_log c)" "x = rc_log c ! i" using assms(2) by (auto simp: in_set_conv_nth)
  then have g: "carries (sw_data x) x (gs ! i)" "gs ! i \<in> set gs" using gs(1) by (auto simp: list_all2_conv_all_nth)
  then obtain bss where b: "bss \<noteq> []" "gs ! i = map WSend bss" "sw_data x = join0 bss" using assms(3) by (auto simp: carries_def)
  have "set (gs ! i) \<subseteq> set calls" using g(2) gs(2) by auto
  with b show ?thesis by (intro exI [of _ bss]) auto
qed

text \<open>
  C31: Merging is invisible to the receiver. If every message handed over to a connection is a serialised
  request, then a posted work request holds one or more whole requests, and receiving its bytes runs
  the handler on each of them in turn, exactly as if each had arrived in a buffer of its own.
\<close>

theorem merged_messages_arrive_one_by_one:
  assumes "initial_ctx c0" "rdma_reach c0 calls c" "\<forall>b. WSend b \<in> set calls \<longrightarrow> (\<exists>m. wire_ok m \<and> b = ser m)"
    and "x \<in> set (rc_log c)" "sw_opcode x = IBV_WR_SEND"
  shows "\<exists>ms. ms \<noteq> [] \<and> (\<forall>m \<in> set ms. wire_ok m \<and> WSend (ser m) \<in> set calls) \<and> sw_data x = join0 (map ser ms) \<and>
    (\<forall>PR cli buf w. recv_loop (length (sw_data x)) PR cli buf (sw_data x) w = one_by_one PR cli buf (map ser ms) w)"
proof -
  obtain bss where b: "bss \<noteq> []" "sw_data x = join0 bss" "\<forall>b \<in> set bss. WSend b \<in> set calls"
    using carried_messages [OF reachable_inv [OF assms(1,2)] assms(4)] assms(5) by (auto simp: is_send_def)
  then have "\<forall>b \<in> set bss. \<exists>m. wire_ok m \<and> b = ser m" using assms(3) by blast
  from bchoice [OF this] obtain f where f: "\<forall>b \<in> set bss. wire_ok (f b) \<and> b = ser (f b)" by blast
  then have "map (ser \<circ> f) bss = bss" by (intro map_idI) simp
  then have m: "map ser (map f bss) = bss" by simp
  have "recv_loop (length (sw_data x)) PR cli buf (sw_data x) w = one_by_one PR cli buf (map ser (map f bss)) w" for PR cli buf w
    using recv_loop_merged [of "map f bss" "length (sw_data x)"] f unfolding m b(2) by simp
  moreover have "\<forall>m \<in> set (map f bss). wire_ok m \<and> WSend (ser m) \<in> set calls" using f b(3) by simp
  moreover have "sw_data x = join0 (map ser (map f bss))" unfolding m by (rule b(2))
  ultimately show ?thesis using b(1) by (intro exI [of _ "map f bss"]) (simp del: map_map)
qed

lemma demo_reply_ok: "wire_ok (sample_write_reply, [])"
  by (simp add: wire_ok_def sample_write_reply_def new_WorkRequest_def data_ok_def)

definition demo_reply_sent :: RdmaContext where
  "demo_reply_sent = snd (the (send_message 0x50000 (ser (sample_write_reply, [])) demo_ctx))"

lemma demo_reply_state:
  "send_message 0x50000 (ser (sample_write_reply, [])) demo_ctx = Some (20, demo_reply_sent)"
  "rdma_inv demo_reply_sent [WSend (ser (sample_write_reply, []))]" "pending_requests demo_reply_sent = []"
  "length (ser (sample_write_reply, [])) = 20"
proof -
  let ?b = "ser (sample_write_reply, [])"
  show n: "length ?b = 20" by (simp add: ser_def Ser_def sample_write_reply_def Let_def)
  have "pending_msg demo_ctx < max_pending_msg demo_ctx" by (simp add: demo_ctx_def new_RdmaContext_def Let_def)
  then obtain d where d: "send_message 0x50000 ?b demo_ctx = Some (20, d)" "rdma_inv d ([] @ [WSend ?b])" "pending_requests d = []"
    using send_direct [OF initial_inv [OF demo_ctx_initial], of ?b "0x50000"] n by (auto simp: MAX_REQUEST_SIZE_def)
  then have "demo_reply_sent = d" by (simp add: demo_reply_sent_def)
  with d show "send_message 0x50000 ?b demo_ctx = Some (20, demo_reply_sent)" "rdma_inv demo_reply_sent [WSend ?b]"
    "pending_requests demo_reply_sent = []" by simp_all
qed

lemma demo_reply_reached: "rdma_reach demo_ctx ([] @ [WSend (ser (sample_write_reply, []))]) demo_reply_sent"
proof -
  have "\<not> in_range 0x10000 1024 (0x50000 + of_nat k)" if "k < 21" for k
  proof -
    have "0x50000 + of_nat k - 0x10000 = (of_nat (0x40000 + k) :: 64 word)" by simp
    then show ?thesis using that unfolding in_range_def by (simp only: unat_of_nat) simp
  qed
  then have "fresh_buf demo_ctx 0x50000 (length (ser (sample_write_reply, [])) + 1)"
    by (simp add: demo_reply_state fresh_buf_def off_buf_def demo_ctx_def new_RdmaContext_def Let_def)
  then show ?thesis
    by (intro rdma_reach.message [OF rdma_reach.start _ _ demo_reply_state(1)]) (simp_all add: demo_reply_state MAX_REQUEST_SIZE_def)
qed

lemma demo_reply_posted: "\<exists>x \<in> set (rc_log demo_reply_sent). sw_opcode x = IBV_WR_SEND"
proof -
  obtain gs where gs: "list_all2 (\<lambda>x. carries (sw_data x) x) (rc_log demo_reply_sent) gs" "[WSend (ser (sample_write_reply, []))] = concat gs"
    using demo_reply_state(2,3) by (auto simp: rdma_inv_def built_ok_def carried_def)
  have "WSend (ser (sample_write_reply, [])) \<in> set (concat gs)" unfolding gs(2) [symmetric] by simp
  then obtain g where "g \<in> set gs" "WSend (ser (sample_write_reply, [])) \<in> set g" by (auto simp: set_concat)
  then obtain i where i: "i < length gs" "WSend (ser (sample_write_reply, [])) \<in> set (gs ! i)" by (auto simp: in_set_conv_nth)
  then have "carries (sw_data (rc_log demo_reply_sent ! i)) (rc_log demo_reply_sent ! i) (gs ! i)" "i < length (rc_log demo_reply_sent)"
    using gs(1) by (auto simp: list_all2_conv_all_nth)
  then show ?thesis using i(2) by (intro bexI [of _ "rc_log demo_reply_sent ! i"]) (auto simp: carries_def is_send_def split: if_splits)
qed

theorem merged_messages_arrive_one_by_one_witness:
  "\<exists>x ms. x \<in> set (rc_log demo_reply_sent) \<and> ms \<noteq> [] \<and> sw_data x = join0 (map ser ms) \<and>
    (\<forall>PR cli buf w. recv_loop (length (sw_data x)) PR cli buf (sw_data x) w = one_by_one PR cli buf (map ser ms) w)"
proof -
  obtain x where x: "x \<in> set (rc_log demo_reply_sent)" "sw_opcode x = IBV_WR_SEND" using demo_reply_posted by blast
  have "\<forall>b. WSend b \<in> set ([] @ [WSend (ser (sample_write_reply, []))]) \<longrightarrow> (\<exists>m. wire_ok m \<and> b = ser m)"
    using demo_reply_ok by auto
  from merged_messages_arrive_one_by_one [OF demo_ctx_initial demo_reply_reached this x] x(1) show ?thesis by blast
qed

end
