(* ===== verification/Master_Correct.thy ===== *)
theory Master_Correct
  imports Master Delivery Worker_Facts "HOL-Library.Multiset"
begin

text \<open>
  What the master of \<open>Master\<close> promises its clients: every \<open>GET\<close> is answered once, with the value of a
  \<open>PUT\<close>, and the memory statistics it sends arrive at a worker as it holds them.
\<close>

subsection \<open>Requests to the key-value store\<close>

text \<open>A request as the master receives it: the memory its payload lies in, the client, the request.\<close>

type_synonym kv_event = "mem \<times> 32 word \<times> WorkRequest"

fun kv_run :: "kv_event list \<Rightarrow> Master \<Rightarrow> Master option" where
  "kv_run [] m = Some m"
| "kv_run ((memory, c, wr) # es) m = do {
     m \<leftarrow> Master_ProcessRequest 2 memory c wr m;
     kv_run es m }"

definition put_value :: "mem \<Rightarrow> WorkRequest \<Rightarrow> byte list" where
  "put_value memory wr = map (\<lambda>i. memory (wr_ptr wr + of_nat i)) [0 ..< unat (wr_size wr)]"

text \<open>The value of the next \<open>PUT\<close> of a key.\<close>

fun first_put :: "kv_event list \<Rightarrow> 64 word \<Rightarrow> byte list option" where
  "first_put [] key = None"
| "first_put ((memory, c, wr) # es) key =
     (if wr_op wr = PUT \<and> wr_addr wr = key then Some (put_value memory wr) else first_put es key)"

text \<open>
  What should be sent: a \<open>GET\<close> is answered with the value of the last \<open>PUT\<close> of its key before it, or,
  when there was none, of the first one after it.
\<close>

fun kv_answers :: "(64 word \<rightharpoonup> byte list) \<Rightarrow> kv_event list \<Rightarrow> msg list" where
  "kv_answers kv [] = []"
| "kv_answers kv ((memory, c, wr) # es) =
     (if wr_op wr = PUT then kv_answers (kv(wr_addr wr \<mapsto> put_value memory wr)) es
      else (case kv (wr_addr wr) of
              Some v \<Rightarrow> [MSend c (get_reply wr v)]
            | None \<Rightarrow> (case first_put es (wr_addr wr) of Some v \<Rightarrow> [MSend c (get_reply wr v)] | None \<Rightarrow> [])) @
           kv_answers kv es)"

definition late_answers :: "kv_event list \<Rightarrow> (32 word \<times> WorkRequest) list \<Rightarrow> msg list" where
  "late_answers es ps =
     concat (map (\<lambda>(c, wr). case first_put es (wr_addr wr) of Some v \<Rightarrow> [MSend c (get_reply wr v)] | None \<Rightarrow> []) ps)"

text \<open>The requests that wait, in the order they came.\<close>

definition queued :: "Master \<Rightarrow> 64 word \<Rightarrow> (32 word \<times> WorkRequest) list" where
  "queued m key = (case to_serve_kv_request m key of Some q \<Rightarrow> q | None \<Rightarrow> [])"

definition for_key :: "64 word \<Rightarrow> (32 word \<times> WorkRequest) list \<Rightarrow> (32 word \<times> WorkRequest) list" where
  "for_key key ps = filter (\<lambda>p. wr_addr (snd p) = key) ps"

definition but_key :: "64 word \<Rightarrow> (32 word \<times> WorkRequest) list \<Rightarrow> (32 word \<times> WorkRequest) list" where
  "but_key key ps = filter (\<lambda>p. wr_addr (snd p) \<noteq> key) ps"

definition waiting :: "(32 word \<times> WorkRequest) list \<Rightarrow> Master \<Rightarrow> bool" where
  "waiting ps m \<longleftrightarrow> (\<forall>key. queued m key = for_key key ps) \<and>
     (\<forall>p \<in> set ps. wr_op (snd p) = GET \<and> kvs m (wr_addr (snd p)) = None)"

lemma for_but_key: "for_key k (but_key key ps) = (if k = key then [] else for_key k ps)"
  by (auto simp: for_key_def but_key_def filter_empty_conv intro!: filter_cong)

lemma get_reply_flag [simp]: "get_reply (set_flg f wr) v = get_reply wr v"
  by (simp add: get_reply_def Ser_def set_flg_def)

lemma set_flg_fields [simp]: "wr_op (set_flg f wr) = wr_op wr" "wr_addr (set_flg f wr) = wr_addr wr"
  by (simp_all add: set_flg_def)

definition replies :: "byte list \<Rightarrow> (32 word \<times> WorkRequest) list \<Rightarrow> msg list" where
  "replies v q = map (\<lambda>(c, wr). MSend c (get_reply wr v)) q"

text \<open>The loop of a \<open>PUT\<close> answers the whole queue in order and leaves it empty.\<close>

lemma serve_kv_all:
  assumes "to_serve_kv_request m key = Some q" "\<forall>p \<in> set q. wr_op (snd p) = GET \<and> wr_addr (snd p) = key" "kvs m key = Some v"
  shows "serve_kv (Master_ProcessRequest (Suc n) memory) (length q) key m =
    Some (m \<lparr> to_serve_kv_request := (to_serve_kv_request m)(key \<mapsto> []), m_out := m_out m @ replies v q \<rparr>)"
  using assms
proof (induction q arbitrary: m)
  case Nil
  then show ?case by (simp add: replies_def fun_upd_idem)
next
  case (Cons x q)
  obtain c wr where x: "x = (c, wr)" by fastforce
  let ?m = "m \<lparr> to_serve_kv_request := (to_serve_kv_request m)(key \<mapsto> q), m_out := m_out m @ [MSend c (get_reply wr v)] \<rparr>"
  have "Master_ProcessRequest (Suc n) memory c (set_flg TO_SERVE wr) (m \<lparr> to_serve_kv_request := (to_serve_kv_request m)(key \<mapsto> q) \<rparr>) = Some ?m"
    using Cons.prems x by (simp add: m_get_def m_send_def)
  then show ?case using Cons.prems(1) Cons.IH [of ?m] Cons.prems(2,3) x
    by (simp add: replies_def del: Master_ProcessRequest.simps fun_upd_apply) (simp add: fun_upd_def)
qed

lemma put_step:
  assumes w: "waiting ps m" and op: "wr_op wr = PUT"
  shows "\<exists>m'. Master_ProcessRequest 2 memory c wr m = Some m' \<and>
    kvs m' = (kvs m)(wr_addr wr \<mapsto> put_value memory wr) \<and>
    m_out m' = m_out m @ replies (put_value memory wr) (for_key (wr_addr wr) ps) \<and>
    waiting (but_key (wr_addr wr) ps) m'"
proof -
  let ?key = "wr_addr wr" and ?v = "put_value memory wr"
  let ?m = "m \<lparr> kvs := (kvs m)(?key \<mapsto> ?v) \<rparr>"
  let ?m' = "?m \<lparr> to_serve_kv_request := (to_serve_kv_request m)(?key := None), m_out := m_out m @ replies ?v (for_key ?key ps) \<rparr>"
  have q: "queued m ?key = for_key ?key ps" using w by (simp add: waiting_def)
  have g: "\<forall>p \<in> set (for_key ?key ps). wr_op (snd p) = GET \<and> wr_addr (snd p) = ?key"
    using w by (auto simp: waiting_def for_key_def)
  have "Master_ProcessRequest 2 memory c wr m = Some ?m'"
  proof (cases "to_serve_kv_request m ?key")
    case None
    then have "m_put (Master_ProcessRequest 1 memory) memory wr m = Some ?m'" using q
      by (simp add: m_put_def Let_def queued_def replies_def put_value_def [symmetric] fun_upd_idem)
    then show ?thesis using op by (simp add: numeral_2_eq_2)
  next
    case (Some q')
    then have "q' = for_key ?key ps" using q by (simp add: queued_def)
    then have "serve_kv (Master_ProcessRequest (Suc 0) memory) (length q') ?key ?m =
        Some (?m \<lparr> to_serve_kv_request := (to_serve_kv_request m)(?key \<mapsto> []), m_out := m_out m @ replies ?v q' \<rparr>)"
      using serve_kv_all [of ?m ?key q'] Some g by simp
    then show ?thesis using Some op \<open>q' = for_key ?key ps\<close>
      by (simp add: numeral_2_eq_2 m_put_def Let_def put_value_def [symmetric] del: fun_upd_apply)
  qed
  moreover have "waiting (but_key ?key ps) ?m'"
    using w by (simp add: waiting_def queued_def for_but_key) (auto simp: but_key_def)
  ultimately show ?thesis by (intro exI [of _ ?m']) simp
qed

lemma get_step:
  assumes w: "waiting ps m" and op: "wr_op wr = GET"
  shows "\<exists>m'. Master_ProcessRequest 2 memory c wr m = Some m' \<and> kvs m' = kvs m \<and>
    (case kvs m (wr_addr wr) of
       Some v \<Rightarrow> m_out m' = m_out m @ [MSend c (get_reply wr v)] \<and> waiting ps m'
     | None \<Rightarrow> m_out m' = m_out m \<and> waiting (ps @ [(c, wr)]) m')"
proof (cases "kvs m (wr_addr wr)")
  case (Some v)
  then show ?thesis using w op by (simp add: numeral_2_eq_2 m_get_def m_send_def waiting_def queued_def)
next
  case None
  let ?m = "m \<lparr> to_serve_kv_request := (to_serve_kv_request m)(wr_addr wr \<mapsto> queued m (wr_addr wr) @ [(c, wr)]) \<rparr>"
  have "Master_ProcessRequest 2 memory c wr m = Some ?m"
    using op None by (simp add: numeral_2_eq_2 m_get_def queued_def)
  moreover have "waiting (ps @ [(c, wr)]) ?m"
    using w op None by (auto simp: waiting_def queued_def for_key_def)
  ultimately show ?thesis using None by (intro exI [of _ ?m]) simp
qed

lemma late_answers_put:
  assumes "wr_op wr = PUT"
  shows "mset (late_answers ((memory, c, wr) # es) ps) =
    mset (replies (put_value memory wr) (for_key (wr_addr wr) ps)) + mset (late_answers es (but_key (wr_addr wr) ps))"
  using assms by (induction ps) (auto simp: late_answers_def replies_def for_key_def but_key_def case_prod_beta)

lemma late_answers_get: "wr_op wr = GET \<Longrightarrow> late_answers ((memory, c, wr) # es) ps = late_answers es ps"
  by (simp add: late_answers_def)

lemma kv_run_answers:
  assumes "waiting ps m" "\<forall>(memory, c, wr) \<in> set es. wr_op wr = PUT \<or> wr_op wr = GET"
  shows "\<exists>m'. kv_run es m = Some m' \<and>
    mset (m_out m') = mset (m_out m) + mset (late_answers es ps) + mset (kv_answers (kvs m) es)"
  using assms
proof (induction es arbitrary: m ps)
  case Nil
  then show ?case by (auto simp: late_answers_def)
next
  case (Cons e es)
  obtain memory c wr where e: "e = (memory, c, wr)" by (cases e) blast
  consider "wr_op wr = PUT" | "wr_op wr = GET" using Cons.prems(2) e by auto
  then show ?case
  proof cases
    case 1
    obtain m1 where m1: "Master_ProcessRequest 2 memory c wr m = Some m1"
      "kvs m1 = (kvs m)(wr_addr wr \<mapsto> put_value memory wr)"
      "m_out m1 = m_out m @ replies (put_value memory wr) (for_key (wr_addr wr) ps)"
      "waiting (but_key (wr_addr wr) ps) m1"
      using put_step [OF Cons.prems(1) 1] by blast
    show ?thesis using Cons.IH [OF m1(4)] Cons.prems(2) m1(1-3) 1 late_answers_put [OF 1, of memory c es ps]
      by (auto simp: e simp del: fun_upd_apply)
  next
    case 2
    obtain m1 where m1: "Master_ProcessRequest 2 memory c wr m = Some m1" "kvs m1 = kvs m"
      "case kvs m (wr_addr wr) of
         Some v \<Rightarrow> m_out m1 = m_out m @ [MSend c (get_reply wr v)] \<and> waiting ps m1
       | None \<Rightarrow> m_out m1 = m_out m \<and> waiting (ps @ [(c, wr)]) m1"
      using get_step [OF Cons.prems(1) 2] by blast
    show ?thesis
    proof (cases "kvs m (wr_addr wr)")
      case None
      then show ?thesis using Cons.IH [of "ps @ [(c, wr)]" m1] Cons.prems(2) m1 2 
        by (auto simp: e late_answers_get) (simp add: late_answers_def)
    next
      case (Some v)
      then show ?thesis using Cons.IH [of ps m1] Cons.prems(2) m1 2 by (auto simp: e late_answers_get)
    qed
  qed
qed

definition empty_store :: "Master \<Rightarrow> bool" where
  "empty_store m \<longleftrightarrow> m_out m = [] \<and> (\<forall>key. kvs m key = None \<and> to_serve_kv_request m key = None)"

text \<open>
  C34: The key-value store of the master answers every \<open>GET\<close> exactly once and never invents a value. For
  every sequence of \<open>PUT\<close> and \<open>GET\<close> requests on an empty store the master processes all of them, and what
  it sends is, up to order, one reply for each \<open>GET\<close> whose key is ever put: with the value of the last
  \<open>PUT\<close> before it, or of the first \<open>PUT\<close> after it when there was none.
\<close>

theorem master_answers_every_get:
  assumes "empty_store m" "\<forall>(memory, c, wr) \<in> set es. wr_op wr = PUT \<or> wr_op wr = GET"
  shows "\<exists>m'. kv_run es m = Some m' \<and> mset (m_out m') = mset (kv_answers Map.empty es)"
proof -
  have "kvs m = Map.empty" using assms(1) by (intro ext) (simp add: empty_store_def)
  moreover have "waiting [] m" using assms(1) by (simp add: empty_store_def waiting_def queued_def for_key_def)
  ultimately show ?thesis using kv_run_answers [of "[]" m es] assms by (simp add: late_answers_def empty_store_def)
qed

definition demo_master :: Master where
  "demo_master = \<lparr> worker_ips = [], m_clients = Map.empty, qp_order = [], unsynced_workers = [], m_workers = [],
     m_iter = (\<lambda>k ks. ks @ [k]), kvs = Map.empty, to_serve_kv_request = Map.empty, unsynced_th = 1, m_out = [] \<rparr>"

definition demo_kv :: "Work \<Rightarrow> WorkRequest" where
  "demo_kv op = new_WorkRequest \<lparr> wr_op := op, wr_addr := 7, wr_size := 2, wr_ptr := 0x100 \<rparr>"

text \<open>Two workers ask for a key, then a third one puts it.\<close>

theorem master_answers_every_get_witness:
  "\<exists>m'. kv_run [(\<lambda>_. 0, 1, demo_kv GET), (\<lambda>_. 0, 2, demo_kv GET), (\<lambda>_. 65, 3, demo_kv PUT)] demo_master = Some m' \<and>
    mset (m_out m') = {# MSend 1 (get_reply (demo_kv GET) [65, 65]), MSend 2 (get_reply (demo_kv GET) [65, 65]) #}"
  using master_answers_every_get [of demo_master "[(\<lambda>_. 0, 1, demo_kv GET), (\<lambda>_. 0, 2, demo_kv GET), (\<lambda>_. 65, 3, demo_kv PUT)]"]
  by (simp add: empty_store_def demo_master_def demo_kv_def put_value_def upt_rec new_WorkRequest_def)

subsection \<open>Memory statistics\<close>

definition stat_numbers :: "32 word \<Rightarrow> MClient \<Rightarrow> int list" where
  "stat_numbers i cl = [uint (mc_qp cl), sint i, sint (mc_size cl), sint (mc_free cl)]"

lemma stat_text_list:
  "stat_text [COLON] is m = Some t \<Longrightarrow>
     \<exists>cls. length cls = length is \<and> (\<forall>k<length is. m_clients m (is ! k) = Some (cls ! k)) \<and>
       t = show_list (concat (map2 stat_numbers is cls))"
proof (induction "is" arbitrary: t)
  case Nil
  then show ?case by (simp add: show_list_def)
next
  case (Cons i "is")
  then obtain cl rest where cl: "m_clients m i = Some cl" "stat_text [COLON] is m = Some rest"
    "t = stat_line i cl @ [COLON] @ rest" by (auto split: Option.bind_splits)
  from Cons.IH [OF cl(2)] obtain cls where "length cls = length is"
    "\<forall>k<length is. m_clients m (is ! k) = Some (cls ! k)" "rest = show_list (concat (map2 stat_numbers is cls))" by blast
  then show ?case using cl
    by (intro exI [of _ "cl # cls"]) (auto simp: nth_Cons stat_line_def stat_numbers_def show_list_def split: nat.split)
qed

lemma stat_numbers_range: "\<forall>x \<in> set (stat_numbers i cl). - (2 ^ 63) \<le> x \<and> x < 2 ^ 63"
proof -
  have "- (2 ^ 63) \<le> sint (w :: 64 word)" "sint (w :: 64 word) < 2 ^ 63" for w
    using sint_ge [of w] sint_lt [of w] by simp_all
  moreover have "- (2 ^ 31) \<le> sint i" "sint i < 2 ^ 31" using sint_ge [of i] sint_lt [of i] by simp_all
  moreover have "uint (mc_qp cl) < 2 ^ 32" using uint_lt2p [of "mc_qp cl"] by simp
  moreover have "- (2 ^ 63) \<le> uint (mc_qp cl)" by (rule order_trans [of _ 0]) simp_all
  ultimately show ?thesis by (auto simp: stat_numbers_def)
qed

lemma ucast_scast_word [simp]: "ucast (scast (i :: 32 word) :: 64 word) = i"
  by (rule bit_word_eqI) (simp add: bit_simps)

lemma set_mem_stats_all:
  assumes "length cls = length is" "distinct is" "\<forall>i \<in> set is. widCliMap w i \<noteq> None"
  shows "\<exists>w'. set_mem_stats (length is) (map word_of_int (concat (map2 stat_numbers is cls))) w = Some w' \<and>
    (\<forall>j. j \<notin> set is \<longrightarrow> widCliMap w' j = widCliMap w j) \<and>
    (\<forall>k<length is. GetTotalMem w' (is ! k) = mc_size (cls ! k) \<and> GetFreeMem w' (is ! k) = mc_free (cls ! k))"
  using assms
proof (induction cls "is" arbitrary: w rule: list_induct2)
  case (Cons cl cls i "is")
  obtain w1 where w1: "set_mem_stat (word_of_int (sint i)) (mc_size cl) (mc_free cl) w = Some w1"
    "widCliMap w1 = (widCliMap w)(i := map_option (\<lambda>c. c \<lparr> cl_size := mc_size cl, cl_free := mc_free cl \<rparr>) (widCliMap w i))"
    using Cons.prems by (auto simp: set_mem_stat_def FindClientWid_def SetMemStat_def Let_def)
  have "\<forall>j \<in> set is. widCliMap w1 j \<noteq> None" using Cons.prems w1(2) by auto
  then obtain w' where w': "set_mem_stats (length is) (map word_of_int (concat (map2 stat_numbers is cls))) w1 = Some w'"
    "\<forall>j. j \<notin> set is \<longrightarrow> widCliMap w' j = widCliMap w1 j"
    "\<forall>k<length is. GetTotalMem w' (is ! k) = mc_size (cls ! k) \<and> GetFreeMem w' (is ! k) = mc_free (cls ! k)"
    using Cons.IH [of w1] Cons.prems by auto
  have "widCliMap w' i = widCliMap w1 i" using w'(2) Cons.prems(1) by simp
  then have i: "GetTotalMem w' i = mc_size cl" "GetFreeMem w' i = mc_free cl"
    using w1(2) Cons.prems(2) by (auto simp: GetTotalMem_def GetFreeMem_def)
  have "set_mem_stats (length (i # is)) (map word_of_int (concat (map2 stat_numbers (i # is) (cl # cls)))) w = Some w'"
    using w1(1) w'(1) by (simp add: stat_numbers_def)
  moreover have "\<forall>j. j \<notin> set (i # is) \<longrightarrow> widCliMap w' j = widCliMap w j" using w'(2) w1(2) by simp
  moreover have "\<forall>k<length (i # is). GetTotalMem w' ((i # is) ! k) = mc_size ((cl # cls) ! k) \<and> GetFreeMem w' ((i # is) ! k) = mc_free ((cl # cls) ! k)"
    using w'(3) i by (simp add: nth_Cons split: nat.split)
  ultimately show ?case by blast
qed simp

lemma cstring_at:
  assumes "0 \<notin> set bs" "\<forall>k<length bs. memory (p + of_nat k) = bs ! k" "memory (p + of_nat (length bs)) = 0"
  shows "cstring memory p = Some bs"
  using assms
proof (induction bs arbitrary: p)
  case Nil
  then show ?case by (simp add: cstring.simps)
next
  case (Cons b bs)
  have "memory p = b" "b \<noteq> 0" using Cons.prems by (auto dest: spec [of _ 0])
  moreover have "cstring memory (p + 1) = Some bs"
  proof (rule Cons.IH)
    show "\<forall>k<length bs. memory (p + 1 + of_nat k) = bs ! k" using Cons.prems(2) by (auto dest: spec [of _ "Suc _"] simp: add.assoc)
  qed (use Cons.prems in \<open>simp_all add: add.assoc\<close>)
  ultimately show ?case by (simp add: cstring.simps [of memory p])
qed

lemma show_list_no_zero: "0 \<notin> set (show_list is)"
proof -
  have "0 \<notin> set (show_int i)" for i
    using bspec [OF show_nat_digits, of 0] by (auto simp: show_int_def)
  then show ?thesis by (auto simp: show_list_def)
qed

lemma stats_deser:
  assumes "0 \<notin> set t"
  shows "Deser buf (stats_message FETCH_MEM_STATS_REPLY n t) new_WorkRequest =
    Some (new_WorkRequest \<lparr> wr_op := FETCH_MEM_STATS_REPLY, wr_size := of_nat n, wr_ptr := buf + 12 \<rparr>,
      length (stats_message FETCH_MEM_STATS_REPLY n t))"
  using work_of_code_work_code [of FETCH_MEM_STATS_REPLY]
  by (simp add: takeWhile_data_end [OF assms] stats_message_def Ser_def Deser_def reader_defs Let_def payload_at_def new_WorkRequest_def)

lemma stats_in_buffer:
  assumes "0 \<notin> set t" "length t < 2 ^ 32"
  shows "cstring (store_bytes buf (stats_message FETCH_MEM_STATS_REPLY n t @ [0]) memory) (buf + 12) = Some t"
proof -
  let ?msg = "stats_message FETCH_MEM_STATS_REPLY n t"
  obtain h where h: "?msg = h @ t" "length h = 12"
    by (simp add: stats_message_def Ser_def)
  have u: "unat (buf + 12 + of_nat k - buf :: 64 word) = 12 + k" if "k \<le> length t" for k
  proof -
    have "buf + 12 + of_nat k - buf = (of_nat (12 + k) :: 64 word)" by simp
    then show ?thesis using that assms(2) by (simp only: unat_of_nat) simp
  qed
  show ?thesis
  proof (rule cstring_at [OF assms(1)])
    show "\<forall>k<length t. store_bytes buf (?msg @ [0]) memory (buf + 12 + of_nat k) = t ! k"
      using u h by (simp add: store_bytes_def nth_append)
    show "store_bytes buf (?msg @ [0]) memory (buf + 12 + of_nat (length t)) = 0"
      using u [of "length t"] h by (simp add: store_bytes_def nth_append)
  qed
qed

text \<open>
  C35: The statistics a worker fetches arrive. If the master answers a request for the memory statistics
  and the worker receives that message from its completion queue, knowing every worker the master knows,
  then the worker processes it, and afterwards it holds for each of these workers the total and free
  memory the master holds.
\<close>

theorem fetched_stats_arrive:
  assumes f: "fetch_mem_stats c m = Some m'" "m_out m' = m_out m @ [MSend c msg]"
    and m: "distinct (m_workers m)" "length (m_workers m) < 2 ^ 31" "length msg < 2 ^ 32"
    and w: "\<forall>i \<in> set (m_workers m). widCliMap w i \<noteq> None"
  shows "\<exists>w'. ProcessRdmaRequest n (Some cli) True (Received buf msg) w = Some w' \<and>
    (\<forall>i \<in> set (m_workers m). \<exists>cl. m_clients m i = Some cl \<and> GetTotalMem w' i = mc_size cl \<and> GetFreeMem w' i = mc_free cl)"
proof -
  let ?is = "m_workers m" and ?r = "next_wr w"
  obtain t where t: "stat_text [COLON] ?is m = Some t" "msg = stats_message FETCH_MEM_STATS_REPLY (length ?is) t"
    using f by (auto simp: fetch_mem_stats_def m_send_def split: Option.bind_splits)
  obtain cls where cls: "length cls = length ?is" "\<forall>k<length ?is. m_clients m (?is ! k) = Some (cls ! k)"
    "t = show_list (concat (map2 stat_numbers ?is cls))" using stat_text_list [OF t(1)] by blast
  have z: "0 \<notin> set t" using show_list_no_zero cls(3) by simp
  have "length msg = 12 + length t" by (simp add: t(2) stats_message_def Ser_def)
  then have lt: "length t < 2 ^ 32" "0 < length msg" using m(3) by simp_all
  have "\<forall>x \<in> set (concat (map2 stat_numbers ?is cls)). - (2 ^ 63) \<le> x \<and> x < 2 ^ 63"
    using stat_numbers_range by auto
  then have sp: "Split COLON t = map word_of_int (concat (map2 stat_numbers ?is cls))" using Split_show_list cls(3) by simp
  let ?wr = "new_WorkRequest \<lparr> wr_op := FETCH_MEM_STATS_REPLY, wr_size := of_nat (length ?is), wr_ptr := buf + 12 \<rparr>"
  let ?w = "(on_mem (store_bytes buf (msg @ [0])) w) \<lparr> wrs := (wrs w)(?r \<mapsto> ?wr), next_wr := Suc ?r \<rparr>"
  have "\<forall>i \<in> set ?is. widCliMap ?w i \<noteq> None" using w by (simp add: on_mem_def)
  from set_mem_stats_all [OF cls(1) m(1) this] obtain w' where
    w': "set_mem_stats (length ?is) (map word_of_int (concat (map2 stat_numbers ?is cls))) ?w = Some w'"
    "\<forall>k<length ?is. GetTotalMem w' (?is ! k) = mc_size (cls ! k) \<and> GetFreeMem w' (?is ! k) = mc_free (cls ! k)" by blast
  have "sint (of_nat (length ?is) :: 64 word) = int (length ?is)"
    using m(2) by (simp add: signed_of_nat signed_take_bit_int_eq_self_iff)
  then have p: "ProcessRemoteMemStat cli ?r ?w = Some (wr_del ?r w')"
    using w'(1) stats_in_buffer [OF z lt(1), of buf "length ?is" "w_mem w"] sp t(2)
    by (simp add: ProcessRemoteMemStat_def on_mem_def)
  have "wire_ok (new_WorkRequest \<lparr> wr_op := FETCH_MEM_STATS_REPLY, wr_size := of_nat (length ?is) \<rparr>, t)"
    using z by (simp add: wire_ok_def data_ok_def new_WorkRequest_def)
  from recv_loop_single [OF this lt(2)]
  have "ProcessRdmaRequest n (Some cli) True (Received buf msg) w = Some (wr_del ?r w')"
    using p stats_deser [OF z, of buf "length ?is"]
    by (simp add: ProcessRdmaRequest_def ser_def t(2) stats_message_def ProcessRequest_def wr_new_def on_mem_def Let_def)
  moreover have "GetTotalMem (wr_del ?r w') i = GetTotalMem w' i" "GetFreeMem (wr_del ?r w') i = GetFreeMem w' i" for i
    by (simp_all add: wr_del_def GetTotalMem_def GetFreeMem_def)
  moreover have "\<forall>i \<in> set ?is. \<exists>cl. m_clients m i = Some cl \<and> GetTotalMem w' i = mc_size cl \<and> GetFreeMem w' i = mc_free cl"
    using cls(2) w'(2) by (auto simp: in_set_conv_nth)
  ultimately show ?thesis by simp
qed

definition demo_stats_master :: Master where
  "demo_stats_master = demo_master \<lparr> m_workers := [2, 1],
     m_clients := [1 \<mapsto> \<lparr> mc_qp = 11, mc_size = 1000, mc_free = 50 \<rparr>, 2 \<mapsto> \<lparr> mc_qp = 12, mc_size = 2000, mc_free = 70 \<rparr>] \<rparr>"

definition demo_stats_worker :: Worker where
  "demo_stats_worker = demo_worker \<lparr> widCliMap := (\<lambda>_. Some \<lparr> cl_base = 0, cl_size = 0, cl_free = 0 \<rparr>) \<rparr>"

lemma demo_stat_text: "stat_text [COLON] [2, 1] demo_stats_master =
  Some (show_list [12, 2, 2000, 70, 11, 1, 1000, 50])"
  by (simp add: demo_stats_master_def demo_master_def stat_line_def show_list_def)

lemma demo_show_list: "length (show_list [12, 2, 2000, 70, 11, 1, 1000, 50]) = 26"
  by (simp add: show_list_def show_int_def show_nat.simps)

theorem fetched_stats_arrive_witness:
  "\<exists>w'. ProcessRdmaRequest 3 (Some 0) True
      (Received 0x5000 (stats_message FETCH_MEM_STATS_REPLY 2 (show_list [12, 2, 2000, 70, 11, 1, 1000, 50]))) demo_stats_worker = Some w' \<and>
    GetTotalMem w' 2 = 2000 \<and> GetFreeMem w' 1 = 50"
proof -
  let ?m = demo_stats_master
  let ?t = "show_list [12, 2, 2000, 70, 11, 1, 1000, 50]"
  let ?msg = "stats_message FETCH_MEM_STATS_REPLY 2 ?t"
  have w: "m_workers ?m = [2, 1]" by (simp add: demo_stats_master_def)
  have 1: "fetch_mem_stats 1 ?m = Some (m_send 1 ?msg ?m)"
    by (simp add: fetch_mem_stats_def w demo_stat_text numeral_2_eq_2 del: stat_text.simps)
  have 2: "m_out (m_send 1 ?msg ?m) = m_out ?m @ [MSend 1 ?msg]" by (simp add: m_send_def)
  have 3: "length ?msg < 2 ^ 32" using demo_show_list by (simp add: stats_message_def Ser_def)
  have 4: "\<forall>i \<in> set (m_workers ?m). widCliMap demo_stats_worker i \<noteq> None" by (simp add: demo_stats_worker_def)
  show ?thesis
    using fetched_stats_arrive [OF 1 2 _ _ 3 4, of 3 0 "0x5000"] by (simp add: w) (auto simp: demo_stats_master_def)
qed

lemma Split_show_last:
  assumes "\<forall>x \<in> set (is @ [i]). - (2 ^ 63) \<le> x \<and> x < 2 ^ 63"
  shows "Split COLON (show_list is @ show_int i) = map word_of_int (is @ [i])"
  using assms
proof (induction "is")
  case Nil
  then show ?case using get_number_show [of i "[]"]
    by (simp add: show_list_def Split.simps [of _ "show_int i"] Split.simps [of _ "[]"] get_number_def [of "[]"] get_sign_def skip_delim_def)
next
  case (Cons j "is")
  have "get_number (show_list (j # is) @ show_int i) = Some (word_of_int j, COLON # show_list is @ show_int i)"
    using get_number_show [of j "COLON # show_list is @ show_int i"] Cons.prems by (simp add: show_list_def)
  with Cons show ?case by (simp add: Split.simps [of _ "show_list (j # is) @ show_int i"] skip_delim_def)
qed

text \<open>
  A broadcast prints the lines of several workers without a separator between them: the free memory of
  one and the queue pair of the next become one number, and the receiver reads past the end of its list.
\<close>

theorem broadcast_of_two_faults:
  "\<exists>t. stat_text [] [2, 1] demo_stats_master = Some t \<and>
    Split COLON t = [12, 2, 2000, 7011, 1, 1000, 50] \<and> set_mem_stats 2 (Split COLON t) demo_stats_worker = None"
proof -
  let ?t = "show_list [12, 2, 2000, 7011, 1, 1000] @ show_int 50"
  have "stat_text [] [2, 1] demo_stats_master = Some ?t"
    by (simp add: demo_stats_master_def demo_master_def stat_line_def show_list_def show_int_def show_nat.simps)
  moreover have "Split COLON ?t = [12, 2, 2000, 7011, 1, 1000, 50]"
    using Split_show_last [of "[12, 2, 2000, 7011, 1, 1000]" 50] by simp
  moreover have "set_mem_stats 2 [12, 2, 2000, 7011, 1, 1000, 50] demo_stats_worker = None"
    by (simp add: numeral_2_eq_2 bind_eq_None_conv)
  ultimately show ?thesis by simp
qed

end
