(* ===== verification/GAlloc.thy ===== *)
theory GAlloc
  imports Dispatch Directory Worker_Facts
begin

text \<open>
  The interface of an application thread (\<open>src/gallocator.cc\<close>, \<open>src/worker_handle.cc\<close>). A \<open>GAlloc\<close> builds
  requests and sends them through its handle; \<open>send\<close> is that service, which returns the status and the
  request as the worker has left it. \<open>SendRequest\<close> is the service the worker provides: \<open>wait\<close> stands for
  what the other threads do until they set the notification word to \<open>2\<close>.
\<close>

subsection \<open>The handle\<close>

record WorkerHandle =
  wh_fd :: int  \<comment> \<open>\<open>recv_pipe[1]\<close>, which names the thread\<close>
  wh_notify :: ptr

type_synonym 's service = "WorkRequest \<Rightarrow> 's \<Rightarrow> (32 word \<times> WorkRequest \<times> 's) option"

definition SendRequest :: "nat \<Rightarrow> (ptr \<Rightarrow> Worker \<Rightarrow> Worker option) \<Rightarrow> WorkerHandle \<Rightarrow> Worker service" where
  "SendRequest n wait h wr w = do {
     let w = w \<lparr> notified := (notified w)(wh_notify h := 1) \<rparr>;
     let (r, w) = wr_new ((set_flg LOCAL_REQUEST wr) \<lparr> wr_fd := wh_fd h, wr_notify_buf := wh_notify h \<rparr>) w;
     (ret, w) \<leftarrow> ProcessLocalRequest (notify n) (to_serve n) r w;
     wr \<leftarrow> wrs w r;
     if ret \<noteq> 0 \<and> flg ASYNC wr then Some (SUCCESS, wr, wr_del r w)
     else do {
       w \<leftarrow> (if ret \<noteq> 0 then wait (wh_notify h) w else Some w);
       wr \<leftarrow> wrs w r;
       Some (wr_status wr, wr, wr_del r w) } }"

subsection \<open>Memory\<close>

definition gal_Malloc :: "'s service \<Rightarrow> 64 word \<Rightarrow> gaddr \<Rightarrow> 32 word \<Rightarrow> 's \<Rightarrow> (gaddr \<times> 's) option" where
  "gal_Malloc send sz base f s = do {
     (st, wr, s) \<leftarrow> send (new_WorkRequest \<lparr> wr_op := MALLOC, wr_flag := f, wr_size := sz, wr_addr := base \<rparr>) s;
     Some (if st \<noteq> 0 then Gnullptr else wr_addr wr, s) }"

definition gal_AlignedMalloc :: "'s service \<Rightarrow> 64 word \<Rightarrow> gaddr \<Rightarrow> 32 word \<Rightarrow> 's \<Rightarrow> (gaddr \<times> 's) option" where
  "gal_AlignedMalloc send sz base f s = gal_Malloc send sz base (set_bit ALIGNED f) s"

definition gal_Calloc :: "'s \<Rightarrow> gaddr \<times> 's" where "gal_Calloc s = (Gnullptr, s)"

definition gal_Realloc :: "'s \<Rightarrow> gaddr \<times> 's" where "gal_Realloc s = (Gnullptr, s)"

definition gal_Free :: "'s service \<Rightarrow> gaddr \<Rightarrow> 's \<Rightarrow> 's option" where
  "gal_Free send a s = do {
     (st, wr, s) \<leftarrow> send (new_WorkRequest \<lparr> wr_op := FREE, wr_addr := a \<rparr>) s;
     Some s }"

definition gal_Read :: "'s service \<Rightarrow> gaddr \<Rightarrow> 64 word \<Rightarrow> ptr \<Rightarrow> 64 word \<Rightarrow> 32 word \<Rightarrow> 's \<Rightarrow> (32 word \<times> 's) option" where
  "gal_Read send a off buf count f s = do {
     (st, wr, s) \<leftarrow> send (new_WorkRequest \<lparr> wr_op := READ, wr_flag := f, wr_size := count, wr_addr := GADD a off, wr_ptr := buf \<rparr>) s;
     Some (if st \<noteq> 0 then 0 else ucast (wr_size wr), s) }"

definition gal_Write ::
  "'s service \<Rightarrow> gaddr \<Rightarrow> 64 word \<Rightarrow> ptr \<Rightarrow> 64 word \<Rightarrow> 32 word \<Rightarrow> GFunc option \<Rightarrow> 64 word \<Rightarrow> 's \<Rightarrow> (32 word \<times> 's) option" where
  "gal_Write send a off buf count f func arg s = do {
     let wr = new_WorkRequest \<lparr> wr_op := WRITE, wr_flag := set_bit ASYNC f, wr_size := count, wr_addr := GADD a off, wr_ptr := buf \<rparr>;
     let wr = (if func = None then wr else set_flg GFUNC (wr \<lparr> wr_gfunc := func, wr_arg := arg \<rparr>));
     (st, wr, s) \<leftarrow> send wr s;
     Some (if st \<noteq> 0 then 0 else ucast (wr_size wr), s) }"

definition gal_MFence :: "'s service \<Rightarrow> 's \<Rightarrow> 's option" where
  "gal_MFence send s = do {
     (st, wr, s) \<leftarrow> send (set_flg ASYNC (new_WorkRequest \<lparr> wr_op := MFENCE \<rparr>)) s; Some s }"

definition gal_SFence :: "'s service \<Rightarrow> 's \<Rightarrow> 's option" where
  "gal_SFence send s = do {
     (st, wr, s) \<leftarrow> send (set_flg ASYNC (new_WorkRequest \<lparr> wr_op := SFENCE \<rparr>)) s; Some s }"

definition gal_Put :: "'s service \<Rightarrow> 64 word \<Rightarrow> ptr \<Rightarrow> 64 word \<Rightarrow> 's \<Rightarrow> (64 word \<times> 's) option" where
  "gal_Put send key v count s = do {
     (st, wr, s) \<leftarrow> send (new_WorkRequest \<lparr> wr_op := PUT, wr_size := count, wr_addr := key, wr_ptr := v \<rparr>) s;
     Some (if st \<noteq> 0 then 0 else wr_size wr, s) }"

definition gal_Get :: "'s service \<Rightarrow> 64 word \<Rightarrow> ptr \<Rightarrow> 's \<Rightarrow> (64 word \<times> 's) option" where
  "gal_Get send key v s = do {
     (st, wr, s) \<leftarrow> send (new_WorkRequest \<lparr> wr_op := GET, wr_addr := key, wr_ptr := v \<rparr>) s;
     Some (if st \<noteq> 0 then 0 else wr_size wr, s) }"

subsection \<open>Locks over a range\<close>

definition lock_request :: "Work \<Rightarrow> gaddr \<Rightarrow> 32 word \<Rightarrow> WorkRequest" where
  "lock_request op a f = new_WorkRequest \<lparr> wr_op := op, wr_addr := a, wr_flag := f \<rparr>"

text \<open>The product \<open>i*BLOCK_SIZE\<close> of two \<open>int\<close>s, as an offset.\<close>

definition block_off :: "32 word \<Rightarrow> 64 word" where
  "block_off i = scast (i * 4096 :: 32 word)"

text \<open>The loop that sends one request per block; it returns the last status and \<open>i\<close>.\<close>

partial_function (option) lock_loop ::
  "'s service \<Rightarrow> Work \<Rightarrow> 32 word \<Rightarrow> gaddr \<Rightarrow> gaddr \<Rightarrow> 32 word \<Rightarrow> gaddr \<Rightarrow> 's \<Rightarrow> (32 word \<times> 32 word \<times> 's) option" where
  "lock_loop send op f start_blk end_blk i a s =
     Option.bind (send (lock_request op a f) s) (\<lambda>(st, wr, s).
       if st \<noteq> 0 then Some (wr_status wr, i, s)
       else let i = i + 1; next = GADD start_blk (block_off i)
            in if next > end_blk then Some (wr_status wr, i, s)
               else lock_loop send op f start_blk end_blk i next s)"

text \<open>The loop that gives the blocks \<open>1 \<le> j < i\<close> back.\<close>

fun unlock_blocks :: "'s service \<Rightarrow> 32 word \<Rightarrow> gaddr \<Rightarrow> nat list \<Rightarrow> 's \<Rightarrow> 's option" where
  "unlock_blocks send f start_blk [] s = Some s"
| "unlock_blocks send f start_blk (j # js) s = do {
     (_, _, s) \<leftarrow> send (lock_request UNLOCK (GADD start_blk (block_off (of_nat j))) f) s;
     unlock_blocks send f start_blk js s }"

text \<open>The lock of the first block, when it was taken.\<close>

definition unlock_first :: "'s service \<Rightarrow> 32 word \<Rightarrow> gaddr \<Rightarrow> 32 word \<Rightarrow> 's \<Rightarrow> 's option" where
  "unlock_first send f a i s =
     (if sint i \<ge> 1 then do { (_, _, s) \<leftarrow> send (lock_request UNLOCK a f) s; Some s } else Some s)"

definition gal_Lock :: "'s service \<Rightarrow> Work \<Rightarrow> gaddr \<Rightarrow> 64 word \<Rightarrow> 32 word \<Rightarrow> 's \<Rightarrow> (int \<times> 's) option" where
  "gal_Lock send op a count f s = do {
     let f = (if op = UNLOCK then set_bit ASYNC f else f);
     let start_blk = TOBLOCK a;
     let end_blk = TOBLOCK (GADD a (count - 1));
     (status, i, s) \<leftarrow> lock_loop send op f start_blk end_blk 0 a s;
     if op \<noteq> UNLOCK \<and> status \<noteq> 0
     then do {
       let uf = set_bit ASYNC f;
       s \<leftarrow> unlock_first send uf a i s;
       s \<leftarrow> unlock_blocks send uf start_blk [1 ..< nat (sint i)] s;
       Some (-1, s) }
     else Some (0, s) }"

definition gal_RLock :: "'s service \<Rightarrow> gaddr \<Rightarrow> 64 word \<Rightarrow> 's \<Rightarrow> 's option" where
  "gal_RLock send a count s = map_option snd (gal_Lock send RLOCK a count 0 s)"

definition gal_WLock :: "'s service \<Rightarrow> gaddr \<Rightarrow> 64 word \<Rightarrow> 's \<Rightarrow> 's option" where
  "gal_WLock send a count s = map_option snd (gal_Lock send WLOCK a count 0 s)"

definition Try_RLock :: "'s service \<Rightarrow> gaddr \<Rightarrow> 64 word \<Rightarrow> 's \<Rightarrow> (int \<times> 's) option" where
  "Try_RLock send a count s = gal_Lock send RLOCK a count (set_bit TRY_LOCK 0) s"

definition Try_WLock :: "'s service \<Rightarrow> gaddr \<Rightarrow> 64 word \<Rightarrow> 's \<Rightarrow> (int \<times> 's) option" where
  "Try_WLock send a count s = gal_Lock send WLOCK a count (set_bit TRY_LOCK 0) s"

definition gal_UnLock :: "'s service \<Rightarrow> gaddr \<Rightarrow> 64 word \<Rightarrow> 's \<Rightarrow> 's option" where
  "gal_UnLock send a count s = map_option snd (gal_Lock send UNLOCK a count 0 s)"

subsection \<open>What a lock over a range relies on\<close>

definition acquire :: "Work \<Rightarrow> rwlock \<Rightarrow> int \<times> rwlock" where
  "acquire op l = (if op = WLOCK then spec_wlock l else spec_rlock l)"

definition acquired :: "Work \<Rightarrow> gaddr set \<Rightarrow> (gaddr \<Rightarrow> rwlock) \<Rightarrow> gaddr \<Rightarrow> rwlock" where
  "acquired op A v = (\<lambda>b. if b \<in> A then snd (acquire op (v b)) else v b)"

lemma acquired_empty [simp]: "acquired op {} v = v"
  by (simp add: acquired_def)

lemma acquired_insert: "b \<notin> A \<Longrightarrow> (acquired op A v)(b := snd (acquire op (v b))) = acquired op (insert b A) v"
  by (auto simp: acquired_def)

lemma acquire_failed: "fst (acquire op l) \<noteq> 0 \<Longrightarrow> snd (acquire op l) = l"
  by (auto simp: acquire_def spec_wlock_def spec_rlock_def split: if_splits rwlock.splits)

lemma release_acquired:
  "fst (acquire op l) = 0 \<Longrightarrow> l \<noteq> Readers 0 \<Longrightarrow> spec_unlock (snd (acquire op l)) = l"
  by (auto simp: acquire_def spec_wlock_def spec_rlock_def spec_unlock_def split: if_splits rwlock.splits)

lemma acquire_not_Free: "fst (acquire op l) = 0 \<Longrightarrow> snd (acquire op l) \<noteq> Free"
  by (auto simp: acquire_def spec_wlock_def spec_rlock_def split: if_splits rwlock.splits)

text \<open>The addresses that a lock of \<open>count\<close> bytes at \<open>a\<close> takes, one per block.\<close>

definition adr :: "gaddr \<Rightarrow> nat \<Rightarrow> gaddr" where
  "adr a j = (if j = 0 then a else GADD (TOBLOCK a) (block_off (of_nat j)))"

definition blocks :: "gaddr \<Rightarrow> 64 word \<Rightarrow> nat" where
  "blocks a count = (unat (GADD a (count - 1)) div 4096 - unat a div 4096) + 1"

definition fits :: "gaddr \<Rightarrow> 64 word \<Rightarrow> bool" where
  "fits a count \<longleftrightarrow> 0 < count \<and> unat a + unat count + 4096 \<le> 2 ^ 64 \<and> blocks a count < 2 ^ 19"

lemma unat_block_off:
  assumes "j < 2 ^ 19"
  shows "unat (block_off (of_nat j)) = 4096 * j"
proof -
  have sint: "sint (of_nat k :: 32 word) = int k" if "k < 2 ^ 31" for k
    using that by (simp add: signed_of_nat signed_take_bit_int_eq_self_iff)
  have "block_off (of_nat j) = word_of_int (sint (of_nat (j * 4096) :: 32 word))"
    by (simp only: block_off_def scast_eq of_nat_mult of_nat_numeral)
  also have "sint (of_nat (j * 4096) :: 32 word) = int (j * 4096)" using assms by (intro sint) simp
  also have "word_of_int (int (j * 4096)) = (of_nat (4096 * j) :: 64 word)" by (simp only: of_int_of_nat_eq mult.commute)
  finally have "block_off (of_nat j) = of_nat (4096 * j)" .
  then show ?thesis using assms by (simp only: unat_of_nat) simp
qed

lemma unat_GADD: "unat a + unat b < 2 ^ 64 \<Longrightarrow> unat (GADD a b) = unat a + unat b"
  by (simp add: GADD_def unat_word_ariths)

lemma unat_range_end:
  assumes "0 < count" "unat a + unat count + 4096 \<le> 2 ^ 64"
  shows "unat (GADD a (count - 1)) = unat a + unat count - 1"
proof -
  have c: "unat (count - 1) = unat count - 1" using assms(1) unat_minus_one [of count] by (simp add: word_gt_0)
  have "0 < unat count" using assms(1) by (simp add: unat_gt_0 word_gt_0)
  then show ?thesis using assms(2) c by (simp add: GADD_def unat_word_ariths)
qed

lemma unat_adr:
  assumes "fits a count" "0 < j" "j < blocks a count"
  shows "unat (adr a j) = 4096 * (unat a div 4096 + j)"
proof -
  have e: "unat (GADD a (count - 1)) = unat a + unat count - 1" using unat_range_end assms(1) by (simp add: fits_def)
  have "unat a div 4096 + j \<le> unat (GADD a (count - 1)) div 4096" using assms(2,3) by (simp add: blocks_def)
  then have "4096 * (unat a div 4096 + j) \<le> 4096 * (unat (GADD a (count - 1)) div 4096)" by simp
  also have "\<dots> \<le> unat (GADD a (count - 1))" by simp
  finally have "4096 * (unat a div 4096 + j) \<le> unat (GADD a (count - 1))" .
  then have "4096 * (unat a div 4096 + j) < 2 ^ 64" using unsigned_less [of "GADD a (count - 1)", where 'a = nat] by simp
  moreover have "unat (block_off (of_nat j)) = 4096 * j" using unat_block_off assms by (simp add: fits_def)
  ultimately show ?thesis using assms(2) unat_GADD [of "TOBLOCK a" "block_off (of_nat j)"] unat_TOBLOCK_mult [of a] by (simp add: adr_def)
qed

lemma adr_block:
  assumes "fits a count" "j < blocks a count"
  shows "unat (adr a j) div 4096 = unat a div 4096 + j"
proof (cases "j = 0")
  case True
  then show ?thesis by (simp add: adr_def)
next
  case False
  then have "unat (adr a j) = 4096 * (unat a div 4096 + j)" using unat_adr [OF assms(1) _ assms(2)] by simp
  then show ?thesis by (metis nonzero_mult_div_cancel_left zero_neq_numeral)
qed

lemma adr_inj:
  assumes "fits a count" "j < blocks a count" "k < blocks a count"
  shows "adr a j = adr a k \<longleftrightarrow> j = k"
  using adr_block [OF assms(1,2)] adr_block [OF assms(1,3)] by (metis add_left_cancel)

text \<open>The test that ends the loop.\<close>

lemma loop_end:
  assumes "fits a count" "j \<le> blocks a count" "0 < j"
  shows "GADD (TOBLOCK a) (block_off (of_nat j)) > TOBLOCK (GADD a (count - 1)) \<longleftrightarrow> j = blocks a count"
proof -
  let ?e = "unat (GADD a (count - 1))"
  have e: "?e = unat a + unat count - 1" using unat_range_end assms(1) by (simp add: fits_def)
  have c: "0 < unat count" using assms(1) by (simp add: fits_def unat_gt_0 word_gt_0)
  have le: "unat a div 4096 \<le> ?e div 4096" using e c by (simp add: div_le_mono)
  have j: "unat a div 4096 + j \<le> ?e div 4096 + 1" using assms(2) le by (simp add: blocks_def)
  then have "4096 * (unat a div 4096 + j) \<le> 4096 * (?e div 4096 + 1)" by (rule mult_le_mono2)
  also have "\<dots> \<le> ?e + 4096" using times_div_less_eq_dividend [of 4096 ?e] by simp
  also have "\<dots> < 2 ^ 64" using e c assms(1) by (simp add: fits_def)
  finally have lt: "4096 * (unat a div 4096 + j) < 2 ^ 64" .
  have "j < 2 ^ 19" using assms(1,2) by (simp add: fits_def)
  then have n: "unat (GADD (TOBLOCK a) (block_off (of_nat j))) = 4096 * (unat a div 4096 + j)"
    using unat_block_off [of j] lt unat_GADD [of "TOBLOCK a" "block_off (of_nat j)"] unat_TOBLOCK_mult [of a] by simp
  have "GADD (TOBLOCK a) (block_off (of_nat j)) > TOBLOCK (GADD a (count - 1)) \<longleftrightarrow> ?e div 4096 < unat a div 4096 + j"
    by (simp only: word_less_nat_alt n unat_TOBLOCK_mult nat_mult_less_cancel_disj) simp
  then show ?thesis using j le by (auto simp: blocks_def)
qed

text \<open>Requests that are not replayed from a queue.\<close>

definition plain :: "32 word \<Rightarrow> bool" where
  "plain f \<longleftrightarrow> \<not> bit f TO_SERVE \<and> \<not> bit f FENCE"

lemma plain_ASYNC [simp]: "plain (set_bit ASYNC f) = plain f"
  by (simp add: plain_def bit_set_bit_iff)

text \<open>
  A service that answers try-lock requests at once as a readers-writer lock per address does, and
  takes locks back.
\<close>

locale lock_service =
  fixes send :: "'s service"
    and inv :: "'s \<Rightarrow> bool"
    and view :: "'s \<Rightarrow> gaddr \<Rightarrow> rwlock"
    and ready :: "Work \<Rightarrow> 's \<Rightarrow> gaddr \<Rightarrow> bool"
  assumes proper: "inv s \<Longrightarrow> view s a \<noteq> Readers 0"
    and try_lock: "inv s \<Longrightarrow> op = RLOCK \<or> op = WLOCK \<Longrightarrow> ready op s a \<Longrightarrow> bit f TRY_LOCK \<Longrightarrow> plain f \<Longrightarrow>
      \<exists>st wr s'. send (lock_request op a f) s = Some (st, wr, s') \<and> wr_status wr = st \<and>
        (st = 0 \<longleftrightarrow> fst (acquire op (view s a)) = 0) \<and> view s' = (view s)(a := snd (acquire op (view s a))) \<and>
        inv s' \<and> (\<forall>b. b \<noteq> a \<longrightarrow> ready op s b \<longrightarrow> ready op s' b)"
    and release: "inv s \<Longrightarrow> view s a \<noteq> Free \<Longrightarrow> plain f \<Longrightarrow>
      \<exists>st wr s'. send (lock_request UNLOCK a f) s = Some (st, wr, s') \<and>
        view s' = (view s)(a := spec_unlock (view s a)) \<and> inv s'"
begin

lemma lock_loop_run:
  assumes fit: "fits a count" and op: "op = RLOCK \<or> op = WLOCK" and f: "bit f TRY_LOCK" "plain f"
    and j: "j < blocks a count" and inv: "inv s"
    and v: "view s = acquired op (adr a ` {..<j}) v0" "\<forall>k<j. fst (acquire op (v0 (adr a k))) = 0"
    and r: "\<forall>k<blocks a count. j \<le> k \<longrightarrow> ready op s (adr a k)"
  shows "\<exists>st i s'. lock_loop send op f (TOBLOCK a) (TOBLOCK (GADD a (count - 1))) (of_nat j) (adr a j) s = Some (st, of_nat i, s') \<and>
    inv s' \<and> i \<le> blocks a count \<and> view s' = acquired op (adr a ` {..<i}) v0 \<and>
    (\<forall>k<i. fst (acquire op (v0 (adr a k))) = 0) \<and>
    (if st = 0 then i = blocks a count else i < blocks a count \<and> fst (acquire op (v0 (adr a i))) \<noteq> 0)"
  using j inv v r
proof (induction "blocks a count - j" arbitrary: j s)
  case (Suc n)
  let ?m = "blocks a count"
  obtain st wr s1 where send: "send (lock_request op (adr a j) f) s = Some (st, wr, s1)" "wr_status wr = st"
    "st = 0 \<longleftrightarrow> fst (acquire op (view s (adr a j))) = 0" "view s1 = (view s)(adr a j := snd (acquire op (view s (adr a j))))"
    "inv s1" "\<forall>b. b \<noteq> adr a j \<longrightarrow> ready op s b \<longrightarrow> ready op s1 b"
    using try_lock [OF Suc.prems(2) op _ f(1,2), of "adr a j"] Suc.prems(1,5) by blast
  have fresh: "adr a j \<notin> adr a ` {..<j}"
  proof
    assume "adr a j \<in> adr a ` {..<j}"
    then obtain k where "k < j" "adr a j = adr a k" by auto
    then show False using adr_inj [OF fit Suc.prems(1), of k] Suc.prems(1) by simp
  qed
  then have vj: "view s (adr a j) = v0 (adr a j)" using Suc.prems(3) by (simp add: acquired_def)
  show ?case
  proof (cases "st = 0")
    case False
    then have "view s1 = view s" using send(3,4) acquire_failed by (simp add: fun_upd_idem)
    then show ?thesis using False send vj Suc.prems by (auto simp: lock_loop.simps [of send] intro!: exI [of _ j])
  next
    case True
    have v1: "view s1 = acquired op (adr a ` {..<Suc j}) v0"
      using acquired_insert [OF fresh, of op v0] send(4) vj Suc.prems(3) by (simp add: lessThan_Suc)
    have suc: "of_nat j + 1 = (of_nat (Suc j) :: 32 word)" by simp
    have ok: "\<forall>k<Suc j. fst (acquire op (v0 (adr a k))) = 0" using Suc.prems(4) send(3) True vj by (auto simp: less_Suc_eq)
    show ?thesis
    proof (cases "Suc j = ?m")
      case last: True
      then have "GADD (TOBLOCK a) (block_off (of_nat j + 1)) > TOBLOCK (GADD a (count - 1))"
        using loop_end [OF fit, of "Suc j"] by (simp only: suc le_refl)
      then have "lock_loop send op f (TOBLOCK a) (TOBLOCK (GADD a (count - 1))) (of_nat j) (adr a j) s = Some (0, of_nat (Suc j), s1)"
        using send(1,2) True by (simp add: lock_loop.simps [of send] Let_def add.commute)
      then show ?thesis using v1 ok send(5) last by (intro exI [of _ 0] exI [of _ "Suc j"] exI [of _ s1]) simp
    next
      case False
      then have lt: "Suc j < ?m" using Suc.prems(1) by simp
      then have "\<not> GADD (TOBLOCK a) (block_off (of_nat j + 1)) > TOBLOCK (GADD a (count - 1))"
        using loop_end [OF fit, of "Suc j"] unfolding suc by (simp del: of_nat_Suc)
      then have step: "lock_loop send op f (TOBLOCK a) (TOBLOCK (GADD a (count - 1))) (of_nat j) (adr a j) s =
          lock_loop send op f (TOBLOCK a) (TOBLOCK (GADD a (count - 1))) (of_nat (Suc j)) (adr a (Suc j)) s1"
        using send(1,2) True by (subst lock_loop.simps) (simp add: Let_def adr_def add.commute)
      have "\<forall>k<?m. Suc j \<le> k \<longrightarrow> ready op s1 (adr a k)"
        using send(6) Suc.prems(1,5) adr_inj [OF fit _ Suc.prems(1)] by simp
      then show ?thesis unfolding step using Suc.hyps(1) [of "Suc j" s1] Suc.hyps(2) lt send(5) v1 ok by simp
    qed
  qed
qed simp

lemma give_back:
  assumes inv: "inv s" and v: "view s = acquired op A v0" and b: "b \<in> A" "fst (acquire op (v0 b)) = 0" "v0 b \<noteq> Readers 0" and f: "plain f"
  shows "\<exists>st wr s'. send (lock_request UNLOCK b f) s = Some (st, wr, s') \<and> view s' = acquired op (A - {b}) v0 \<and> inv s'"
proof -
  have vb: "view s b = snd (acquire op (v0 b))" using v b(1) by (simp add: acquired_def)
  have "view s b \<noteq> Free" using vb acquire_not_Free [OF b(2)] by simp
  moreover have "spec_unlock (view s b) = v0 b" using vb release_acquired [OF b(2,3)] by simp
  moreover have "(view s)(b := v0 b) = acquired op (A - {b}) v0" by (rule ext) (simp add: v acquired_def)
  ultimately show ?thesis using release [OF inv _ f, of b] by simp
qed

lemma unlock_blocks_run:
  assumes "inv s" "view s = acquired op (adr a ` set js) v0" "\<forall>j \<in> set js. 0 < j \<and> j < blocks a count" "distinct js" "fits a count"
    and "\<forall>j \<in> set js. fst (acquire op (v0 (adr a j))) = 0 \<and> v0 (adr a j) \<noteq> Readers 0" "plain f"
  shows "\<exists>s'. unlock_blocks send f (TOBLOCK a) js s = Some s' \<and> view s' = v0 \<and> inv s'"
  using assms
proof (induction js arbitrary: s)
  case (Cons j js)
  have "adr a j \<notin> adr a ` set js"
  proof
    assume "adr a j \<in> adr a ` set js"
    then obtain k where k: "k \<in> set js" "adr a j = adr a k" by auto
    then have "j = k" using adr_inj [OF Cons.prems(5), of j k] Cons.prems(3) by simp
    then show False using k(1) Cons.prems(4) by simp
  qed
  then have "adr a ` set (j # js) - {adr a j} = adr a ` set js" by auto
  then obtain st wr s1 where "send (lock_request UNLOCK (adr a j) f) s = Some (st, wr, s1)" "view s1 = acquired op (adr a ` set js) v0" "inv s1"
    using give_back [OF Cons.prems(1,2) _ _ _ Cons.prems(7), of "adr a j"] Cons.prems(6) by auto
  then show ?case using Cons.IH [of s1] Cons.prems(3-7) by (simp add: adr_def)
qed simp

text \<open>A try-lock over a range takes every lock or none.\<close>

lemma all_or_nothing:
  assumes fit: "fits a count" and op: "op = RLOCK \<or> op = WLOCK" and f: "bit f TRY_LOCK" "plain f"
    and inv: "inv s" and r: "\<forall>k<blocks a count. ready op s (adr a k)"
  shows "\<exists>ret s'. gal_Lock send op a count f s = Some (ret, s') \<and> inv s' \<and>
    (if \<forall>k<blocks a count. fst (acquire op (view s (adr a k))) = 0
     then ret = 0 \<and> view s' = acquired op (adr a ` {..<blocks a count}) (view s)
     else ret = -1 \<and> view s' = view s)"
proof -
  let ?m = "blocks a count" and ?v = "view s"
  have m: "0 < ?m" "?m < 2 ^ 19" using fit by (simp_all add: blocks_def fits_def)
  obtain st i s1 where loop: "lock_loop send op f (TOBLOCK a) (TOBLOCK (GADD a (count - 1))) 0 a s = Some (st, of_nat i, s1)"
    "inv s1" "i \<le> ?m" "view s1 = acquired op (adr a ` {..<i}) ?v" "\<forall>k<i. fst (acquire op (?v (adr a k))) = 0"
    "if st = 0 then i = ?m else i < ?m \<and> fst (acquire op (?v (adr a i))) \<noteq> 0"
    using lock_loop_run [OF fit op f(1,2) m(1) inv, of "view s"] r by (auto simp: adr_def)
  have nop: "op \<noteq> UNLOCK" using op by auto
  have si: "sint (of_nat i :: 32 word) = int i" using loop(3) m(2) by (simp add: signed_of_nat signed_take_bit_int_eq_self_iff)
  show ?thesis
  proof (cases "st = 0")
    case True
    then show ?thesis using loop nop by (auto simp: gal_Lock_def Let_def)
  next
    case False
    have pr: "?v b \<noteq> Readers 0" for b using proper [OF inv] .
    define uf where "uf = set_bit ASYNC f"
    have pl: "plain uf" using f(2) by (simp add: uf_def)
    have "\<exists>s2. unlock_first send uf a (of_nat i) s1 = Some s2 \<and>
        inv s2 \<and> view s2 = acquired op (adr a ` set [1 ..< i]) ?v"
    proof (cases "i = 0")
      case True
      then show ?thesis using loop(2,4) by (simp add: unlock_first_def)
    next
      case i: False
      have a: "adr a 0 = a" by (simp add: adr_def)
      have "k \<in> {..<i} \<Longrightarrow> adr a k = a \<longleftrightarrow> k = 0" for k using adr_inj [OF fit, of k 0] loop(3) m(1) a by simp
      then have "adr a ` {..<i} - {a} = adr a ` set [1 ..< i]" using i by (auto simp: Suc_le_eq)
      moreover have "a \<in> adr a ` {..<i}" using i a by force
      ultimately show ?thesis using give_back [OF loop(2,4) _ _ _ pl, of a] loop(5) i a pr pl si by (force simp: unlock_first_def)
    qed
    then obtain s2 where s2: "unlock_first send uf a (of_nat i) s1 = Some s2" "inv s2" "view s2 = acquired op (adr a ` set [1 ..< i]) ?v" by blast
    obtain s3 where s3: "unlock_blocks send uf (TOBLOCK a) [1 ..< i] s2 = Some s3" "view s3 = ?v" "inv s3"
      using unlock_blocks_run [OF s2(2,3) _ _ fit _ pl] loop(3,5) pr by auto
    have "gal_Lock send op a count f s = Some (-1, s3)"
      using loop(1) nop False s2(1) s3(1) by (simp add: gal_Lock_def Let_def si uf_def)
    moreover have "\<not> (\<forall>k<?m. fst (acquire op (?v (adr a k))) = 0)" using loop(6) False by auto
    ultimately show ?thesis using s3 by auto
  qed
qed

end

subsection \<open>The worker as a lock service\<close>

definition lock_service_view :: "Worker \<Rightarrow> gaddr \<Rightarrow> rwlock" where
  "lock_service_view w a = (if IsLocal w a then dir_view (w_dir w) (ToLocal w a) else Free)"

text \<open>
  A home node on which the calling thread has no fence pending and nobody waits for a block: then locks
  of its own blocks are granted or refused at once.
\<close>

definition home_quiet :: "WorkerHandle \<Rightarrow> Worker \<Rightarrow> bool" where
  "home_quiet h w \<longleftrightarrow> dir_wf (w_dir w) \<and> BLOCK_ALIGNED (w_base w) \<and>
     (\<exists>f. fences w (wh_fd h) = Some f \<and> \<not> mfenced f \<and> \<not> sfenced f \<and> pending_writes f = 0) \<and>
     (\<forall>b. to_serve_local_requests w b = None \<and> to_serve_requests w b = None)"

definition home_ready :: "Work \<Rightarrow> Worker \<Rightarrow> gaddr \<Rightarrow> bool" where
  "home_ready op w a \<longleftrightarrow> IsLocal w a \<and>
     (if op = WLOCK then dir_wready (w_dir w) (ToLocal w a) else dir_rready (w_dir w) (ToLocal w a))"

lemma dir_view_proper:
  assumes "dir_wf d"
  shows "dir_view d p \<noteq> Readers 0"
proof (cases "d (TOBLOCK p)")
  case (Some e)
  have "locks_wf (d_locks e)" using dir_wfD [OF assms Some] by (simp add: entry_wf_def)
  then have "map_of (d_locks e) p = Some n \<Longrightarrow> 0 < n" for n using map_of_SomeD by (fastforce simp: locks_wf_def)
  then show ?thesis using Some by (auto simp: dir_view_def lock_view_def split: option.split)
qed (simp add: dir_view_def)

lemma TOBLOCK_ToLocal:
  assumes "BLOCK_ALIGNED (w_base w)"
  shows "ToLocal w (TOBLOCK a) = TOBLOCK (ToLocal w a)"
proof -
  have b: "unat (w_base w) mod 4096 = 0" using assms by (simp add: BLOCK_ALIGNED_mod)
  have "unat (OFF a + w_base w) mod 4096 = (unat (OFF a) + unat (w_base w)) mod 4096"
    by (simp add: unat_word_ariths mod_mod_cancel)
  also have "\<dots> = unat (OFF a) mod 4096" using b by (metis add.right_neutral mod_add_right_eq)
  finally have t: "take_bit 12 (OFF a + w_base w) = take_bit 12 (OFF a)"
    by (simp only: word_unat_eq_iff unat_take_bit_12)
  have o: "OFF (TOBLOCK a) = TOBLOCK (OFF a)" by (simp add: OFF_def TOBLOCK_def ac_simps)
  show ?thesis unfolding ToLocal_def TO_LOCAL_def o by (simp add: TOBLOCK_eq t)
qed

lemma ToLocal_inj: "IsLocal w a \<Longrightarrow> IsLocal w b \<Longrightarrow> ToLocal w a = ToLocal w b \<longleftrightarrow> a = b"
  unfolding ToLocal_def IsLocal_def by (metis TO_GLOB_TO_LOCAL)

lemma dir_lock_by_entry:
  "(case dir_GetEntry d (TOBLOCK p) of Some e \<Rightarrow> dir_WLock_entry e p d | None \<Rightarrow> dir_WLock d p) = dir_WLock d p"
  "(case dir_GetEntry d (TOBLOCK p) of Some e \<Rightarrow> dir_RLock_entry e p d | None \<Rightarrow> dir_RLock d p) = dir_RLock d p"
  by (simp_all add: dir_WLock_def dir_RLock_def Let_def split: option.split)

lemma local_fence_passed:
  assumes "home_quiet h w" "wrs w r = Some x" "wr_fd x = wh_fd h"
  shows "lock_fence r w = Some (Inr w)"
  using assms by (auto simp: lock_fence_def home_quiet_def IsFenced_def)

text \<open>The worker while it processes a request, and after it.\<close>

definition in_call :: "WorkerHandle \<Rightarrow> WorkRequest \<Rightarrow> Worker \<Rightarrow> Worker" where
  "in_call h wr w = snd (wr_new ((set_flg LOCAL_REQUEST wr) \<lparr> wr_fd := wh_fd h, wr_notify_buf := wh_notify h \<rparr>)
     (w \<lparr> notified := (notified w)(wh_notify h := 1) \<rparr>))"

lemma in_call_quiet: "home_quiet h w \<Longrightarrow> home_quiet h (in_call h wr w)"
  by (simp add: home_quiet_def in_call_def wr_new_def)

definition dir_lock :: "Work \<Rightarrow> Directory \<Rightarrow> ptr \<Rightarrow> int \<times> Directory" where
  "dir_lock op d p = (if op = WLOCK then dir_WLock d p else dir_RLock d p)"

lemma lock_answered:
  assumes x: "wrs w r = Some x" "flg TRY_LOCK x" "plain (wr_flag x)" "wr_counter x = 0"
    and c: "c = count_read \<or> c = count_write"
  shows "\<exists>st. unless_early
      (case res of (ret, d) \<Rightarrow> (let w = w \<lparr> w_dir := d \<rparr> in if ret \<noteq> 0 then retry_lock blk r w else Some (Inr w)))
      (\<lambda>w. unless_pending r w (finish_hit c NT r)) =
    Some (SUCCESS, w \<lparr> w_dir := snd res, wrs := (wrs w)(r \<mapsto> (if fst res = 0 then x else x \<lparr> wr_status := LOCK_FAILED \<rparr>)), w_stats := st \<rparr>)"
proof -
  have f: "\<not> flg TO_SERVE x" "\<not> flg FENCE x" using x(3) by (simp_all add: plain_def flg_def)
  obtain ret d where res: "res = (ret, d)" by fastforce
  have done_: "\<exists>st. unless_pending r v (finish_hit c NT r) = Some (SUCCESS, v \<lparr> w_stats := st \<rparr>)"
    if "wrs v r = Some y" "wr_flag y = wr_flag x" "wr_counter y = 0" for v y
    using that f c by (auto simp: unless_pending_def finish_hit_def count_read_def count_write_def upd_stats_def flg_def)
  show ?thesis
  proof (cases "ret = 0")
    case True
    then show ?thesis using done_ [of "w \<lparr> w_dir := d \<rparr>" x] x(1,4) res
      by (auto simp: unless_early_def fun_upd_idem)
  next
    case False
    let ?v = "w \<lparr> w_dir := d, wrs := (wrs w)(r \<mapsto> x \<lparr> wr_status := LOCK_FAILED \<rparr>) \<rparr>"
    have "retry_lock blk r (w \<lparr> w_dir := d \<rparr>) = Some (Inr ?v)" using x(1,2) by (simp add: retry_lock_def wr_upd_def)
    then show ?thesis using done_ [of ?v "x \<lparr> wr_status := LOCK_FAILED \<rparr>"] x(4) res False by (auto simp: unless_early_def)
  qed
qed

lemma lock_at_home:
  assumes q: "home_quiet h w" and x: "wrs w r = Some x" "wr_op x = op" "wr_fd x = wh_fd h" "flg TRY_LOCK x" "plain (wr_flag x)"
    "wr_counter x = 0"
    and op: "op = RLOCK \<or> op = WLOCK" and a: "home_ready op w (wr_addr x)"
  shows "\<exists>st. ProcessLocalRequest NT TS r w = Some (SUCCESS, w \<lparr> w_dir := snd (dir_lock op (w_dir w) (ToLocal w (wr_addr x))),
    wrs := (wrs w)(r \<mapsto> (if fst (dir_lock op (w_dir w) (ToLocal w (wr_addr x))) = 0 then x else x \<lparr> wr_status := LOCK_FAILED \<rparr>)), w_stats := st \<rparr>)"
proof -
  let ?p = "ToLocal w (wr_addr x)" and ?blk = "TOBLOCK (wr_addr x)"
  have b: "ToLocal w ?blk = TOBLOCK ?p" using q TOBLOCK_ToLocal by (simp add: home_quiet_def)
  have f: "lock_fence r w = Some (Inr w)" using local_fence_passed [OF q x(1,3)] .
  have l: "IsLocal w (wr_addr x)" using a by (simp add: home_ready_def)
  show ?thesis
  proof (cases "op = WLOCK")
    case True
    then have s: "dir_GetState (dir_GetEntry (w_dir w) (TOBLOCK ?p)) = DIR_UNSHARED"
      using a by (simp add: home_ready_def dir_wready_def dir_GetState_ptr_def dir_GetEntry_def dir_GetState_def)
    then have "local_wlock NT r w = unless_early
      (case dir_WLock (w_dir w) ?p of (ret, d) \<Rightarrow> (let w = w \<lparr> w_dir := d \<rparr> in if ret \<noteq> 0 then retry_lock ?blk r w else Some (Inr w)))
      (\<lambda>w. unless_pending r w (finish_hit count_write NT r))"
      using x(1) by (simp add: local_wlock_def b dir_lock_by_entry Let_def dir_InTransition_def)
    then show ?thesis using lock_answered [OF x(1,4,5,6), where c = count_write and res = "dir_WLock (w_dir w) ?p" and blk = ?blk and NT = NT] f l True x(1,2)
      by (simp add: ProcessLocalRequest_def ProcessLocalWLock_def unless_early_def dir_lock_def)
  next
    case False
    then have s: "\<not> dir_InTransition (dir_GetState (dir_GetEntry (w_dir w) (TOBLOCK ?p)))" "dir_GetState (dir_GetEntry (w_dir w) (TOBLOCK ?p)) \<noteq> DIR_DIRTY"
      using a by (simp_all add: home_ready_def dir_rready_def dir_GetState_ptr_def dir_InTransition_ptr_def dir_GetEntry_def dir_GetState_def dir_InTransition_def split: option.splits)
    then have "local_rlock NT r w = unless_early
      (case dir_RLock (w_dir w) ?p of (ret, d) \<Rightarrow> (let w = w \<lparr> w_dir := d \<rparr> in if ret \<noteq> 0 then retry_lock ?blk r w else Some (Inr w)))
      (\<lambda>w. unless_pending r w (finish_hit count_read NT r))"
      using x(1) by (simp add: local_rlock_def b dir_lock_by_entry Let_def)
    then show ?thesis using lock_answered [OF x(1,4,5,6), where c = count_read and res = "dir_RLock (w_dir w) ?p" and blk = ?blk and NT = NT] f l False op x(1,2)
      by (simp add: ProcessLocalRequest_def ProcessLocalRLock_def unless_early_def dir_lock_def)
  qed
qed

lemma unlock_at_home:
  assumes q: "home_quiet h w" and x: "wrs w r = Some x" "wr_op x = UNLOCK" "wr_fd x = wh_fd h" "plain (wr_flag x)"
    and a: "IsLocal w (wr_addr x)"
  shows "ProcessLocalRequest NT (to_serve (Suc n)) r w =
    Some (SUCCESS, w \<lparr> w_dir := dir_UnLock (w_dir w) (ToLocal w (wr_addr x)) \<rparr>)"
proof -
  have f: "\<not> flg TO_SERVE x" "\<not> flg FENCE x" using x(4) by (simp_all add: plain_def flg_def)
  let ?w = "w \<lparr> w_dir := dir_UnLock (w_dir w) (ToLocal w (wr_addr x)) \<rparr>"
  have "to_serve (Suc n) r ?w = Some ?w"
    using q x(1) by (simp add: to_serve_def ProcessToServeRequest_def home_quiet_def Let_def split: prod.split)
  then show ?thesis using local_fence_passed [OF q x(1,3)] x a f
    by (simp add: ProcessLocalRequest_def ProcessLocalUnLock_def unless_early_def on_dir_def Let_def finish_def notify_if_queued_def)
qed

lemma dir_lock_state:
  assumes "dir_wf d"
  shows "dir_GetState_ptr (snd (dir_lock op d p)) q = dir_GetState_ptr d q \<and>
    dir_InTransition_ptr (snd (dir_lock op d p)) q = dir_InTransition_ptr d q"
proof (cases "d (TOBLOCK p)")
  case None
  then show ?thesis
    by (simp add: dir_lock_def dir_WLock_def dir_RLock_def dir_GetEntry_def Let_def put_entry_def new_DirEntry_def
        dir_GetState_ptr_def dir_InTransition_ptr_def)
next
  case (Some e)
  have "d_addr e = TOBLOCK p" using dir_wfD [OF assms Some] by simp
  then show ?thesis using Some
    by (simp add: dir_lock_def dir_WLock_def dir_RLock_def dir_WLock_entry_def dir_RLock_entry_def dir_GetEntry_def Let_def
        put_entry_def dir_GetState_ptr_def dir_InTransition_ptr_def)
qed

lemma dir_lock_ok:
  assumes "dir_wf d" "if op = WLOCK then dir_wready d p else dir_rready d p" "op = RLOCK \<or> op = WLOCK"
  shows "dir_wf (snd (dir_lock op d p))" "fst (dir_lock op d p) = fst (acquire op (dir_view d p))"
    "dir_view (snd (dir_lock op d p)) = (dir_view d)(p := snd (acquire op (dir_view d p)))"
  using assms dirlock.wlock_inv dirlock.rlock_inv dirlock.wlock_view dirlock.rlock_view
  by (auto simp: dir_lock_def acquire_def)

text \<open>Everything but the directory that a lock looks at.\<close>

definition same_home :: "Worker \<Rightarrow> Worker \<Rightarrow> bool" where
  "same_home w v \<longleftrightarrow> w_id v = w_id w \<and> w_base v = w_base w \<and> fences v = fences w \<and>
     to_serve_local_requests v = to_serve_local_requests w \<and> to_serve_requests v = to_serve_requests w"

lemma same_home_local: "same_home w v \<Longrightarrow> IsLocal v a = IsLocal w a \<and> ToLocal v a = ToLocal w a"
  by (simp add: same_home_def IsLocal_def ToLocal_def)

lemma same_home_quiet: "same_home w v \<Longrightarrow> home_quiet h w \<Longrightarrow> dir_wf (w_dir v) \<Longrightarrow> home_quiet h v"
  by (simp add: same_home_def home_quiet_def)

lemma same_home_view:
  assumes "same_home w v" "IsLocal w a" "dir_view (w_dir v) = (dir_view (w_dir w))(ToLocal w a := l)"
  shows "lock_service_view v = (lock_service_view w)(a := l)"
  using assms same_home_local [OF assms(1)] ToLocal_inj [OF _ assms(2)] by (auto simp: lock_service_view_def)

lemma send_in_call:
  "SendRequest n wait h wr w = do {
     (ret, v) \<leftarrow> ProcessLocalRequest (notify n) (to_serve n) (next_wr w) (in_call h wr w);
     wr \<leftarrow> wrs v (next_wr w);
     if ret \<noteq> 0 \<and> flg ASYNC wr then Some (SUCCESS, wr, wr_del (next_wr w) v)
     else do {
       v \<leftarrow> (if ret \<noteq> 0 then wait (wh_notify h) v else Some v);
       wr \<leftarrow> wrs v (next_wr w);
       Some (wr_status wr, wr, wr_del (next_wr w) v) } }"
  by (simp add: SendRequest_def in_call_def wr_new_def Let_def cong del: if_weak_cong)

lemma send_lock:
  assumes q: "home_quiet h w" and op: "op = RLOCK \<or> op = WLOCK" and a: "home_ready op w a" and f: "bit f TRY_LOCK" "plain f"
  shows "\<exists>st wr v. SendRequest n wait h (lock_request op a f) w = Some (st, wr, v) \<and> wr_status wr = st \<and> same_home w v \<and>
    (st = 0 \<longleftrightarrow> fst (dir_lock op (w_dir w) (ToLocal w a)) = 0) \<and> w_dir v = snd (dir_lock op (w_dir w) (ToLocal w a))"
proof -
  let ?wr = "lock_request op a f" and ?r = "next_wr w"
  let ?x = "(set_flg LOCAL_REQUEST ?wr) \<lparr> wr_fd := wh_fd h, wr_notify_buf := wh_notify h \<rparr>"
  let ?w = "in_call h ?wr w" and ?res = "dir_lock op (w_dir w) (ToLocal w a)"
  have x: "wrs ?w ?r = Some ?x" "wr_op ?x = op" "wr_fd ?x = wh_fd h" "flg TRY_LOCK ?x" "plain (wr_flag ?x)" "wr_counter ?x = 0" "wr_addr ?x = a" "wr_status ?x = 0"
    using f by (simp_all add: in_call_def wr_new_def lock_request_def new_WorkRequest_def set_flg_def flg_def plain_def bit_set_bit_iff)
  have w: "w_dir ?w = w_dir w" "ToLocal ?w a = ToLocal w a" "same_home w ?w"
    by (simp_all add: in_call_def wr_new_def ToLocal_def same_home_def)
  have r: "home_ready op ?w (wr_addr ?x)" using a same_home_local [OF w(3), of a] unfolding home_ready_def x(7) w(1,2) by simp
  obtain st where p: "ProcessLocalRequest (notify n) (to_serve n) ?r ?w = Some (SUCCESS, ?w \<lparr> w_dir := snd ?res,
      wrs := (wrs ?w)(?r \<mapsto> (if fst ?res = 0 then ?x else ?x \<lparr> wr_status := LOCK_FAILED \<rparr>)), w_stats := st \<rparr>)"
    using lock_at_home [OF in_call_quiet [OF q] x(1-6) op r] unfolding x(7) w(1,2) by blast
  show ?thesis unfolding send_in_call p using x(8) w(3) by (cases "fst ?res = 0") (auto simp: wr_del_def same_home_def)
qed

lemma send_unlock:
  assumes q: "home_quiet h w" and a: "IsLocal w a" and f: "plain f"
  shows "\<exists>st wr v. SendRequest (Suc n) wait h (lock_request UNLOCK a f) w = Some (st, wr, v) \<and> same_home w v \<and>
    w_dir v = dir_UnLock (w_dir w) (ToLocal w a)"
proof -
  let ?wr = "lock_request UNLOCK a f" and ?r = "next_wr w"
  let ?x = "(set_flg LOCAL_REQUEST ?wr) \<lparr> wr_fd := wh_fd h, wr_notify_buf := wh_notify h \<rparr>"
  let ?w = "in_call h ?wr w"
  have x: "wrs ?w ?r = Some ?x" "wr_op ?x = UNLOCK" "wr_fd ?x = wh_fd h" "plain (wr_flag ?x)" "wr_addr ?x = a"
    using f by (simp_all add: in_call_def wr_new_def lock_request_def new_WorkRequest_def set_flg_def plain_def bit_set_bit_iff)
  have w: "w_dir ?w = w_dir w" "ToLocal ?w a = ToLocal w a" "same_home w ?w"
    by (simp_all add: in_call_def wr_new_def ToLocal_def same_home_def)
  have "IsLocal ?w (wr_addr ?x)" using a same_home_local [OF w(3), of a] unfolding x(5) by simp
  from unlock_at_home [OF in_call_quiet [OF q] x(1-4) this, of "notify (Suc n)" n]
  have p: "ProcessLocalRequest (notify (Suc n)) (to_serve (Suc n)) ?r ?w =
      Some (SUCCESS, ?w \<lparr> w_dir := dir_UnLock (w_dir w) (ToLocal w a) \<rparr>)" unfolding x(5) w(1,2) .
  show ?thesis unfolding send_in_call p using x(1) w(3) by (auto simp: wr_del_def same_home_def)
qed

interpretation home: lock_service "SendRequest (Suc n) wait h" "home_quiet h" lock_service_view home_ready for n wait h
proof
  fix w a assume "home_quiet h w"
  then show "lock_service_view w a \<noteq> Readers 0"
    using dir_view_proper by (auto simp: lock_service_view_def home_quiet_def)
next
  fix w op a f assume q: "home_quiet h w" and op: "op = RLOCK \<or> op = WLOCK" and a: "home_ready op w a" and f: "bit f TRY_LOCK" "plain f"
  let ?p = "ToLocal w a"
  have d: "dir_wf (w_dir w)" "if op = WLOCK then dir_wready (w_dir w) ?p else dir_rready (w_dir w) ?p" "IsLocal w a"
    using q a by (auto simp: home_quiet_def home_ready_def)
  note ok = dir_lock_ok [OF d(1,2) op]
  obtain st wr v where v: "SendRequest (Suc n) wait h (lock_request op a f) w = Some (st, wr, v)" "wr_status wr = st" "same_home w v"
    "st = 0 \<longleftrightarrow> fst (dir_lock op (w_dir w) ?p) = 0" "w_dir v = snd (dir_lock op (w_dir w) ?p)"
    using send_lock [OF q op a f, of "Suc n" wait] by blast
  have vw: "lock_service_view w a = dir_view (w_dir w) ?p" using d(3) by (simp add: lock_service_view_def)
  have "home_ready op v b" if "b \<noteq> a" "home_ready op w b" for b
  proof -
    have "dir_view (w_dir v) (ToLocal w b) = dir_view (w_dir w) (ToLocal w b)"
      using ok(3) v(5) ToLocal_inj [of w b a] that d(3) by (simp add: home_ready_def)
    then show ?thesis using that(2) same_home_local [OF v(3), of b] dir_lock_state [OF d(1), of op ?p "ToLocal w b"] v(5)
      by (cases "op = WLOCK") (simp_all add: home_ready_def dir_wready_def dir_rready_def)
  qed
  moreover have "home_quiet h v" using same_home_quiet [OF v(3) q] ok(1) v(5) by simp
  moreover have "lock_service_view v = (lock_service_view w)(a := snd (acquire op (lock_service_view w a)))"
    using same_home_view [OF v(3) d(3)] ok(3) v(5) vw by simp
  ultimately show "\<exists>st wr s'. SendRequest (Suc n) wait h (lock_request op a f) w = Some (st, wr, s') \<and> wr_status wr = st \<and>
      (st = 0) = (fst (acquire op (lock_service_view w a)) = 0) \<and>
      lock_service_view s' = (lock_service_view w)(a := snd (acquire op (lock_service_view w a))) \<and>
      home_quiet h s' \<and> (\<forall>b. b \<noteq> a \<longrightarrow> home_ready op w b \<longrightarrow> home_ready op s' b)"
    using v ok(2) vw by auto
next
  fix w a f assume q: "home_quiet h w" and a: "lock_service_view w a \<noteq> Free" and f: "plain f"
  have l: "IsLocal w a" "dir_uready (w_dir w) (ToLocal w a)" "dir_wf (w_dir w)"
    using a q by (auto simp: lock_service_view_def dir_uready_def home_quiet_def split: if_splits)
  obtain st wr v where v: "SendRequest (Suc n) wait h (lock_request UNLOCK a f) w = Some (st, wr, v)" "same_home w v"
    "w_dir v = dir_UnLock (w_dir w) (ToLocal w a)" using send_unlock [OF q l(1) f] by blast
  then show "\<exists>st wr s'. SendRequest (Suc n) wait h (lock_request UNLOCK a f) w = Some (st, wr, s') \<and>
      lock_service_view s' = (lock_service_view w)(a := spec_unlock (lock_service_view w a)) \<and> home_quiet h s'"
    using same_home_view [OF v(2) l(1)] same_home_quiet [OF v(2) q] dirlock.unlock_view [OF l(3,2)] dirlock.unlock_inv [OF l(3,2)] l(1)
    by (auto simp: lock_service_view_def)
qed

subsection \<open>Locking a range\<close>

text \<open>
  C26: A try-lock of a range that spans several blocks (\<open>GAlloc::Try_RLock\<close>, \<open>GAlloc::Try_WLock\<close>), on the
  home node of the range and with no other request waiting, is all or nothing: the call returns \<open>0\<close> with
  every block of the range locked when each of them could be locked, and \<open>-1\<close> with every lock of the node
  as it was before the call otherwise.
\<close>

theorem try_lock_all_or_nothing:
  assumes "home_quiet h w" "fits a count" "op = RLOCK \<or> op = WLOCK"
    and "\<forall>k<blocks a count. home_ready op w (adr a k)"
  shows "\<exists>ret w'. (if op = WLOCK then Try_WLock else Try_RLock) (SendRequest (Suc n) wait h) a count w = Some (ret, w') \<and>
    home_quiet h w' \<and>
    (if \<forall>k<blocks a count. fst (acquire op (lock_service_view w (adr a k))) = 0
     then ret = 0 \<and> lock_service_view w' = acquired op (adr a ` {..<blocks a count}) (lock_service_view w)
     else ret = -1 \<and> lock_service_view w' = lock_service_view w)"
proof -
  have "bit (set_bit TRY_LOCK 0 :: 32 word) TRY_LOCK" "plain (set_bit TRY_LOCK 0)"
    by (simp_all add: plain_def bit_set_bit_iff)
  note run = home.all_or_nothing [OF assms(2,3) this assms(1,4), of n wait]
  have "(if op = WLOCK then Try_WLock else Try_RLock) (SendRequest (Suc n) wait h) a count w =
      gal_Lock (SendRequest (Suc n) wait h) op a count (set_bit TRY_LOCK 0) w"
    using assms(3) by (auto simp: Try_RLock_def Try_WLock_def)
  then show ?thesis using run by (simp only:)
qed

text \<open>A thread of worker \<open>1\<close>, where another thread holds the write lock of the object at \<open>0x3000\<close>.\<close>

definition demo_handle :: WorkerHandle where
  "demo_handle = \<lparr> wh_fd = 5, wh_notify = 0x7000 \<rparr>"

definition demo_locked :: Worker where
  "demo_locked = demo_worker \<lparr> fences := [5 \<mapsto> new_Fence],
     w_dir := [0x3000 \<mapsto> \<lparr> d_state = DIR_UNSHARED, d_shared = [], d_addr = 0x3000, d_locks = [(0x3000, EXCLUSIVE_LOCK_TAG)] \<rparr>] \<rparr>"

theorem try_lock_all_or_nothing_witness:
  "map_option (\<lambda>(ret, w). (ret, lock_service_view w 0x1000000002FF0, lock_service_view w 0x1000000003000))
     (Try_RLock (SendRequest 1 (\<lambda>_. Some) demo_handle) 0x1000000002FF0 32 demo_locked) = Some (-1, Free, Writer)"
proof -
  have b: "blocks 0x1000000002FF0 32 = 2" by (simp add: blocks_def GADD_def)
  have a: "adr 0x1000000002FF0 0 = 0x1000000002FF0" "adr 0x1000000002FF0 (Suc 0) = 0x1000000003000"
    by (simp_all add: adr_def block_off_def addr_defs)
  have q: "home_quiet demo_handle demo_locked"
    by (simp add: home_quiet_def demo_locked_def demo_handle_def demo_defs new_Fence_def dir_wf_def entry_wf_def locks_wf_def
        locks_in_def EXCLUSIVE_LOCK_TAG_def BLOCK_ALIGNED_def addr_defs)
  have f: "fits 0x1000000002FF0 32" by (simp add: fits_def b)
  let ?e = "\<lparr> d_state = DIR_UNSHARED, d_shared = [], d_addr = 0x3000, d_locks = [(0x3000, EXCLUSIVE_LOCK_TAG)] \<rparr> :: DirEntry"
  have w: "w_dir demo_locked = [0x3000 \<mapsto> ?e]" "IsLocal demo_locked 0x1000000002FF0" "IsLocal demo_locked 0x1000000003000"
    "ToLocal demo_locked 0x1000000002FF0 = 0x2FF0" "ToLocal demo_locked 0x1000000003000 = 0x3000"
    by (simp_all add: demo_locked_def demo_defs addr_defs)
  have t: "TOBLOCK 0x2FF0 = 0x2000" "TOBLOCK 0x3000 = 0x3000" by (simp_all add: addr_defs)
  have v: "lock_service_view demo_locked 0x1000000002FF0 = Free" "lock_service_view demo_locked 0x1000000003000 = Writer"
    by (simp_all add: lock_service_view_def w t dir_view_def lock_view_def)
  have r: "\<forall>k<blocks 0x1000000002FF0 32. home_ready RLOCK demo_locked (adr 0x1000000002FF0 k)"
    by (simp add: b a All_less_Suc numeral_2_eq_2 home_ready_def w t dir_rready_def
        dir_InTransition_ptr_def dir_GetState_ptr_def dir_view_def lock_view_def)
  have "\<not> (\<forall>k<blocks 0x1000000002FF0 32. fst (acquire RLOCK (lock_service_view demo_locked (adr 0x1000000002FF0 k))) = 0)"
    by (simp add: b a v All_less_Suc numeral_2_eq_2 acquire_def spec_rlock_def)
  with try_lock_all_or_nothing [OF q f _ r, of 0 "\<lambda>_. Some"]
  obtain w' where "Try_RLock (SendRequest 1 (\<lambda>_. Some) demo_handle) 0x1000000002FF0 32 demo_locked = Some (-1, w')"
    "lock_service_view w' = lock_service_view demo_locked" by (auto simp only: One_nat_def Work.simps simp_thms if_False)
  then show ?thesis using v by simp
qed

end
