(* ===== verification/Home_Invariant.thy ===== *)
theory Home_Invariant
  imports Coherence
begin

text \<open>
  The state of a home node stays well typed: whatever a known node asks for, the entries of the directory
  keep the shape their state prescribes, every sharer is a node the home can reach, and no live
  request is overwritten. It is the condition \<open>home_ok\<close> the lemmas of \<open>Coherence\<close> start from.
\<close>

subsection \<open>What a step may change\<close>

text \<open>Sharers of a block after a step: those before it and possibly \<open>g\<close>.\<close>

definition sharers_from :: "gaddr \<Rightarrow> Directory \<Rightarrow> Directory \<Rightarrow> bool" where
  "sharers_from g d d' \<longleftrightarrow>
     (\<forall>p e'. d' p = Some e' \<longrightarrow> (\<forall>a \<in> set (d_shared e'). a = g \<or> (\<exists>e. d p = Some e \<and> a \<in> set (d_shared e))))"

lemma sharers_from_refl [simp]: "sharers_from g d d"
  by (auto simp: sharers_from_def)

lemma sharers_from_put:
  "(\<And>a. a \<in> set (d_shared e') \<Longrightarrow> a = g \<or> (\<exists>e. d (d_addr e') = Some e \<and> a \<in> set (d_shared e))) \<Longrightarrow> sharers_from g d (put_entry e' d)"
  by (auto simp: sharers_from_def put_entry_def split: if_splits)

lemma sharers_from_erase: "sharers_from g d (erase_entry e d)"
  by (auto simp: sharers_from_def erase_entry_def split: if_splits)

lemma home_ok_step:
  assumes "home_ok w" "dir_wf (w_dir w')" "heap_ok w'" "widCliMap w' = widCliMap w" "known w g" "sharers_from g (w_dir w) (w_dir w')"
  shows "home_ok w'"
proof -
  have "known w' a = known w a" for a using assms(4) by (simp add: known_def)
  then show ?thesis using assms by (fastforce simp: home_ok_def sharers_from_def)
qed

lemma home_ok_same:
  assumes "home_ok w" "w_dir w' = w_dir w" "heap_ok w'" "widCliMap w' = widCliMap w"
  shows "home_ok w'"
proof -
  have "known w' a = known w a" for a using assms(4) by (simp add: known_def)
  then show ?thesis using assms by (auto simp: home_ok_def)
qed

subsection \<open>The operations of the directory, as the handlers call them\<close>

lemma ToShared_keeps:
  assumes "dir_wf d" "dir_guard (OpToShared p g :: unit dir_op) d"
  shows "dir_wf ((case dir_GetEntry d p of Some e \<Rightarrow> dir_ToShared_entry e g | None \<Rightarrow> dir_ToShared p g) d)"
    "sharers_from g d ((case dir_GetEntry d p of Some e \<Rightarrow> dir_ToShared_entry e g | None \<Rightarrow> dir_ToShared p g) d)"
proof -
  have e: "(case dir_GetEntry d p of Some e \<Rightarrow> dir_ToShared_entry e g | None \<Rightarrow> dir_ToShared p g) d = dir_exec (OpToShared p g :: unit dir_op) d"
    by (simp add: dir_GetEntry_def dir_ToShared_def TOBLOCK_idem split: option.split)
  show "dir_wf ((case dir_GetEntry d p of Some e \<Rightarrow> dir_ToShared_entry e g | None \<Rightarrow> dir_ToShared p g) d)"
    unfolding e by (rule sharing_op_wf [OF assms]) simp
  have "sharers_from g d (dir_ToShared p g d)"
    using assms by (auto simp: dir_ToShared_def dir_ToShared_entry_def dir_GetEntry_def TOBLOCK_idem Let_def new_DirEntry_def
        dir_wf_def split: option.splits intro!: sharers_from_put)
  then show "sharers_from g d ((case dir_GetEntry d p of Some e \<Rightarrow> dir_ToShared_entry e g | None \<Rightarrow> dir_ToShared p g) d)"
    unfolding e by simp
qed

lemma ToDirty_keeps:
  assumes "dir_wf d" "dir_guard (OpToDirty p g :: unit dir_op) d"
  shows "dir_wf ((case dir_GetEntry d p of Some e \<Rightarrow> dir_ToDirty_entry e g | None \<Rightarrow> dir_ToDirty p g) d)"
    "sharers_from g d ((case dir_GetEntry d p of Some e \<Rightarrow> dir_ToDirty_entry e g | None \<Rightarrow> dir_ToDirty p g) d)"
proof -
  have e: "(case dir_GetEntry d p of Some e \<Rightarrow> dir_ToDirty_entry e g | None \<Rightarrow> dir_ToDirty p g) d = dir_exec (OpToDirty p g :: unit dir_op) d"
    by (simp add: dir_GetEntry_def dir_ToDirty_def TOBLOCK_idem split: option.split)
  show "dir_wf ((case dir_GetEntry d p of Some e \<Rightarrow> dir_ToDirty_entry e g | None \<Rightarrow> dir_ToDirty p g) d)"
    unfolding e by (rule sharing_op_wf [OF assms]) simp
  have "sharers_from g d (dir_ToDirty p g d)"
    by (auto simp: dir_ToDirty_def dir_ToDirty_entry_def Let_def new_DirEntry_def split: option.splits intro!: sharers_from_put)
  then show "sharers_from g d ((case dir_GetEntry d p of Some e \<Rightarrow> dir_ToDirty_entry e g | None \<Rightarrow> dir_ToDirty p g) d)"
    unfolding e by simp
qed

lemma transit_keeps:
  assumes "dir_wf d" "d (TOBLOCK p) = Some e"
  shows "d_state e = DIR_DIRTY \<Longrightarrow> dir_wf (dir_ToToShared_entry e d)" "sharers_from g d (dir_ToToShared_entry e d)"
    "d_state e \<in> {DIR_DIRTY, DIR_SHARED} \<Longrightarrow> d_locks e = [] \<Longrightarrow> dir_wf (dir_ToToDirty_entry e d)" "sharers_from g d (dir_ToToDirty_entry e d)"
proof -
  have a: "d_addr e = TOBLOCK p" using dir_wfD [OF assms] by simp
  show "d_state e = DIR_DIRTY \<Longrightarrow> dir_wf (dir_ToToShared_entry e d)"
    using sharing_op_wf [OF assms(1), of "OpToToShared p :: unit dir_op"] assms(2)
    by (simp add: dir_ToToShared_def dir_GetEntry_def TOBLOCK_idem dir_GetState_ptr_def)
  show "d_state e \<in> {DIR_DIRTY, DIR_SHARED} \<Longrightarrow> d_locks e = [] \<Longrightarrow> dir_wf (dir_ToToDirty_entry e d)"
    using sharing_op_wf [OF assms(1), of "OpToToDirty p :: unit dir_op"] assms(2)
    by (simp add: dir_ToToDirty_def dir_GetEntry_def TOBLOCK_idem dir_GetState_ptr_def dir_IsBlockLocked_def Let_def)
  show "sharers_from g d (dir_ToToShared_entry e d)" "sharers_from g d (dir_ToToDirty_entry e d)"
    using a assms(2) by (auto simp: dir_ToToShared_entry_def dir_ToToDirty_entry_def intro!: sharers_from_put)
qed

lemma Clear_keeps:
  assumes "dir_wf d" "\<not> dir_InTransition_entry (d (TOBLOCK p))"
  shows "dir_wf (dir_Clear_entry (d (TOBLOCK p)) g d)" "sharers_from g d (dir_Clear_entry (d (TOBLOCK p)) g d)"
proof -
  have e: "dir_Clear_entry (d (TOBLOCK p)) g d = dir_exec (OpClear p g :: unit dir_op) d"
    by (simp add: dir_Clear_def dir_Clear_entry_def dir_GetEntry_def TOBLOCK_idem split: option.split)
  show "dir_wf (dir_Clear_entry (d (TOBLOCK p)) g d)"
    unfolding e using assms(2) by (intro sharing_op_wf [OF assms(1)]) (simp_all add: dir_query_def split: option.splits)
  show "sharers_from g d (dir_Clear_entry (d (TOBLOCK p)) g d)"
    using dir_wfD [OF assms(1)]
    by (auto simp: dir_Clear_entry_def Let_def split: option.splits list.splits if_splits
        intro!: sharers_from_put sharers_from_erase)
qed

subsection \<open>The handlers\<close>

text \<open>
  A request of a node that the home can reach, under a name of its own; a node that asks to read
  does not have the block.
\<close>

definition fair_request :: "Worker \<Rightarrow> 32 word \<Rightarrow> WorkRequest \<Rightarrow> gaddr \<Rightarrow> bool" where
  "fair_request w c wr g \<longleftrightarrow> cli_ToGlobal w c (wr_ptr wr) = Some g \<and> g \<noteq> 0 \<and> wid_of g = c \<and>
     (wr_op wr = READ \<longrightarrow> (case entry_of wr w of None \<Rightarrow> True | Some e \<Rightarrow> new_sharer g e))"

lemma fair_known: "fair_request w c wr g \<Longrightarrow> known w g"
  by (auto simp: fair_request_def known_def cli_ToGlobal_def)

lemma queue_keeps: "home_ok w \<Longrightarrow> home_ok (AddToServeRemoteRequest a c r w)"
  by (rule home_ok_same) (simp_all add: home_ok_def AddToServeRemoteRequest_def heap_ok_def)

lemma refuse_keeps:
  assumes "wrs w r = Some wr" "home_ok w"
  shows "\<exists>w'. refuse_lock op c r w = Some w' \<and> home_ok w'"
proof -
  have "home_ok (w \<lparr> outbox := ms, wrs := (wrs w)(r := None) \<rparr>)" for ms
    using assms(2) by (intro home_ok_same [OF assms(2)]) (simp_all add: home_ok_def heap_ok_def)
  then show ?thesis unfolding refuse_lock_eq [OF assms(1)] by blast
qed

lemma forward_keeps:
  assumes "wrs w r = Some wr" "home_ok w" "\<not> is_reply (wr_op l)" "dir_wf (f (w_dir w))" "sharers_from g (w_dir w) (f (w_dir w))" "known w g"
  shows "\<exists>w'. SubmitPending cli (next_wr w) (on_dir f (snd (wr_new l w))) = Some w' \<and> home_ok w'"
proof -
  let ?w = "on_dir f (snd (wr_new l w))"
  obtain n w1 where n: "GetWorkPsn ?w = (n, w1)" by fastforce
  have "wrs ?w (next_wr w) = Some l" by (simp add: wr_new_def on_dir_def)
  from SubmitPending_eq [OF this assms(3) n, of cli]
  obtain m where e: "SubmitPending cli (next_wr w) ?w =
    Some (emit m (AddToPending n (next_wr w) (wr_upd (next_wr w) (\<lambda>x. x \<lparr> wr_wid := w_id ?w, wr_id := n \<rparr>) w1)))" (is "_ = Some ?v") by blast
  have "home_ok ?v"
    using assms(2,4-6) GetWorkPsn_simps [OF n]
    by (intro home_ok_step [OF assms(2)])
      (auto simp: home_ok_def heap_ok_def emit_def AddToPending_def wr_upd_def wr_new_def on_dir_def)
  with e show ?thesis by blast
qed

lemma read_keeps:
  assumes "wrs w r = Some wr" "home_ok w" "fair_request w c wr g" "wr_op wr = READ"
  shows "\<exists>w'. ProcessRemoteRead c r w = Some w' \<and> home_ok w'"
proof -
  have k: "known w g" "cli_ToGlobal w c (wr_ptr wr) = Some g" using fair_known [OF assms(3)] assms(3) by (simp_all add: fair_request_def)
  have d: "dir_wf (w_dir w)" "heap_ok w" using assms(2) by (simp_all add: home_ok_def)
  let ?p = "ToLocal w (wr_addr wr)"
  have ent: "entry_of wr w = w_dir w (TOBLOCK ?p)" by (simp add: entry_of_def dir_GetEntry_def)
  consider (wait) "dir_InTransition_entry (entry_of wr w)"
    | (locked) "\<not> dir_InTransition_entry (entry_of wr w)" "dir_GetState (entry_of wr w) \<noteq> DIR_DIRTY" "dir_IsBlockWLocked (entry_of wr w)"
    | (grant) "\<not> dir_InTransition_entry (entry_of wr w)" "dir_GetState (entry_of wr w) \<noteq> DIR_DIRTY" "\<not> dir_IsBlockWLocked (entry_of wr w)"
    | (owner) e where "\<not> dir_InTransition_entry (entry_of wr w)" "entry_of wr w = Some e" "d_state e = DIR_DIRTY"
    by (cases "entry_of wr w") (auto simp: dir_GetState_def)
  then show ?thesis
  proof cases
    case wait
    with assms(1) queue_keeps [OF assms(2)] show ?thesis by (simp add: ProcessRemoteRead_def Let_def)
  next
    case locked
    with assms(1) queue_keeps [OF assms(2)] refuse_keeps [OF assms(1,2)] show ?thesis by (auto simp: ProcessRemoteRead_def Let_def)
  next
    case grant
    have "dir_guard (OpToShared ?p g :: unit dir_op) (w_dir w)"
      using grant assms(3,4) ent by (auto simp: fair_request_def dir_query_def split: option.splits) (metis DirState.exhaust)
    note keep = ToShared_keeps [OF d(1) this]
    have "home_ok (w \<lparr> outbox := ms, w_dir := (case dir_GetEntry (w_dir w) ?p of
        Some e \<Rightarrow> dir_ToShared_entry e g | None \<Rightarrow> dir_ToShared ?p g) (w_dir w), wrs := (wrs w)(r := None) \<rparr>)" for ms
      using keep k(1) d(2) by (intro home_ok_step [OF assms(2)]) (simp_all add: heap_ok_def)
    then show ?thesis using grant assms(1) k(2)
      by (simp add: ProcessRemoteRead_def remote_read_grant_def Let_def cli_WriteWithImm_def emit_def on_dir_def wr_del_def)
  next
    case owner
    have e: "w_dir w (TOBLOCK ?p) = Some e" using owner(2) ent by simp
    obtain a where a: "d_shared e = [a]" using home_okD(2) [OF assms(2) owner(2)] owner(3) by (auto simp: entry_wf_def length_Suc_conv)
    then have ka: "known w a" using home_okD(3) [OF assms(2) owner(2)] by simp
    have "wr_op (forward_request wr READ_FORWARD r c) = READ_FORWARD" by (simp add: forward_request_def)
    with forward_keeps [where f = "dir_ToToShared_entry e" and l = "forward_request wr READ_FORWARD r c",
        OF assms(1,2) _ transit_keeps(1) [OF d(1) e owner(3)] transit_keeps(2) [OF d(1) e] k(1)] replies(1)
    show ?thesis using owner assms(1) a GetClient_new [OF ka]
      by (simp add: ProcessRemoteRead_def remote_read_forward_def Let_def dir_GetState_def front_sharer_def split_beta)
  qed
qed

lemma write_keeps:
  assumes "wrs w r = Some wr" "home_ok w" "fair_request w c wr g" "wr_op wr \<in> {WRITE, WRITE_PERMISSION_ONLY}"
  shows "\<exists>w'. ProcessRemoteWrite c r w = Some w' \<and> home_ok w'"
proof -
  have k: "known w g" "cli_ToGlobal w c (wr_ptr wr) = Some g" using fair_known [OF assms(3)] assms(3) by (simp_all add: fair_request_def)
  have d: "dir_wf (w_dir w)" "heap_ok w" using assms(2) by (simp_all add: home_ok_def)
  let ?p = "ToLocal w (wr_addr wr)"
  have ent: "entry_of wr w = w_dir w (TOBLOCK ?p)" by (simp add: entry_of_def dir_GetEntry_def)
  from assms(1,2) show ?thesis
  proof (cases rule: ProcessRemoteWrite_cases [where c = c])
    case queued
    with queue_keeps [OF assms(2)] show ?thesis by simp
  next
    case refused
    have "home_ok (wr_upd r (\<lambda>x. x \<lparr> wr_counter := 0 \<rparr>) w)"
      using d by (intro home_ok_same [OF assms(2)]) (auto simp: heap_ok_def wr_upd_def)
    with refused(1) refuse_keeps [of "wr_upd r (\<lambda>x. x \<lparr> wr_counter := 0 \<rparr>) w" r] assms(1) show ?thesis by simp
  next
    case (granted w1 ms)
    have g1: "cli_ToGlobal w1 c (wr_ptr wr) = Some g" "ToLocal w1 (wr_addr wr) = ?p" "wrs w1 r = Some wr"
      using granted(2,6,7) k(2) assms(1) by (simp_all add: cli_ToGlobal_def ToLocal_def)
    have "dir_guard (OpToDirty ?p g :: unit dir_op) (w_dir w)"
      using granted(9-11) ent by (cases "dir_GetState (entry_of wr w)") (auto simp: dir_query_def split: option.splits)
    note keep = ToDirty_keeps [OF d(1) this]
    show ?thesis
      unfolding granted(1) remote_write_grant_eq [OF g1(3,1)] g1(2) granted(2,3)
      by (rule exI, rule conjI, rule refl, rule home_ok_step [OF assms(2) _ _ _ k(1)])
        (use keep d(2) granted(6,13) in \<open>simp_all add: heap_ok_def\<close>)
  next
    case (invalidating e)
    have e: "w_dir w (TOBLOCK ?p) = Some e" using invalidating(2) ent by simp
    obtain n w1 where n: "GetWorkPsn w = (n, w1)" by fastforce
    show ?thesis
      unfolding invalidating(1) remote_write_shared_eq [OF home_okD(3) [OF assms(2) invalidating(2)] assms(1) n invalidating(3)]
      by (rule exI, rule conjI, rule refl, rule home_ok_step [OF assms(2) _ _ _ k(1)])
        (use d(2) GetWorkPsn_simps(8) [OF n] transit_keeps(3) [OF d(1) e] transit_keeps(4) [OF d(1) e] invalidating(4,5)
         in \<open>simp_all add: heap_ok_def\<close>)
  next
    case (forwarded e)
    have e: "w_dir w (TOBLOCK ?p) = Some e" "d_locks e = []"
      using forwarded(2,3) ent home_okD(2) [OF assms(2) forwarded(2)] by (simp_all add: entry_wf_def)
    obtain a where a: "d_shared e = [a]" using home_okD(2) [OF assms(2) forwarded(2)] forwarded(3) by (auto simp: entry_wf_def length_Suc_conv)
    then have ka: "known w a" using home_okD(3) [OF assms(2) forwarded(2)] by simp
    have "wr_op (forward_request wr WRITE_FORWARD r c) = WRITE_FORWARD" by (simp add: forward_request_def)
    with forward_keeps [where f = "dir_ToToDirty_entry e" and l = "forward_request wr WRITE_FORWARD r c",
        OF assms(1,2) _ transit_keeps(3) [OF d(1) e(1) _ e(2)] transit_keeps(4) [OF d(1) e(1)] k(1)] replies(2) forwarded(3)
    show ?thesis using forwarded(1,2) assms(1,4) a GetClient_new [OF ka]
      by (auto simp: remote_write_forward_def Let_def front_sharer_def split_beta)
  qed
qed

lemma evict_keeps:
  assumes "wrs w r = Some wr" "home_ok w" "fair_request w c wr g"
  shows "\<exists>w'. ProcessRemoteEvictShared c r w = Some w' \<and> home_ok w'" "\<exists>w'. ProcessRemoteEvictDirty c r w = Some w' \<and> home_ok w'"
proof -
  have k: "known w g" "cli_ToGlobal w c (wr_ptr wr) = Some g" using fair_known [OF assms(3)] assms(3) by (simp_all add: fair_request_def)
  have d: "dir_wf (w_dir w)" "heap_ok w" using assms(2) by (simp_all add: home_ok_def)
  have ent: "entry_of wr w = w_dir w (TOBLOCK (ToLocal w (wr_addr wr)))" by (simp add: entry_of_def dir_GetEntry_def)
  have "home_ok (w \<lparr> w_dir := dir_Clear_entry (entry_of wr w) g (w_dir w), outbox := ms, wrs := (wrs w)(r := None) \<rparr>)"
    "home_ok (w \<lparr> w_dir := dir_Clear_entry (entry_of wr w) g (w_dir w), wrs := (wrs w)(r := None) \<rparr>)"
    if "\<not> dir_InTransition_entry (entry_of wr w)" for ms
    using Clear_keeps [OF d(1), of "ToLocal w (wr_addr wr)" g] that d(2) k(1) unfolding ent
    by (auto intro!: home_ok_step [OF assms(2) _ _ _ k(1)] simp: heap_ok_def)
  note keep = this
  show "\<exists>w'. ProcessRemoteEvictShared c r w = Some w' \<and> home_ok w'"
    using assms(1) k(2) queue_keeps [OF assms(2)] keep(2)
    by (auto simp: ProcessRemoteEvictShared_def clear_sharer_def on_dir_def wr_del_def)
  show "\<exists>w'. ProcessRemoteEvictDirty c r w = Some w' \<and> home_ok w'"
    using assms(1) k(2) queue_keeps [OF assms(2)] keep(1)
    by (auto simp: ProcessRemoteEvictDirty_def clear_sharer_def on_dir_def wr_del_def cli_WriteWithImm_def emit_def)
qed

text \<open>
  C5: a home node stays well typed: when another node reads, writes, asks for the permission to
  write, or gives up a block, the handler comes to its end, and afterwards every directory entry again
  has the sharers and locks its state allows, every recorded sharer is a node the home can reach, and the
  references to be handed out next are unused.
\<close>

theorem home_stays_well_typed:
  assumes "wrs w r = Some wr" "wr_op wr \<in> {READ, WRITE, WRITE_PERMISSION_ONLY, ACTIVE_INVALIDATE, WRITE_BACK}"
    and "home_ok w" "fair_request w c wr g"
  shows "\<exists>w'. ProcessRequest NT TS c r w = Some w' \<and> home_ok w'"
  using assms(1,2) read_keeps [OF assms(1,3,4)] write_keeps [OF assms(1,3,4)] evict_keeps [OF assms(1,3,4)]
  by (auto simp: ProcessRequest_def)

theorem home_stays_well_typed_witness:
  "\<exists>w'. ProcessRequest (\<lambda>_. Some) (\<lambda>_. Some) 4 0 (demo_home READ) = Some w' \<and> home_ok w'"
proof -
  have "fair_request (demo_home READ) 4 (demo_request READ) 0x4000000008000"
    by (simp add: fair_request_def new_sharer_def) (simp add: demo_defs addr_defs cli_ToGlobal_def)
  from home_stays_well_typed [OF _ _ _ this] demo_home_ok(1) show ?thesis by (simp add: demo_defs)
qed

end
