(* ===== verification/Depth.thy ===== *)
theory Depth
  imports Worker_Facts
begin

text \<open>
  The depth at which the nesting of handlers is cut off does not matter: a handler that comes to its end at
  some depth comes to the same end at every larger depth. Handlers are monotone in the
  handlers they call, in the order in which \<open>None\<close> is below everything.
\<close>

subsection \<open>Monotonicity\<close>

abbreviation below :: "'a option \<Rightarrow> 'a option \<Rightarrow> bool" where
  "below \<equiv> option_ord"

definition below_step :: "step \<Rightarrow> step \<Rightarrow> bool" where
  "below_step f g \<longleftrightarrow> (\<forall>r w. below (f r w) (g r w))"

named_theorems below_intro \<open>rules for the order on handlers\<close>

lemma below_iff: "below x y \<longleftrightarrow> x = None \<or> x = y"
  by (auto simp: flat_ord_def)

lemma below_refl [simp, below_intro]: "below x x"
  by (simp add: below_iff)


lemma below_call: "below_step f g \<Longrightarrow> below (f r w) (g r w)"
  by (simp add: below_step_def)

lemma below_bind [below_intro]: "below x y \<Longrightarrow> (\<And>a. below (f a) (g a)) \<Longrightarrow> below (Option.bind x f) (Option.bind y g)"
  unfolding below_iff by (cases x) (simp, metis bind.bind_lunit option.distinct(1))

lemma below_if [below_intro]: "below a c \<Longrightarrow> below b d \<Longrightarrow> below (if p then a else b) (if p then c else d)"
  by simp

lemma below_let [below_intro]: "(\<And>x. below (f x) (g x)) \<Longrightarrow> below (Let t f) (Let t g)"
  by simp

lemma below_case [below_intro]:
  "below a c \<Longrightarrow> (\<And>x. below (b x) (d x)) \<Longrightarrow> below (case ox of None \<Rightarrow> a | Some x \<Rightarrow> b x) (case ox of None \<Rightarrow> c | Some x \<Rightarrow> d x)"
  "(\<And>x y. below (p x y) (q x y)) \<Longrightarrow> below (case xy of (x, y) \<Rightarrow> p x y) (case xy of (x, y) \<Rightarrow> q x y)"
  "(\<And>x. below (l x) (l' x)) \<Longrightarrow> (\<And>x. below (m x) (m' x)) \<Longrightarrow> below (case s of Inl x \<Rightarrow> l x | Inr x \<Rightarrow> m x) (case s of Inl x \<Rightarrow> l' x | Inr x \<Rightarrow> m' x)"
  by (auto split: option.split prod.split sum.split)

lemma below_map [below_intro]: "below x y \<Longrightarrow> below (map_option f x) (map_option f y)"
  by (auto simp: below_iff)

subsection \<open>Application requests\<close>

lemma notify_if_queued_below [below_intro]:
  "below_step NT NT' \<Longrightarrow> below (notify_if_queued NT r w) (notify_if_queued NT' r w)"
  unfolding notify_if_queued_def by (intro below_intro | assumption | erule below_call)+

lemma finish_below [below_intro]:
  "below_step NT NT' \<Longrightarrow> below (finish NT r w) (finish NT' r w)"
  unfolding finish_def by (intro below_intro | assumption | erule below_call)+

lemma finish_hit_below [below_intro]:
  "below_step NT NT' \<Longrightarrow> below (finish_hit cnt NT r w) (finish_hit cnt NT' r w)"
  unfolding finish_hit_def by (intro below_intro | assumption | erule below_call)+

lemma finish_write_below [below_intro]:
  "below_step NT NT' \<Longrightarrow> below (finish_write NT r w) (finish_write NT' r w)"
  unfolding finish_write_def by (intro below_intro | assumption | erule below_call)+

lemma unless_below [below_intro]:
  "(\<And>z. below (f z) (g z)) \<Longrightarrow> below (unless_early x f) (unless_early x g)"
  "(\<And>z. below (h z) (k z)) \<Longrightarrow> below (unless_pending r w h) (unless_pending r w k)"
  unfolding unless_early_def unless_pending_def by (intro below_intro; simp)+

lemma malloc_below [below_intro]:
  "below_step NT NT' \<Longrightarrow> below (ProcessLocalMalloc NT r w) (ProcessLocalMalloc NT' r w)"
  unfolding ProcessLocalMalloc_def malloc_local_def malloc_here_def by (intro below_intro | assumption | erule below_call)+

lemma free_below [below_intro]:
  "below_step NT NT' \<Longrightarrow> below (ProcessLocalFree NT r w) (ProcessLocalFree NT' r w)"
  unfolding ProcessLocalFree_def by (intro below_intro | assumption | erule below_call)+

lemma mfence_below [below_intro]:
  "below_step NT NT' \<Longrightarrow> below (ProcessLocalMFence NT r w) (ProcessLocalMFence NT' r w)"
  unfolding ProcessLocalMFence_def by (intro below_intro | assumption | erule below_call)+

lemma sfence_below [below_intro]:
  "below_step NT NT' \<Longrightarrow> below (ProcessLocalSFence NT r w) (ProcessLocalSFence NT' r w)"
  unfolding ProcessLocalSFence_def by (intro below_intro | assumption | erule below_call)+

lemma read_below [below_intro]:
  "below_step NT NT' \<Longrightarrow> below (ProcessLocalRead NT r w) (ProcessLocalRead NT' r w)"
  unfolding ProcessLocalRead_def local_read_def remote_read_def by (intro below_intro | assumption | erule below_call)+

lemma write_below [below_intro]:
  "below_step NT NT' \<Longrightarrow> below (ProcessLocalWrite NT r w) (ProcessLocalWrite NT' r w)"
  unfolding ProcessLocalWrite_def local_write_def remote_write_def by (intro below_intro | assumption | erule below_call)+

lemma rlock_below [below_intro]:
  "below_step NT NT' \<Longrightarrow> below (ProcessLocalRLock NT r w) (ProcessLocalRLock NT' r w)"
  unfolding ProcessLocalRLock_def local_rlock_def cache_lock_request_def by (intro below_intro | assumption | erule below_call)+

lemma wlock_below [below_intro]:
  "below_step NT NT' \<Longrightarrow> below (ProcessLocalWLock NT r w) (ProcessLocalWLock NT' r w)"
  unfolding ProcessLocalWLock_def local_wlock_def cache_lock_request_def by (intro below_intro | assumption | erule below_call)+

lemma unlock_below [below_intro]:
  "below_step NT NT' \<Longrightarrow> below_step TS TS' \<Longrightarrow> below (ProcessLocalUnLock NT TS r w) (ProcessLocalUnLock NT' TS' r w)"
  unfolding ProcessLocalUnLock_def by (intro below_intro | assumption | erule below_call)+


subsection \<open>Answers and requests of other nodes\<close>

lemma pending_read_below [below_intro]:
  "below_step NT NT' \<Longrightarrow> below_step TS TS' \<Longrightarrow> below (ProcessPendingRead NT TS r w) (ProcessPendingRead NT' TS' r w)"
  unfolding ProcessPendingRead_def by (intro below_intro | assumption | erule below_call)+

lemma read_forward_below [below_intro]:
  "below_step TS TS' \<Longrightarrow> below (ProcessPendingReadForward TS r w) (ProcessPendingReadForward TS' r w)"
  unfolding ProcessPendingReadForward_def by (intro below_intro | assumption | erule below_call)+

lemma pending_write_below [below_intro]:
  "below_step NT NT' \<Longrightarrow> below_step TS TS' \<Longrightarrow> below (ProcessPendingWrite NT TS c r w) (ProcessPendingWrite NT' TS' c r w)"
  unfolding ProcessPendingWrite_def pending_write_failed_def pending_write_done_def by (intro below_intro | assumption | erule below_call)+

lemma write_forward_below [below_intro]:
  "below_step TS TS' \<Longrightarrow> below (ProcessPendingWriteForward TS r w) (ProcessPendingWriteForward TS' r w)"
  unfolding ProcessPendingWriteForward_def by (intro below_intro | assumption | erule below_call)+

lemma evict_dirty_below [below_intro]:
  "below_step TS TS' \<Longrightarrow> below (ProcessPendingEvictDirty TS r w) (ProcessPendingEvictDirty TS' r w)"
  unfolding ProcessPendingEvictDirty_def by (intro below_intro | assumption | erule below_call)+

lemma invalidate_forward_below [below_intro]:
  "below_step TS TS' \<Longrightarrow> below (ProcessPendingInvalidateForward TS c r w) (ProcessPendingInvalidateForward TS' c r w)"
  unfolding ProcessPendingInvalidateForward_def inv_forward_failed_def inv_forward_done_def by (intro below_intro | assumption | erule below_call)+

lemma ProcessPendingRequest_below [below_intro]:
  assumes "below_step NT NT'" "below_step TS TS'"
  shows "below (ProcessPendingRequest NT TS c r w) (ProcessPendingRequest NT' TS' c r w)"
proof (cases "wrs w r")
  case (Some wr)
  note calls = below_intro assms below_call [OF assms(1)] below_call [OF assms(2)]
  from Some show ?thesis unfolding ProcessPendingRequest_def by (cases "wr_op wr"; simp only: bind.bind_lunit Work.case; intro calls)
qed (simp add: ProcessPendingRequest_def)

lemma write_refused_below [below_intro]:
  "below_step NT NT' \<Longrightarrow> below_step TS TS' \<Longrightarrow> below (write_refused NT TS c r pr p w) (write_refused NT' TS' c r pr p w)"
  unfolding write_refused_def by (intro below_intro | assumption | erule below_call)+

lemma write_forward_refused_below [below_intro]:
  "below_step TS TS' \<Longrightarrow> below (write_forward_refused TS r pr p w) (write_forward_refused TS' r pr p w)"
  unfolding write_forward_refused_def by (intro below_intro | assumption | erule below_call)+

lemma invalidate_refused_below [below_intro]:
  "below_step TS TS' \<Longrightarrow> below (invalidate_refused TS r pr p w) (invalidate_refused TS' r pr p w)"
  unfolding invalidate_refused_def by (intro below_intro | assumption | erule below_call)+

lemma write_failed_below [below_intro]:
  assumes "below_step NT NT'" "below_step TS TS'"
  shows "below (write_failed NT TS c r pr w) (write_failed NT' TS' c r pr w)"
proof (cases "wrs w pr")
  case (Some pwr)
  note calls = below_intro assms below_call [OF assms(1)] below_call [OF assms(2)]
  from Some show ?thesis unfolding write_failed_def by (cases "wr_op pwr"; simp only: bind.bind_lunit Work.case; intro calls)
qed (simp add: write_failed_def)

lemma read_reply_below [below_intro]:
  "below_step NT NT' \<Longrightarrow> below_step TS TS' \<Longrightarrow> below (ProcessRemoteReadReply NT TS c r w) (ProcessRemoteReadReply NT' TS' c r w)"
  unfolding ProcessRemoteReadReply_def by (intro below_intro | assumption | erule below_call)+

lemma write_reply_below [below_intro]:
  "below_step NT NT' \<Longrightarrow> below_step TS TS' \<Longrightarrow> below (ProcessRemoteWriteReply NT TS c r w) (ProcessRemoteWriteReply NT' TS' c r w)"
  unfolding ProcessRemoteWriteReply_def by (intro below_intro | assumption | erule below_call)+

lemma malloc_reply_below [below_intro]:
  "below_step NT NT' \<Longrightarrow> below (ProcessRemoteMallocReply NT c r w) (ProcessRemoteMallocReply NT' c r w)"
  unfolding ProcessRemoteMallocReply_def by (intro below_intro | assumption | erule below_call)+

lemma get_reply_below [below_intro]:
  "below_step NT NT' \<Longrightarrow> below (ProcessRemoteGetReply NT c r w) (ProcessRemoteGetReply NT' c r w)"
  unfolding ProcessRemoteGetReply_def by (intro below_intro | assumption | erule below_call)+


subsection \<open>Handlers that wake handlers\<close>

definition below_rstep :: "rstep \<Rightarrow> rstep \<Rightarrow> bool" where
  "below_rstep f g \<longleftrightarrow> (\<forall>c r w. below (f c r w) (g c r w))"

lemma serve_local_below [below_intro]: "below_step f g \<Longrightarrow> below (serve_local f rs w) (serve_local g rs w)"
proof (induction rs arbitrary: w)
  case (Cons r rs)
  note calls = below_bind below_call [OF Cons.prems] Cons.IH [OF Cons.prems]
  show ?case unfolding serve_local.simps by (intro calls)
qed simp

lemma serve_remote_below [below_intro]: "below_rstep f g \<Longrightarrow> below (serve_remote f rs w) (serve_remote g rs w)"
proof (induction rs arbitrary: w)
  case (Cons x rs)
  have "below (f c r v) (g c r v)" for c r v using Cons.prems by (simp add: below_rstep_def)
  note calls = below_bind this Cons.IH [OF Cons.prems]
  show ?case by (cases x, simp only: serve_remote.simps) (intro calls)
qed simp








subsection \<open>Events\<close>






end
