(* ===== verification/Records.thy ===== *)
theory Records
  imports GAM_Prelude "HOL-Library.Monad_Syntax"
begin

text \<open>
  Records of the database on top of the shared memory (\<open>database/storage/\<close>): the layout of a table's columns
  (\<open>ColumnInfo.h\<close>, \<open>RecordSchema.h\<close>) and the access to the columns of a record (\<open>Record.h\<close>), whose bytes
  are \<open>data_ptr_\<close>. \<open>None\<close> is a failed \<open>assert\<close>, which the build compiles in, or a copy that runs out of its
  buffer.
\<close>

subsection \<open>Columns and schemas\<close>

datatype ValueType = INT_TYPE | INT8 | INT16 | INT32 | INT64 | DOUBLE | FLOAT | VARCHAR | META

record ColumnInfo =
  column_name :: string
  column_type :: ValueType
  column_size :: nat
  column_offset :: nat

fun type_size :: "ValueType \<Rightarrow> nat" where
  "type_size INT_TYPE = 4"
| "type_size INT8 = 1"
| "type_size INT16 = 2"
| "type_size INT32 = 4"
| "type_size INT64 = 8"
| "type_size DOUBLE = 8"
| "type_size FLOAT = 4"
| "type_size META = 1"
| "type_size VARCHAR = 0"

definition ColumnInfo_Init :: "string \<Rightarrow> ValueType \<Rightarrow> nat \<Rightarrow> ColumnInfo option" where
  "ColumnInfo_Init name t sz =
     (if \<not> length name < 16 then None
      else if t \<noteq> VARCHAR
      then Some \<lparr> column_name = name, column_type = t, column_size = type_size t, column_offset = 0 \<rparr>
      else if sz > 0 then Some \<lparr> column_name = name, column_type = t, column_size = sz, column_offset = 0 \<rparr>
      else None)"

definition kMaxColumnNum :: nat where "kMaxColumnNum = 32"

record RecordSchema =
  table_id :: nat
  columns :: "ColumnInfo list"
  schema_offset :: nat  \<comment> \<open>\<open>column_offset_\<close>\<close>

definition new_RecordSchema :: "nat \<Rightarrow> RecordSchema" where
  "new_RecordSchema t = \<lparr> table_id = t, columns = [], schema_offset = 0 \<rparr>"

text \<open>The loop of \<open>InsertColumns\<close>; the offset goes on from where it was.\<close>

fun lay_out :: "ColumnInfo list \<Rightarrow> nat \<Rightarrow> ColumnInfo list \<times> nat" where
  "lay_out [] off = ([], off)"
| "lay_out (c # cs) off =
     (let (ds, e) = lay_out cs (off + column_size c) in (c \<lparr> column_offset := off \<rparr> # ds, e))"

definition InsertColumns :: "ColumnInfo list \<Rightarrow> RecordSchema \<Rightarrow> RecordSchema option" where
  "InsertColumns cs s =
     (if length cs \<le> kMaxColumnNum
      then let (ds, e) = lay_out cs (schema_offset s) in Some (s \<lparr> columns := ds, schema_offset := e \<rparr>)
      else None)"

definition GetColumnOffset :: "nat \<Rightarrow> RecordSchema \<Rightarrow> nat option" where
  "GetColumnOffset i s = (if i < length (columns s) then Some (column_offset (columns s ! i)) else None)"

definition GetColumnSize :: "nat \<Rightarrow> RecordSchema \<Rightarrow> nat option" where
  "GetColumnSize i s = (if i < length (columns s) then Some (column_size (columns s ! i)) else None)"

definition GetSchemaSize :: "RecordSchema \<Rightarrow> nat" where "GetSchemaSize s = schema_offset s"

definition GetMetaColumnId :: "RecordSchema \<Rightarrow> nat" where "GetMetaColumnId s = length (columns s) - 1"

subsection \<open>Records\<close>

text \<open>\<open>memcpy\<close> into and out of the bytes of a record.\<close>

definition put_bytes :: "nat \<Rightarrow> nat \<Rightarrow> byte list \<Rightarrow> byte list \<Rightarrow> byte list option" where
  "put_bytes off n src r = (if off + n \<le> length r \<and> n \<le> length src then Some (take off r @ take n src @ drop (off + n) r) else None)"

definition get_bytes :: "nat \<Rightarrow> nat \<Rightarrow> byte list \<Rightarrow> byte list option" where
  "get_bytes off n r = (if off + n \<le> length r then Some (take n (drop off r)) else None)"

definition SetColumn :: "RecordSchema \<Rightarrow> nat \<Rightarrow> byte list \<Rightarrow> byte list \<Rightarrow> byte list option" where
  "SetColumn s i src r = do { off \<leftarrow> GetColumnOffset i s; n \<leftarrow> GetColumnSize i s; put_bytes off n src r }"

text \<open>\<open>SetColumn\<close> with a size does not compare it with the size of the column.\<close>

definition SetColumn_sized :: "RecordSchema \<Rightarrow> nat \<Rightarrow> byte list \<Rightarrow> nat \<Rightarrow> byte list \<Rightarrow> byte list option" where
  "SetColumn_sized s i src n r = do { off \<leftarrow> GetColumnOffset i s; put_bytes off n src r }"

definition GetColumn :: "RecordSchema \<Rightarrow> nat \<Rightarrow> byte list \<Rightarrow> byte list option" where
  "GetColumn s i r = do { off \<leftarrow> GetColumnOffset i s; n \<leftarrow> GetColumnSize i s; get_bytes off n r }"

text \<open>The meta column is a \<open>bool\<close>.\<close>

definition GetVisible :: "RecordSchema \<Rightarrow> byte list \<Rightarrow> bool option" where
  "GetVisible s r = do { m \<leftarrow> GetColumn s (GetMetaColumnId s) r; case m of [b] \<Rightarrow> Some (b \<noteq> 0) | _ \<Rightarrow> None }"

definition SetVisible :: "RecordSchema \<Rightarrow> bool \<Rightarrow> byte list \<Rightarrow> byte list option" where
  "SetVisible s v r = do {
     m \<leftarrow> GetColumn s (GetMetaColumnId s) r;
     SetColumn s (GetMetaColumnId s) [if v then 1 else 0] r }"

subsection \<open>Columns do not overlap\<close>

lemma lay_out_columns:
  assumes "lay_out cs off = (ds, e)"
  shows "length ds = length cs" "e = off + sum_list (map column_size cs)" "map column_size ds = map column_size cs"
    "i < length cs \<Longrightarrow> column_offset (ds ! i) = off + sum_list (map column_size (take i cs))"
proof -
  have "length ds = length cs \<and> e = off + sum_list (map column_size cs) \<and> map column_size ds = map column_size cs \<and>
    (\<forall>i<length cs. column_offset (ds ! i) = off + sum_list (map column_size (take i cs)))"
    using assms
  proof (induction cs arbitrary: off ds e)
    case (Cons c cs)
    obtain ds' e' where l: "lay_out cs (off + column_size c) = (ds', e')" by fastforce
    from Cons.IH [OF l] Cons.prems l show ?case by (auto simp: nth_Cons' take_Cons' less_Suc_eq_0_disj)
  qed simp
  then show "length ds = length cs" "e = off + sum_list (map column_size cs)" "map column_size ds = map column_size cs"
    "i < length cs \<Longrightarrow> column_offset (ds ! i) = off + sum_list (map column_size (take i cs))" by blast+
qed

lemma span_le_sum:
  fixes f :: "'a \<Rightarrow> nat"
  shows "i < length cs \<Longrightarrow> sum_list (map f (take i cs)) + f (cs ! i) \<le> sum_list (map f cs)"
  by (induction cs arbitrary: i) (auto simp: less_Suc_eq_0_disj)

lemma span_order:
  fixes f :: "'a \<Rightarrow> nat"
  assumes "i < j" "j < length cs"
  shows "sum_list (map f (take i cs)) + f (cs ! i) \<le> sum_list (map f (take j cs))"
  using span_le_sum [of i "take j cs" f] assms by (simp add: min_def)

lemma put_get_same: "put_bytes off n v r = Some r' \<Longrightarrow> length v = n \<Longrightarrow> get_bytes off n r' = Some v"
  by (auto simp: put_bytes_def get_bytes_def split: if_splits)

lemma put_length: "put_bytes off n v r = Some r' \<Longrightarrow> length r' = length r"
  by (auto simp: put_bytes_def split: if_splits)

lemma put_nth: "put_bytes off n v r = Some r' \<Longrightarrow> k < length r \<Longrightarrow> k < off \<or> off + n \<le> k \<Longrightarrow> r' ! k = r ! k"
  by (auto simp: put_bytes_def nth_append min_def split: if_splits)

lemma put_get_apart:
  assumes "put_bytes off n v r = Some r'" "off' + n' \<le> off \<or> off + n \<le> off'"
  shows "get_bytes off' n' r' = get_bytes off' n' r"
  using assms put_length [OF assms(1)] by (auto simp: get_bytes_def intro!: nth_equalityI put_nth [OF assms(1)])

lemma InsertColumns_places:
  assumes "InsertColumns cs s = Some s'" "i < length cs"
  shows "GetColumnOffset i s' = Some (schema_offset s + sum_list (map column_size (take i cs)))"
    "GetColumnSize i s' = Some (column_size (cs ! i))"
    "GetSchemaSize s' = schema_offset s + sum_list (map column_size cs)" "length (columns s') = length cs"
proof -
  obtain ds e where l: "lay_out cs (schema_offset s) = (ds, e)" by fastforce
  with assms have s': "s' = s \<lparr> columns := ds, schema_offset := e \<rparr>" by (simp add: InsertColumns_def split: if_splits)
  have "column_size (ds ! i) = column_size (cs ! i)"
    using lay_out_columns(1,3) [OF l] assms(2) by (metis nth_map)
  with s' lay_out_columns [OF l] assms(2)
  show "GetColumnOffset i s' = Some (schema_offset s + sum_list (map column_size (take i cs)))"
    "GetColumnSize i s' = Some (column_size (cs ! i))"
    "GetSchemaSize s' = schema_offset s + sum_list (map column_size cs)" "length (columns s') = length cs"
    by (simp_all add: GetColumnOffset_def GetColumnSize_def GetSchemaSize_def)
qed

text \<open>
  C40: a column keeps its value and disturbs no other. In a record with the size of its schema, setting a
  column to a value of the column's size succeeds, keeps the size of the record, makes \<open>GetColumn\<close> return the
  value, and leaves what \<open>GetColumn\<close> returns for every other column as it was.
\<close>

theorem columns_are_independent:
  assumes "InsertColumns cs s = Some s'" "length r = GetSchemaSize s'" "i < length cs" "length v = column_size (cs ! i)"
  shows "\<exists>r'. SetColumn s' i v r = Some r' \<and> length r' = length r \<and> GetColumn s' i r' = Some v \<and>
    (\<forall>j. j < length cs \<longrightarrow> j \<noteq> i \<longrightarrow> GetColumn s' j r' = GetColumn s' j r)"
proof -
  note pl = InsertColumns_places [OF assms(1)]
  let ?o = "\<lambda>i. schema_offset s + sum_list (map column_size (take i cs))"
  obtain r' where p: "put_bytes (?o i) (length v) v r = Some r'"
    using span_le_sum [OF assms(3), of column_size] pl(3) [OF assms(3)] assms by (simp add: put_bytes_def)
  have "GetColumn s' j r' = GetColumn s' j r" if j: "j < length cs" "j \<noteq> i" for j
  proof -
    have "?o j + column_size (cs ! j) \<le> ?o i \<or> ?o i + length v \<le> ?o j"
      using j assms(3,4) span_order [of j i cs column_size] span_order [of i j cs column_size] by (cases "j < i") auto
    from put_get_apart [OF p this] show ?thesis by (simp add: GetColumn_def pl [OF j(1)])
  qed
  with p put_length [OF p] put_get_same [OF p] assms(4) pl [OF assms(3)] show ?thesis
    by (simp add: SetColumn_def GetColumn_def)
qed

definition demo_columns :: "ColumnInfo list" where
  "demo_columns = [\<lparr> column_name = ''id'', column_type = INT16, column_size = 2, column_offset = 0 \<rparr>,
     \<lparr> column_name = ''meta'', column_type = META, column_size = 1, column_offset = 0 \<rparr>]"

theorem columns_are_independent_witness:
  "\<exists>s r. InsertColumns demo_columns (new_RecordSchema 0) = Some s \<and> SetColumn s 0 [7, 8] [1, 2, 3] = Some r \<and>
     GetColumn s 0 r = Some [7, 8] \<and> GetColumn s 1 r = GetColumn s 1 [1, 2, 3]"
proof -
  define s where "s = the (InsertColumns demo_columns (new_RecordSchema 0))"
  have i: "InsertColumns demo_columns (new_RecordSchema 0) = Some s"
    by (simp add: s_def InsertColumns_def demo_columns_def new_RecordSchema_def kMaxColumnNum_def)
  have n: "GetSchemaSize s = 3"
    by (simp add: s_def InsertColumns_def demo_columns_def new_RecordSchema_def kMaxColumnNum_def GetSchemaSize_def)
  obtain r' where r: "SetColumn s 0 [7, 8] [1, 2, 3] = Some r'" "GetColumn s 0 r' = Some [7, 8]"
    and o: "\<And>j. j < length demo_columns \<Longrightarrow> j \<noteq> 0 \<Longrightarrow> GetColumn s j r' = GetColumn s j [1, 2, 3]"
    using columns_are_independent [OF i, of "[1, 2, 3]" 0 "[7, 8]"] n by (auto simp: demo_columns_def)
  from o [of 1] have "GetColumn s 1 r' = GetColumn s 1 [1, 2, 3]" by (simp add: demo_columns_def)
  with i r show ?thesis by blast
qed

text \<open>The meta column, when it is the last one, is the last byte of the record.\<close>

lemma SetVisible_last_byte:
  assumes "InsertColumns cs s = Some s'" "length r = GetSchemaSize s'" "cs \<noteq> []" "column_size (last cs) = 1"
  shows "SetVisible s' b r = Some (r[length r - 1 := (if b then 1 else 0)])"
proof -
  let ?i = "length cs - 1"
  have i: "?i < length cs" and lst: "cs ! ?i = last cs" using assms(3) by (simp_all add: last_conv_nth)
  note pl = InsertColumns_places [OF assms(1) i]
  have cs: "cs = take ?i cs @ [last cs]" using append_butlast_last_id [OF assms(3)] by (simp add: butlast_conv_take)
  have "sum_list (map column_size cs) = sum_list (map column_size (take ?i cs)) + 1"
    by (subst cs) (use assms(4) in simp)
  with pl assms lst show ?thesis
    by (simp add: SetVisible_def GetColumn_def SetColumn_def GetMetaColumnId_def get_bytes_def put_bytes_def
        upd_conv_take_nth_drop)
qed

end
