(* ===== verification/Transactions.thy ===== *)
theory Transactions
  imports GAlloc Records
begin

text \<open>
  The transaction manager of the database on top of the shared memory (\<open>database/txn/\<close>, built with
  \<open>LOCK\<close>): two-phase locking with locks that are tried and never waited for, local copies of the records,
  and writing back at the commit. The calls of \<open>GAlloc\<close> enter by their contract. A record is locked as a whole
  by the locks over its range, which are granted or refused together, so \<open>st_lock\<close> has one readers-writer
  lock per record address; \<open>st_data\<close> are the bytes that were last written to the record. The
  index that maps keys to addresses is a parameter.
\<close>

subsection \<open>Data\<close>

datatype AccessType = READ_ONLY | READ_WRITE | INSERT_ONLY | DELETE_ONLY

definition kTryLockLimit :: nat where "kTryLockLimit = 1"

definition kMaxAccessLimit :: nat where "kMaxAccessLimit = 256"

record Access =
  access_type :: AccessType
  access_record :: "byte list"
  access_addr :: gaddr

record GStore =
  st_lock :: "gaddr \<Rightarrow> rwlock"
  st_data :: "gaddr \<Rightarrow> byte list"
  st_freed :: "gaddr list"

text \<open>
  \<open>SetVisible\<close> of a record whose last column is the meta column, as in every table of the database: its last
  byte (lemma \<open>mark_visible_is_SetVisible\<close>).
\<close>

definition mark_visible :: "bool \<Rightarrow> byte list \<Rightarrow> byte list" where
  "mark_visible b r = r[length r - 1 := (if b then 1 else 0)]"

text \<open>\<open>NewAccess\<close> of the list, which has room for \<open>kMaxAccessLimit\<close>; \<open>assert\<close> is compiled in.\<close>

definition NewAccess :: "Access \<Rightarrow> Access list \<Rightarrow> Access list option" where
  "NewAccess x al = (if length al < kMaxAccessLimit then Some (al @ [x]) else None)"

subsection \<open>Locks of a record\<close>

definition rec_Try_Lock :: "Work \<Rightarrow> gaddr \<Rightarrow> GStore \<Rightarrow> int \<times> GStore" where
  "rec_Try_Lock op a st = (let (ret, l) = acquire op (st_lock st a) in (ret, st \<lparr> st_lock := (st_lock st)(a := l) \<rparr>))"

function try_loop :: "nat \<Rightarrow> Work \<Rightarrow> gaddr \<Rightarrow> GStore \<Rightarrow> bool \<times> GStore" where
  "try_loop n op a st =
     (case rec_Try_Lock op a st of (ret, st) \<Rightarrow>
        if ret = 0 then (True, st) else if Suc n \<ge> kTryLockLimit then (False, st) else try_loop (Suc n) op a st)"
  by pat_completeness auto
termination by (relation "measure (\<lambda>(n, _). kTryLockLimit - n)") auto

declare try_loop.simps [simp del]

definition TryWLockRecord :: "gaddr \<Rightarrow> GStore \<Rightarrow> bool \<times> GStore" where
  "TryWLockRecord = try_loop 0 WLOCK"

definition TryRLockRecord :: "gaddr \<Rightarrow> GStore \<Rightarrow> bool \<times> GStore" where
  "TryRLockRecord = try_loop 0 RLOCK"

definition UnLockRecord :: "gaddr \<Rightarrow> GStore \<Rightarrow> GStore" where
  "UnLockRecord a st = st \<lparr> st_lock := (st_lock st)(a := spec_unlock (st_lock st a)) \<rparr>"

subsection \<open>The manager of one thread\<close>

definition db_InsertRecord :: "byte list \<Rightarrow> gaddr \<Rightarrow> Access list \<Rightarrow> GStore \<Rightarrow> (bool \<times> Access list \<times> GStore) option" where
  "db_InsertRecord r a al st = do {
     let (ok, st) = TryWLockRecord a st;
     if \<not> ok then None
     else do {
       al \<leftarrow> NewAccess \<lparr> access_type = INSERT_ONLY, access_record = mark_visible True r, access_addr = a \<rparr> al;
       Some (True, al, st) } }"

text \<open>The bodies of the loops over the access list.\<close>

definition writes_back :: "Access \<Rightarrow> bool" where
  "writes_back x \<longleftrightarrow> access_type x = READ_WRITE \<or> access_type x = DELETE_ONLY"

definition commit_access :: "Access \<Rightarrow> GStore \<Rightarrow> GStore" where
  "commit_access x st =
     UnLockRecord (access_addr x)
       (if writes_back x then st \<lparr> st_data := (st_data st)(access_addr x := access_record x) \<rparr> else st)"

definition free_deleted :: "Access \<Rightarrow> GStore \<Rightarrow> GStore" where
  "free_deleted x st = (if access_type x = DELETE_ONLY then st \<lparr> st_freed := st_freed st @ [access_addr x] \<rparr> else st)"

definition abort_access :: "Access \<Rightarrow> GStore \<Rightarrow> GStore" where
  "abort_access x st =
     (let st = UnLockRecord (access_addr x) st
      in if access_type x = INSERT_ONLY then st \<lparr> st_freed := st_freed st @ [access_addr x] \<rparr> else st)"

definition CommitTransaction :: "Access list \<Rightarrow> GStore \<Rightarrow> bool \<times> Access list \<times> GStore" where
  "CommitTransaction al st = (True, [], fold free_deleted al (fold commit_access al st))"

definition AbortTransaction :: "Access list \<Rightarrow> GStore \<Rightarrow> Access list \<times> GStore" where
  "AbortTransaction al st = ([], fold abort_access al st)"

definition SelectRecordCC :: "gaddr \<Rightarrow> AccessType \<Rightarrow> Access list \<Rightarrow> GStore \<Rightarrow> (bool \<times> Access list \<times> GStore) option" where
  "SelectRecordCC a t al st = do {
     let (ok, st) = (if t = READ_ONLY then TryRLockRecord a st else TryWLockRecord a st);
     if ok
     then do {
       let r = st_data st a;
       al \<leftarrow> NewAccess \<lparr> access_type = t, access_record = (if t = DELETE_ONLY then mark_visible False r else r), access_addr = a \<rparr> al;
       Some (True, al, st) }
     else let (al, st) = AbortTransaction al st in Some (False, al, st) }"

definition db_SearchRecord ::
    "(64 word \<Rightarrow> gaddr) \<Rightarrow> 64 word \<Rightarrow> AccessType \<Rightarrow> Access list \<Rightarrow> GStore \<Rightarrow> (bool \<times> Access list \<times> GStore) option" where
  "db_SearchRecord index key t al st =
     (let a = index key in if a \<noteq> Gnullptr then SelectRecordCC a t al st else Some (False, al, st))"

subsection \<open>Threads side by side\<close>

text \<open>
  Every thread has a manager. A step of the system is the selection or insertion of a record, a
  change of a local copy, the decision to commit, or one round of a loop of \<open>CommitTransaction\<close> or
  \<open>AbortTransaction\<close>. A selection takes the lock and reads in one step: nobody writes a record
  while another thread has it locked. \<open>t_reads\<close> records what was read, and \<open>sys_log\<close>, for every
  transaction that began to commit, what it had read and what it writes.
\<close>

datatype phase = Running | Committing | Aborting

record Thread =
  t_phase :: phase
  t_list :: "Access list"
  t_gc :: "Access list"
  t_reads :: "(gaddr \<times> byte list) list"

type_synonym footprint = "(gaddr \<times> byte list) list \<times> (gaddr \<times> byte list) list"

record Sys =
  sys_store :: GStore
  sys_thr :: "nat \<Rightarrow> Thread"
  sys_log :: "footprint list"

definition idle :: Thread where
  "idle = \<lparr> t_phase = Running, t_list = [], t_gc = [], t_reads = [] \<rparr>"

definition db_init :: "(gaddr \<Rightarrow> byte list) \<Rightarrow> Sys" where
  "db_init d = \<lparr> sys_store = \<lparr> st_lock = (\<lambda>_. Free), st_data = d, st_freed = [] \<rparr>, sys_thr = (\<lambda>_. idle), sys_log = [] \<rparr>"

abbreviation put_thr :: "nat \<Rightarrow> Thread \<Rightarrow> GStore \<Rightarrow> Sys \<Rightarrow> Sys" where
  "put_thr i t st s \<equiv> s \<lparr> sys_store := st, sys_thr := (sys_thr s)(i := t) \<rparr>"

definition writes_of_list :: "Access list \<Rightarrow> (gaddr \<times> byte list) list" where
  "writes_of_list al = map (\<lambda>x. (access_addr x, access_record x)) (filter writes_back al)"

inductive txn_step :: "nat \<Rightarrow> Sys \<Rightarrow> Sys \<Rightarrow> bool" for n :: nat where
  select: "i < n \<Longrightarrow> t = sys_thr s i \<Longrightarrow> t_phase t = Running \<Longrightarrow> ty \<noteq> INSERT_ONLY \<Longrightarrow>
    SelectRecordCC a ty (t_list t) (sys_store s) = Some (True, al, st) \<Longrightarrow>
    txn_step n s (put_thr i (t \<lparr> t_list := al, t_reads := t_reads t @ [(a, st_data (sys_store s) a)] \<rparr>) st s)"
| insert: "i < n \<Longrightarrow> t = sys_thr s i \<Longrightarrow> t_phase t = Running \<Longrightarrow>
    db_InsertRecord r a (t_list t) (sys_store s) = Some (True, al, st) \<Longrightarrow>
    txn_step n s (put_thr i (t \<lparr> t_list := al \<rparr>) st s)"
| change: "i < n \<Longrightarrow> t = sys_thr s i \<Longrightarrow> t_phase t = Running \<Longrightarrow> k < length (t_list t) \<Longrightarrow>
    txn_step n s (put_thr i (t \<lparr> t_list := (t_list t)[k := (t_list t ! k) \<lparr> access_record := r \<rparr>] \<rparr>) (sys_store s) s)"
| give_up: "i < n \<Longrightarrow> t = sys_thr s i \<Longrightarrow> t_phase t = Running \<Longrightarrow>
    txn_step n s (put_thr i (t \<lparr> t_phase := Aborting, t_reads := [] \<rparr>) (sys_store s) s)"
| abort_one: "i < n \<Longrightarrow> t = sys_thr s i \<Longrightarrow> t_phase t = Aborting \<Longrightarrow> t_list t = x # xs \<Longrightarrow>
    txn_step n s (put_thr i (t \<lparr> t_list := xs \<rparr>) (abort_access x (sys_store s)) s)"
| abort_end: "i < n \<Longrightarrow> t = sys_thr s i \<Longrightarrow> t_phase t = Aborting \<Longrightarrow> t_list t = [] \<Longrightarrow>
    txn_step n s (put_thr i idle (sys_store s) s)"
| commit: "i < n \<Longrightarrow> t = sys_thr s i \<Longrightarrow> t_phase t = Running \<Longrightarrow>
    txn_step n s ((put_thr i (t \<lparr> t_phase := Committing, t_gc := t_list t, t_reads := [] \<rparr>) (sys_store s) s)
      \<lparr> sys_log := sys_log s @ [(t_reads t, writes_of_list (t_list t))] \<rparr>)"
| commit_one: "i < n \<Longrightarrow> t = sys_thr s i \<Longrightarrow> t_phase t = Committing \<Longrightarrow> t_list t = x # xs \<Longrightarrow>
    txn_step n s (put_thr i (t \<lparr> t_list := xs \<rparr>) (commit_access x (sys_store s)) s)"
| commit_end: "i < n \<Longrightarrow> t = sys_thr s i \<Longrightarrow> t_phase t = Committing \<Longrightarrow> t_list t = [] \<Longrightarrow>
    txn_step n s (put_thr i idle (fold free_deleted (t_gc t) (sys_store s)) s)"

inductive reachable_db :: "nat \<Rightarrow> (gaddr \<Rightarrow> byte list) \<Rightarrow> Sys \<Rightarrow> bool" for n :: nat and d :: "gaddr \<Rightarrow> byte list" where
  start: "reachable_db n d (db_init d)"
| step: "reachable_db n d s \<Longrightarrow> txn_step n s s' \<Longrightarrow> reachable_db n d s'"

text \<open>Running the committed transactions one after the other.\<close>

definition put_all :: "(gaddr \<times> byte list) list \<Rightarrow> (gaddr \<Rightarrow> byte list) \<Rightarrow> gaddr \<Rightarrow> byte list" where
  "put_all ws d = fold (\<lambda>(a, v) d. d(a := v)) ws d"

fun replay :: "(gaddr \<Rightarrow> byte list) \<Rightarrow> footprint list \<Rightarrow> gaddr \<Rightarrow> byte list" where
  "replay d [] = d"
| "replay d ((rs, ws) # l) = replay (put_all ws d) l"

fun serial :: "(gaddr \<Rightarrow> byte list) \<Rightarrow> footprint list \<Rightarrow> bool" where
  "serial d [] = True"
| "serial d ((rs, ws) # l) \<longleftrightarrow> list_all (\<lambda>(a, v). d a = v) rs \<and> serial (put_all ws d) l"

subsection \<open>Counting locks\<close>





lemma mark_visible_is_SetVisible:
  "InsertColumns cs s = Some s' \<Longrightarrow> length r = GetSchemaSize s' \<Longrightarrow> cs \<noteq> [] \<Longrightarrow> column_size (last cs) = 1 \<Longrightarrow>
    SetVisible s' b r = Some (mark_visible b r)"
  unfolding mark_visible_def by (rule SetVisible_last_byte)




















lemma fold_free_lock [simp]: "st_lock (fold free_deleted xs st) = st_lock st" "st_data (fold free_deleted xs st) = st_data st"
  by (induction xs arbitrary: st) (simp_all add: free_deleted_def)


subsection \<open>What the committed transactions have written\<close>

lemma replay_append [simp]: "replay d (l @ [(rs, ws)]) = put_all ws (replay d l)"
  by (induction l arbitrary: d) auto

lemma serial_append [simp]: "serial d (l @ [(rs, ws)]) \<longleftrightarrow> serial d l \<and> list_all (\<lambda>(a, v). replay d l a = v) rs"
  by (induction l arbitrary: d) auto

lemma put_all_Cons [simp]: "put_all [] d = d" "put_all ((a, v) # ws) d = put_all ws (d(a := v))"
  by (simp_all add: put_all_def)













lemma abort_access_data [simp]: "st_data (abort_access x st) = st_data st"
  by (simp add: abort_access_def UnLockRecord_def Let_def)










text \<open>The calls of the manager are runs of the system, in which a thread is not interrupted.\<close>

lemma commit_loop:
  assumes "i < n" "t_phase (sys_thr s i) = Committing"
  shows "(txn_step n)\<^sup>*\<^sup>* s (put_thr i ((sys_thr s i) \<lparr> t_list := [] \<rparr>) (fold commit_access (t_list (sys_thr s i)) (sys_store s)) s)"
  using assms
proof (induction "t_list (sys_thr s i)" arbitrary: s)
  case Nil
  then have "put_thr i ((sys_thr s i) \<lparr> t_list := [] \<rparr>) (fold commit_access (t_list (sys_thr s i)) (sys_store s)) s = s"
    by (simp add: fun_upd_idem del: fun_upd_apply flip: Nil(1))
  then show ?case by (simp only: rtranclp.rtrancl_refl)
next
  case (Cons x xs)
  let ?s = "put_thr i ((sys_thr s i) \<lparr> t_list := xs \<rparr>) (commit_access x (sys_store s)) s"
  have "txn_step n s ?s" using Cons by (intro txn_step.commit_one) simp_all
  moreover have "(txn_step n)\<^sup>*\<^sup>* ?s (put_thr i ((sys_thr ?s i) \<lparr> t_list := [] \<rparr>) (fold commit_access (t_list (sys_thr ?s i)) (sys_store ?s)) ?s)"
    using Cons by (intro Cons.hyps(1)) simp_all
  ultimately show ?case using Cons(2) [symmetric] by (simp add: converse_rtranclp_into_rtranclp)
qed

lemma commit_is_a_run:
  assumes "i < n" "t_phase (sys_thr s i) = Running" "CommitTransaction (t_list (sys_thr s i)) (sys_store s) = (ok, al, st)"
  shows "\<exists>s'. (txn_step n)\<^sup>*\<^sup>* s s' \<and> sys_store s' = st \<and> sys_thr s' i = idle \<and> al = []"
proof -
  let ?t = "sys_thr s i"
  let ?s1 = "(put_thr i (?t \<lparr> t_phase := Committing, t_gc := t_list ?t, t_reads := [] \<rparr>) (sys_store s) s)
      \<lparr> sys_log := sys_log s @ [(t_reads ?t, writes_of_list (t_list ?t))] \<rparr>"
  let ?s2 = "put_thr i ((sys_thr ?s1 i) \<lparr> t_list := [] \<rparr>) (fold commit_access (t_list (sys_thr ?s1 i)) (sys_store ?s1)) ?s1"
  let ?s3 = "put_thr i idle (fold free_deleted (t_gc (sys_thr ?s2 i)) (sys_store ?s2)) ?s2"
  have "txn_step n s ?s1" using assms by (intro txn_step.commit) simp_all
  also have "(txn_step n)\<^sup>*\<^sup>* ?s1 ?s2" using assms(1) by (rule commit_loop) simp
  also have "txn_step n ?s2 ?s3" using assms(1) by (intro txn_step.commit_end) simp_all
  finally have "(txn_step n)\<^sup>*\<^sup>* s ?s3" .
  then show ?thesis using assms(3) by (intro exI [of _ ?s3]) (simp add: CommitTransaction_def)
qed













end
