(* ===== verification/Hash_Index.thy ===== *)
theory Hash_Index
  imports GAddress "HOL-Library.Monad_Syntax"
begin

text \<open>
  The primary index of a table (\<open>database/storage/HashIndex.h\<close>, \<open>HashIndexHelper.h\<close>): buckets of linked nodes
  in the shared memory, one per key, each with linked groups of at most \<open>SLOT_NUM\<close> record addresses. The objects of
  the index are a map from addresses to nodes and one to groups; the header of bucket \<open>i\<close>, an element of an array in
  shared memory, is \<open>im_heads i\<close>. \<open>im_pool\<close> are the addresses \<open>AlignedMalloc\<close> will return. Records are
  inserted while a single thread populates the tables, so the lock of a bucket is always free. \<open>None\<close> is a failed
  \<open>assert\<close>, an address without an object, or no memory.
\<close>

subsection \<open>Objects in shared memory\<close>

definition SLOT_NUM :: nat where "SLOT_NUM = 2"

text \<open>\<open>record_ptrs_count_\<close> is the length of \<open>record_ptrs\<close>.\<close>

record Items =
  record_ptrs :: "gaddr list"
  it_next :: gaddr

record BucketNode =
  bn_key :: "64 word"
  bn_next :: gaddr
  items_list :: gaddr

record IMem =
  im_nodes :: "gaddr \<rightharpoonup> BucketNode"
  im_items :: "gaddr \<rightharpoonup> Items"
  im_heads :: "nat \<Rightarrow> gaddr"
  im_pool :: "gaddr list"
  record_count :: nat

definition Items_Init :: Items where "Items_Init = \<lparr> record_ptrs = [], it_next = Gnullptr \<rparr>"

definition AddRecordPtr :: "gaddr \<Rightarrow> Items \<Rightarrow> (bool \<times> Items) option" where
  "AddRecordPtr p it =
     (if length (record_ptrs it) > SLOT_NUM then None
      else if length (record_ptrs it) = SLOT_NUM then Some (False, it)
      else Some (True, it \<lparr> record_ptrs := record_ptrs it @ [p] \<rparr>))"

definition idx_malloc :: "IMem \<Rightarrow> (gaddr \<times> IMem) option" where
  "idx_malloc m = (case im_pool m of [] \<Rightarrow> None | a # p \<Rightarrow> Some (a, m \<lparr> im_pool := p \<rparr>))"

definition put_node :: "gaddr \<Rightarrow> BucketNode \<Rightarrow> IMem \<Rightarrow> IMem" where
  "put_node a n m = m \<lparr> im_nodes := (im_nodes m)(a \<mapsto> n) \<rparr>"

definition put_items :: "gaddr \<Rightarrow> Items \<Rightarrow> IMem \<Rightarrow> IMem" where
  "put_items a it m = m \<lparr> im_items := (im_items m)(a \<mapsto> it) \<rparr>"

subsection \<open>A bucket\<close>

text \<open>The loop over the nodes: the node of the key, if there is one, and the last node passed before.\<close>

partial_function (option) find_node :: "IMem \<Rightarrow> 64 word \<Rightarrow> gaddr \<Rightarrow> gaddr \<Rightarrow> (gaddr \<times> gaddr) option" where
  "find_node m key cur prev =
     (if cur = Gnullptr then Some (cur, prev)
      else do {
        n \<leftarrow> im_nodes m cur;
        if bn_key n = key then Some (cur, prev) else find_node m key (bn_next n) cur })"

definition insert_existing :: "gaddr \<Rightarrow> gaddr \<Rightarrow> IMem \<Rightarrow> IMem option" where
  "insert_existing cur p m = do {
     n \<leftarrow> im_nodes m cur;
     it \<leftarrow> im_items m (items_list n);
     (ok, it) \<leftarrow> AddRecordPtr p it;
     if ok then Some (put_items (items_list n) it m)
     else do {
       (_, new_items) \<leftarrow> AddRecordPtr p Items_Init;
       (a, m) \<leftarrow> idx_malloc m;
       let m = put_items a (new_items \<lparr> it_next := items_list n \<rparr>) m;
       Some (put_node cur (n \<lparr> items_list := a \<rparr>) m) } }"

definition insert_new :: "nat \<Rightarrow> 64 word \<Rightarrow> gaddr \<Rightarrow> gaddr \<Rightarrow> IMem \<Rightarrow> IMem option" where
  "insert_new i key prev p m = do {
     (_, new_items) \<leftarrow> AddRecordPtr p Items_Init;
     (a, m) \<leftarrow> idx_malloc m;
     let m = put_items a new_items m;
     (b, m) \<leftarrow> idx_malloc m;
     let m = put_node b \<lparr> bn_key = key, bn_next = Gnullptr, items_list = a \<rparr> m;
     if prev \<noteq> Gnullptr
     then do {
       pn \<leftarrow> im_nodes m prev;
       if bn_next pn = Gnullptr then Some (put_node prev (pn \<lparr> bn_next := b \<rparr>) m) else None }
     else if im_heads m i = Gnullptr then Some (m \<lparr> im_heads := (im_heads m)(i := b) \<rparr>) else None }"

definition InsertNode :: "nat \<Rightarrow> 64 word \<Rightarrow> gaddr \<Rightarrow> IMem \<Rightarrow> (bool \<times> IMem) option" where
  "InsertNode i key p m = do {
     (cur, prev) \<leftarrow> find_node m key (im_heads m i) Gnullptr;
     if cur \<noteq> Gnullptr then do { m \<leftarrow> insert_existing cur p m; Some (False, m) }
     else do { m \<leftarrow> insert_new i key prev p m; Some (True, m) } }"

definition SearchNode :: "nat \<Rightarrow> 64 word \<Rightarrow> IMem \<Rightarrow> gaddr option option" where
  "SearchNode i key m = do {
     (cur, _) \<leftarrow> find_node m key (im_heads m i) Gnullptr;
     if cur \<noteq> Gnullptr then do { n \<leftarrow> im_nodes m cur; Some (Some (items_list n)) } else Some None }"

subsection \<open>The index\<close>

definition idx_Hash :: "nat \<Rightarrow> 64 word \<Rightarrow> nat" where "idx_Hash nb key = unat key mod nb"

definition idx_Init :: "gaddr list \<Rightarrow> IMem" where
  "idx_Init pool = \<lparr> im_nodes = Map.empty, im_items = Map.empty, im_heads = (\<lambda>_. Gnullptr), im_pool = pool, record_count = 0 \<rparr>"

definition idx_InsertRecord :: "nat \<Rightarrow> 64 word \<Rightarrow> gaddr \<Rightarrow> IMem \<Rightarrow> (bool \<times> IMem) option" where
  "idx_InsertRecord nb key p m = do {
     (ret, m) \<leftarrow> InsertNode (idx_Hash nb key) key p m;
     Some (ret, m \<lparr> record_count := Suc (record_count m) \<rparr>) }"

definition idx_SearchRecord :: "nat \<Rightarrow> 64 word \<Rightarrow> IMem \<Rightarrow> gaddr option" where
  "idx_SearchRecord nb key m = do {
     r \<leftarrow> SearchNode (idx_Hash nb key) key m;
     case r of
       None \<Rightarrow> Some Gnullptr
     | Some l \<Rightarrow> do { it \<leftarrow> im_items m l; case record_ptrs it of [] \<Rightarrow> None | p # _ \<Rightarrow> Some p } }"

text \<open>Inserting records one after the other, as the populators do.\<close>

fun insert_all :: "nat \<Rightarrow> (64 word \<times> gaddr) list \<Rightarrow> IMem \<Rightarrow> (bool list \<times> IMem) option" where
  "insert_all nb [] m = Some ([], m)"
| "insert_all nb ((key, p) # xs) m = do {
     (b, m) \<leftarrow> idx_InsertRecord nb key p m;
     (bs, m) \<leftarrow> insert_all nb xs m;
     Some (b # bs, m) }"

subsection \<open>What the index holds\<close>

text \<open>An entry of a bucket: the address of the node, its key, the address of its first group, the group.\<close>

type_synonym entry = "gaddr \<times> 64 word \<times> gaddr \<times> gaddr list"

fun chain :: "IMem \<Rightarrow> gaddr \<Rightarrow> entry list \<Rightarrow> bool" where
  "chain m a [] \<longleftrightarrow> a = Gnullptr"
| "chain m a ((x, k, l, g) # xs) \<longleftrightarrow> a = x \<and> x \<noteq> Gnullptr \<and>
     (\<exists>nx. im_nodes m x = Some \<lparr> bn_key = k, bn_next = nx, items_list = l \<rparr> \<and> chain m nx xs) \<and>
     (\<exists>o'. im_items m l = Some \<lparr> record_ptrs = g, it_next = o' \<rparr>)"

abbreviation e_node :: "entry \<Rightarrow> gaddr" where "e_node \<equiv> fst"
abbreviation e_key :: "entry \<Rightarrow> 64 word" where "e_key e \<equiv> fst (snd e)"
abbreviation e_items :: "entry \<Rightarrow> gaddr" where "e_items e \<equiv> fst (snd (snd e))"
abbreviation e_group :: "entry \<Rightarrow> gaddr list" where "e_group e \<equiv> snd (snd (snd e))"

definition entries :: "nat \<Rightarrow> (nat \<Rightarrow> entry list) \<Rightarrow> entry set" where
  "entries nb L = (\<Union>i<nb. set (L i))"

text \<open>The records of a key in the order of insertion, and the group that was begun last.\<close>

definition of_key :: "64 word \<Rightarrow> (64 word \<times> gaddr) list \<Rightarrow> gaddr list" where
  "of_key key xs = map snd (filter (\<lambda>(k, p). k = key) xs)"

definition last_group :: "gaddr list \<Rightarrow> gaddr list" where
  "last_group ps = drop (2 * ((length ps - 1) div 2)) ps"

definition index_inv :: "nat \<Rightarrow> (64 word \<times> gaddr) list \<Rightarrow> IMem \<Rightarrow> (nat \<Rightarrow> entry list) \<Rightarrow> bool" where
  "index_inv nb xs m L \<longleftrightarrow>
     (\<forall>i<nb. chain m (im_heads m i) (L i) \<and> distinct (map e_key (L i)) \<and> (\<forall>e \<in> set (L i). idx_Hash nb (e_key e) = i)) \<and>
     (\<forall>e \<in> entries nb L. \<forall>e' \<in> entries nb L. e_node e = e_node e' \<or> e_items e = e_items e' \<longrightarrow> e_key e = e_key e') \<and>
     distinct (im_pool m) \<and> Gnullptr \<notin> set (im_pool m) \<and>
     (\<forall>e \<in> entries nb L. e_node e \<notin> set (im_pool m) \<and> e_items e \<notin> set (im_pool m)) \<and>
     (\<forall>e \<in> entries nb L. of_key (e_key e) xs \<noteq> [] \<and> e_group e = last_group (of_key (e_key e) xs)) \<and>
     (\<forall>key. of_key key xs \<noteq> [] \<longrightarrow> key \<in> e_key ` set (L (idx_Hash nb key)))"

subsection \<open>Chains\<close>

lemma chain_cong:
  "chain m a es \<Longrightarrow> (\<And>e. e \<in> set es \<Longrightarrow> im_nodes m' (e_node e) = im_nodes m (e_node e) \<and> im_items m' (e_items e) = im_items m (e_items e))
    \<Longrightarrow> chain m' a es"
  by (induction es arbitrary: a) fastforce+

lemma find_node_absent:
  "chain m a es \<Longrightarrow> key \<notin> e_key ` set es \<Longrightarrow>
    find_node m key a prev = Some (Gnullptr, if es = [] then prev else e_node (last es))"
proof (induction es arbitrary: a prev)
  case (Cons e es)
  then show ?case by (cases e) (auto simp: find_node.simps [of m key a])
qed (simp add: find_node.simps)

lemma find_node_present:
  "chain m a es \<Longrightarrow> e \<in> set es \<Longrightarrow> distinct (map e_key es) \<Longrightarrow> \<exists>pv. find_node m (e_key e) a prev = Some (e_node e, pv)"
proof (induction es arbitrary: a prev)
  case (Cons d es)
  obtain x k l g where d: "d = (x, k, l, g)" by (cases d)
  with Cons.prems(1) obtain nx where n: "a = x" "x \<noteq> Gnullptr" "im_nodes m x = Some \<lparr> bn_key = k, bn_next = nx, items_list = l \<rparr>" "chain m nx es"
    by auto
  show ?case
  proof (cases "e = d")
    case False
    with Cons.prems(2,3) d have "e \<in> set es" "k \<noteq> e_key e" by force+
    with Cons.IH [OF n(4), of a] Cons.prems(3) n show ?thesis by (auto simp: find_node.simps [of m "e_key e" x])
  qed (simp add: find_node.simps [of m _ x] d n)
qed simp

lemma chain_entry:
  "chain m a es \<Longrightarrow> (x, k, l, g) \<in> set es \<Longrightarrow> x \<noteq> Gnullptr \<and> (\<exists>nx. im_nodes m x = Some \<lparr> bn_key = k, bn_next = nx, items_list = l \<rparr>) \<and>
    (\<exists>nx. im_items m l = Some \<lparr> record_ptrs = g, it_next = nx \<rparr>)"
  by (induction es arbitrary: a) fastforce+

lemma chain_end:
  "chain m a (ps @ [(x, k, l, g)]) \<Longrightarrow> im_nodes m x = Some \<lparr> bn_key = k, bn_next = nx, items_list = l \<rparr> \<Longrightarrow> nx = Gnullptr"
  by (induction ps arbitrary: a) auto

lemma chain_replace:
  assumes "chain m a (ps @ (x, k, l, g) # qs)"
    and "\<And>e. e \<in> set ps \<union> set qs \<Longrightarrow> im_nodes m' (e_node e) = im_nodes m (e_node e) \<and> im_items m' (e_items e) = im_items m (e_items e)"
    and "im_nodes m' x = map_option (items_list_update (\<lambda>_. l')) (im_nodes m x)" "im_items m' l' = Some \<lparr> record_ptrs = g', it_next = nx \<rparr>"
  shows "chain m' a (ps @ (x, k, l', g') # qs)"
  using assms
proof (induction ps arbitrary: a)
  case Nil
  then obtain n where n: "a = x" "x \<noteq> Gnullptr" "im_nodes m x = Some \<lparr> bn_key = k, bn_next = n, items_list = l \<rparr>" "chain m n qs" by auto
  have "chain m' n qs" by (rule chain_cong [OF n(4)]) (simp add: Nil.prems(2))
  with n Nil.prems(3,4) show ?case by simp
next
  case (Cons e ps)
  obtain y kk ll gg where e: "e = (y, kk, ll, gg)" by (cases e)
  from Cons.prems(1) e obtain n where n: "chain m n (ps @ (x, k, l, g) # qs)" "im_nodes m y = Some \<lparr> bn_key = kk, bn_next = n, items_list = ll \<rparr>"
    and y: "a = y" "y \<noteq> Gnullptr" "\<exists>o'. im_items m ll = Some \<lparr> record_ptrs = gg, it_next = o' \<rparr>" by auto
  have "chain m' n (ps @ (x, k, l', g') # qs)" by (rule Cons.IH [OF n(1) _ Cons.prems(3,4)]) (simp add: Cons.prems(2))
  with n(2) y Cons.prems(2) [of e] e show ?case by simp
qed

lemma chain_snoc:
  assumes "chain m a es" "es \<noteq> []" "b \<noteq> Gnullptr"
    and "\<And>e. e \<in> set es \<Longrightarrow> im_items m' (e_items e) = im_items m (e_items e)"
    and "\<And>e. e \<in> set (butlast es) \<Longrightarrow> im_nodes m' (e_node e) = im_nodes m (e_node e)"
    and "im_nodes m' (e_node (last es)) = map_option (bn_next_update (\<lambda>_. b)) (im_nodes m (e_node (last es)))"
    and "im_nodes m' b = Some \<lparr> bn_key = k, bn_next = Gnullptr, items_list = l \<rparr>" "im_items m' l = Some \<lparr> record_ptrs = g, it_next = nx \<rparr>"
  shows "chain m' a (es @ [(b, k, l, g)])"
  using assms
proof (induction es arbitrary: a)
  case (Cons e es)
  obtain y kk ll gg where e: "e = (y, kk, ll, gg)" by (cases e)
  from Cons.prems(1) e obtain n where n: "chain m n es" "im_nodes m y = Some \<lparr> bn_key = kk, bn_next = n, items_list = ll \<rparr>"
    and y: "a = y" "y \<noteq> Gnullptr" "\<exists>o'. im_items m ll = Some \<lparr> record_ptrs = gg, it_next = o' \<rparr>" by auto
  note old = Cons.prems(4) [of e]
  show ?case
  proof (cases "es = []")
    case True
    with n y old e Cons.prems(3,6-8) show ?thesis by simp
  next
    case False
    have "chain m' n (es @ [(b, k, l, g)])"
      by (rule Cons.IH [OF n(1) False]) (use False Cons.prems(3-8) in simp_all)
    with n y old e Cons.prems(5) [of e] False show ?thesis by simp
  qed
qed simp

subsection \<open>Insertion\<close>

lemma of_key_snoc: "of_key k (xs @ [(key, p)]) = of_key k xs @ (if key = k then [p] else [])"
  by (simp add: of_key_def)

lemma last_group_snoc:
  assumes "ps \<noteq> []"
  shows "last_group (ps @ [p]) = (if length (last_group ps) = 2 then [p] else last_group ps @ [p])" "last_group ps \<noteq> []" "length (last_group ps) \<le> 2"
proof -
  have "length ps = 2 * ((length ps - 1) div 2) + 1 \<or> length ps = 2 * ((length ps - 1) div 2) + 2"
    using assms by (cases ps) (simp, simp, presburger)
  then obtain n where n: "length ps = 2 * n + 1 \<or> length ps = 2 * n + 2" ..
  then show "last_group (ps @ [p]) = (if length (last_group ps) = 2 then [p] else last_group ps @ [p])" "last_group ps \<noteq> []" "length (last_group ps) \<le> 2"
    by (auto simp: last_group_def)
qed

lemma index_invD:
  assumes "index_inv nb xs m L"
  shows "i < nb \<Longrightarrow> chain m (im_heads m i) (L i)" "i < nb \<Longrightarrow> distinct (map e_key (L i))"
    "i < nb \<Longrightarrow> e \<in> set (L i) \<Longrightarrow> idx_Hash nb (e_key e) = i"
    "e \<in> entries nb L \<Longrightarrow> e' \<in> entries nb L \<Longrightarrow> e_node e = e_node e' \<or> e_items e = e_items e' \<Longrightarrow> e_key e = e_key e'"
    "distinct (im_pool m)" "Gnullptr \<notin> set (im_pool m)"
    "e \<in> entries nb L \<Longrightarrow> e_node e \<notin> set (im_pool m) \<and> e_items e \<notin> set (im_pool m)"
    "e \<in> entries nb L \<Longrightarrow> of_key (e_key e) xs \<noteq> [] \<and> e_group e = last_group (of_key (e_key e) xs)"
    "of_key key xs \<noteq> [] \<Longrightarrow> key \<in> e_key ` set (L (idx_Hash nb key))"
  using assms unfolding index_inv_def by blast+

lemma entriesI: "i < nb \<Longrightarrow> e \<in> set (L i) \<Longrightarrow> e \<in> entries nb L"
  by (auto simp: entries_def)

lemma inv_update:
  assumes inv: "index_inv nb xs m L" and i: "i = idx_Hash nb key" "i < nb"
    and es: "\<And>d. d \<in> set es \<Longrightarrow> d = e \<or> d \<in> set (L i) \<and> e_key d \<noteq> key" "e \<in> set es" "e_key e = key" "distinct (map e_key es)"
      "e_key ` set (L i) \<subseteq> e_key ` set es" "chain m' (im_heads m' i) es"
    and heads: "\<And>j. j \<noteq> i \<Longrightarrow> im_heads m' j = im_heads m j"
    and frame: "\<And>d j. j < nb \<Longrightarrow> j \<noteq> i \<Longrightarrow> d \<in> set (L j) \<Longrightarrow> im_nodes m' (e_node d) = im_nodes m (e_node d) \<and> im_items m' (e_items d) = im_items m (e_items d)"
    and pool: "distinct (im_pool m')" "set (im_pool m') \<subseteq> set (im_pool m)" "e_node e \<notin> set (im_pool m')" "e_items e \<notin> set (im_pool m')"
    and fresh: "\<And>d. d \<in> entries nb L \<Longrightarrow> e_key d \<noteq> key \<Longrightarrow> e_node d \<noteq> e_node e \<and> e_items d \<noteq> e_items e"
    and group: "e_group e = last_group (of_key key xs @ [p])"
  shows "index_inv nb (xs @ [(key, p)]) m' (L(i := es))"
proof -
  note I = index_invD [OF inv]
  have E: "d = e \<or> d \<in> entries nb L \<and> e_key d \<noteq> key" if "d \<in> entries nb (L(i := es))" for d
  proof -
    from that obtain j where j: "j < nb" "d \<in> set ((L(i := es)) j)" by (auto simp: entries_def)
    show ?thesis
    proof (cases "j = i")
      case True
      with j es(1) [of d] entriesI [of i nb d L] i(2) show ?thesis by auto
    next
      case False
      with j have "d \<in> set (L j)" by simp
      with I(3) [OF j(1) this] entriesI [of j nb d L] j(1) False i(1) show ?thesis by auto
    qed
  qed
  have c1: "chain m' (im_heads m' j) ((L(i := es)) j) \<and> distinct (map e_key ((L(i := es)) j)) \<and>
      (\<forall>d \<in> set ((L(i := es)) j). idx_Hash nb (e_key d) = j)" if j: "j < nb" for j
  proof (cases "j = i")
    case True
    have "idx_Hash nb (e_key d) = i" if "d \<in> set es" for d
      using es(1) [OF that] es(3) I(3) [OF i(2), of d] i(1) by auto
    with True es(4,6) show ?thesis by simp
  next
    case False
    have "chain m' (im_heads m j) (L j)" by (rule chain_cong [OF I(1) [OF j]]) (rule frame [OF j False])
    with I(2,3) [OF j] False heads [OF False] show ?thesis by simp
  qed
  have c2: "e_key d = e_key d'" if "d \<in> entries nb (L(i := es))" "d' \<in> entries nb (L(i := es))" "e_node d = e_node d' \<or> e_items d = e_items d'" for d d'
    using E [OF that(1)] E [OF that(2)] that(3) fresh [of d] fresh [of d'] I(4) [of d d'] by auto
  have c3: "e_node d \<notin> set (im_pool m') \<and> e_items d \<notin> set (im_pool m')" if "d \<in> entries nb (L(i := es))" for d
    using E [OF that] pool(2-4) I(7) [of d] by auto
  have c4: "of_key (e_key d) (xs @ [(key, p)]) \<noteq> [] \<and> e_group d = last_group (of_key (e_key d) (xs @ [(key, p)]))"
    if "d \<in> entries nb (L(i := es))" for d
    using E [OF that] group es(3) I(8) [of d] by (auto simp: of_key_snoc)
  have c5: "k \<in> e_key ` set ((L(i := es)) (idx_Hash nb k))" if "of_key k (xs @ [(key, p)]) \<noteq> []" for k
  proof (cases "k = key")
    case True
    with es(2,3) i(1) show ?thesis by auto
  next
    case False
    with that I(9) [of k] have "k \<in> e_key ` set (L (idx_Hash nb k))" by (simp add: of_key_snoc)
    with es(5) show ?thesis by (cases "idx_Hash nb k = i") auto
  qed
  have c6: "Gnullptr \<notin> set (im_pool m')" using pool(2) I(6) by blast
  show ?thesis unfolding index_inv_def
  proof (intro conjI)
    show "\<forall>j<nb. chain m' (im_heads m' j) ((L(i := es)) j) \<and> distinct (map e_key ((L(i := es)) j)) \<and>
      (\<forall>d \<in> set ((L(i := es)) j). idx_Hash nb (e_key d) = j)" using c1 by blast
  qed (rule ballI impI allI pool(1) c2 c3 c4 c5 c6 | assumption)+
qed

lemma inv_replace:
  assumes inv: "index_inv nb xs m L" and i: "i = idx_Hash nb key" "i < nb" and L: "L i = ps @ (x, key, l, g) # qs"
    and m': "im_heads m' = im_heads m" "\<And>y. y \<noteq> x \<Longrightarrow> im_nodes m' y = im_nodes m y" "im_nodes m' x = map_option (items_list_update (\<lambda>_. l')) (im_nodes m x)"
      "\<And>y. y \<noteq> l' \<Longrightarrow> im_items m' y = im_items m y" "im_items m' l' = Some \<lparr> record_ptrs = g', it_next = nx \<rparr>"
    and pool: "distinct (im_pool m')" "set (im_pool m') \<subseteq> set (im_pool m)" "l' = l \<or> l' \<in> set (im_pool m)" "l' \<notin> set (im_pool m')"
    and g': "g' = last_group (of_key key xs @ [p])"
  shows "index_inv nb (xs @ [(key, p)]) m' (L(i := ps @ (x, key, l', g') # qs))"
proof -
  note I = index_invD [OF inv]
  let ?e = "(x, key, l, g)"
  have e: "?e \<in> entries nb L" by (rule entriesI [of i]) (simp_all add: i(2) L)
  have other: "e_node d \<noteq> x \<and> e_items d \<noteq> l'" if "d \<in> entries nb L" "e_key d \<noteq> key" for d
    using I(4) [OF that(1) e] I(7) [OF that(1)] that(2) pool(3) by auto
  have d: "distinct (map e_key (ps @ ?e # qs))" using I(2) [OF i(2)] L by simp
  have pq: "d \<in> entries nb L \<and> e_key d \<noteq> key" if "d \<in> set ps \<union> set qs" for d
    using that d entriesI [of i nb d L] i(2) L by auto
  have same: "im_nodes m' (e_node d) = im_nodes m (e_node d) \<and> im_items m' (e_items d) = im_items m (e_items d)" if "d \<in> entries nb L" "e_key d \<noteq> key" for d
    using other [OF that] m'(2,4) by blast
  have ch: "chain m' (im_heads m' i) (ps @ (x, key, l', g') # qs)"
    by (rule chain_replace [of m _ _ _ _ l g]) (use I(1) [OF i(2)] L m'(1,3,5) same pq in auto)
  show ?thesis
  proof (rule inv_update [OF inv i, where e = "(x, key, l', g')"])
    show "d = (x, key, l', g') \<or> d \<in> set (L i) \<and> e_key d \<noteq> key" if "d \<in> set (ps @ (x, key, l', g') # qs)" for d
      using that pq [of d] L by auto
    show "im_nodes m' (e_node d) = im_nodes m (e_node d) \<and> im_items m' (e_items d) = im_items m (e_items d)" if "j < nb" "j \<noteq> i" "d \<in> set (L j)" for d j
      using same [OF entriesI [of j nb d L]] I(3) [OF that(1,3)] that i(1) by auto
    show "e_node (x, key, l', g') \<notin> set (im_pool m')" using I(7) [OF e] pool(2) by auto
  qed (use d L ch m'(1) pool other g' in auto)
qed

lemma inv_append:
  assumes inv: "index_inv nb xs m L" and i: "i = idx_Hash nb key" "i < nb" and new: "of_key key xs = []" and pl: "im_pool m = a # b # pool"
    and m': "im_pool m' = pool" "im_items m' = (im_items m)(a \<mapsto> \<lparr> record_ptrs = [p], it_next = Gnullptr \<rparr>)"
      "\<And>j. j \<noteq> i \<Longrightarrow> im_heads m' j = im_heads m j" "chain m' (im_heads m' i) (L i @ [(b, key, a, [p])])"
      "\<And>y. y \<notin> e_node ` set (L i) \<Longrightarrow> y \<noteq> b \<Longrightarrow> im_nodes m' y = im_nodes m y"
  shows "index_inv nb (xs @ [(key, p)]) m' (L(i := L i @ [(b, key, a, [p])]))"
proof -
  note I = index_invD [OF inv]
  have fresh: "e_key d \<noteq> key \<and> e_node d \<noteq> b \<and> e_items d \<noteq> a" if "d \<in> entries nb L" for d
    using I(7,8) [OF that] new pl by auto
  show ?thesis
  proof (rule inv_update [OF inv i, where e = "(b, key, a, [p])"])
    show "d = (b, key, a, [p]) \<or> d \<in> set (L i) \<and> e_key d \<noteq> key" if "d \<in> set (L i @ [(b, key, a, [p])])" for d
      using that fresh [of d] entriesI [of i nb d L] i(2) by auto
    show "im_nodes m' (e_node d) = im_nodes m (e_node d) \<and> im_items m' (e_items d) = im_items m (e_items d)" if j: "j < nb" "j \<noteq> i" "d \<in> set (L j)" for d j
    proof -
      have d: "d \<in> entries nb L" using j entriesI [of j nb d L] by simp
      have "e_node d \<notin> e_node ` set (L i)"
        using I(4) [OF d entriesI [of i nb _ L]] I(3) [OF j(1,3)] I(3) [OF i(2)] i(2) j(2) by fastforce
      with m'(2,5) fresh [OF d] show ?thesis by simp
    qed
    show "distinct (map e_key (L i @ [(b, key, a, [p])]))"
      using I(2) [OF i(2)] fresh entriesI [of i nb _ L] i(2) by fastforce
  qed (use m' pl I(5) fresh new in \<open>auto simp: last_group_def\<close>)
qed

text \<open>The record count is no part of the invariant.\<close>

lemma chain_count: "chain (m \<lparr> record_count := n \<rparr>) a es = chain m a es"
  by (induction m a es rule: chain.induct) simp_all

lemma inv_count: "index_inv nb xs (m \<lparr> record_count := n \<rparr>) L = index_inv nb xs m L"
  by (simp add: index_inv_def chain_count)

lemma insert_existing_keeps:
  assumes inv: "index_inv nb xs m L" and i: "i = idx_Hash nb key" "i < nb" and e: "(x, key, l, g) \<in> set (L i)" and pl: "im_pool m = a # pool"
  shows "\<exists>m' L'. insert_existing x p m = Some m' \<and> index_inv nb (xs @ [(key, p)]) m' L' \<and> length pool \<le> length (im_pool m')"
proof -
  note I = index_invD [OF inv]
  obtain ps qs where L: "L i = ps @ (x, key, l, g) # qs" using e by (meson split_list)
  obtain nx o' where n: "im_nodes m x = Some \<lparr> bn_key = key, bn_next = nx, items_list = l \<rparr>" "im_items m l = Some \<lparr> record_ptrs = g, it_next = o' \<rparr>"
    using chain_entry [OF I(1) [OF i(2)] e] by blast
  have mem: "(x, key, l, g) \<in> entries nb L" by (rule entriesI [of i]) (use i e in simp_all)
  have ne: "of_key key xs \<noteq> []" and g: "g = last_group (of_key key xs)" using I(8) [OF mem] by simp_all
  note lg = last_group_snoc(1) [OF ne, of p, folded g] last_group_snoc(2,3) [OF ne, folded g]
  show ?thesis
  proof (cases "length g = 2")
    case False
    let ?m = "put_items l \<lparr> record_ptrs = g @ [p], it_next = o' \<rparr> m"
    have "index_inv nb (xs @ [(key, p)]) ?m (L(i := ps @ (x, key, l, g @ [p]) # qs))"
      by (rule inv_replace [OF inv i L]) (use False lg n I(5) I(7) [OF mem] in \<open>auto simp: put_items_def\<close>)
    moreover have "insert_existing x p m = Some ?m"
      using False lg n by (simp add: insert_existing_def AddRecordPtr_def SLOT_NUM_def)
    ultimately show ?thesis using pl by (auto simp: put_items_def)
  next
    case True
    let ?m = "put_node x \<lparr> bn_key = key, bn_next = nx, items_list = a \<rparr> (put_items a \<lparr> record_ptrs = [p], it_next = l \<rparr> (m \<lparr> im_pool := pool \<rparr>))"
    have "index_inv nb (xs @ [(key, p)]) ?m (L(i := ps @ (x, key, a, [p]) # qs))"
      by (rule inv_replace [OF inv i L]) (use True lg n pl I(5) in \<open>auto simp: put_items_def put_node_def\<close>)
    moreover have "insert_existing x p m = Some ?m"
      using True n pl by (simp add: insert_existing_def AddRecordPtr_def SLOT_NUM_def Items_Init_def idx_malloc_def)
    ultimately show ?thesis by (auto simp: put_items_def put_node_def)
  qed
qed

lemma insert_new_keeps:
  assumes inv: "index_inv nb xs m L" and i: "i = idx_Hash nb key" "i < nb" and new: "of_key key xs = []" and pl: "im_pool m = a # b # pool"
  shows "\<exists>m' L'. insert_new i key (if L i = [] then Gnullptr else e_node (last (L i))) p m = Some m' \<and>
    index_inv nb (xs @ [(key, p)]) m' L' \<and> im_pool m' = pool"
proof -
  note I = index_invD [OF inv]
  note ch = I(1) [OF i(2)]
  let ?it = "\<lparr> record_ptrs = [p], it_next = Gnullptr \<rparr>" and ?n = "\<lparr> bn_key = key, bn_next = Gnullptr, items_list = a \<rparr>"
  let ?m = "put_node b ?n (put_items a ?it (m \<lparr> im_pool := pool \<rparr>))"
  note ops = insert_new_def AddRecordPtr_def SLOT_NUM_def Items_Init_def idx_malloc_def put_items_def put_node_def pl
  have ab: "a \<noteq> b" "b \<noteq> Gnullptr" using I(5,6) pl by auto
  have fresh: "e_node d \<noteq> b \<and> e_items d \<noteq> a" if "d \<in> set (L i)" for d
    using I(7) [OF entriesI [of i nb d L]] that i(2) pl by auto
  show ?thesis
  proof (cases "L i = []")
    case True
    let ?m' = "?m \<lparr> im_heads := (im_heads m)(i := b) \<rparr>"
    have "insert_new i key Gnullptr p m = Some ?m'" using ch True by (simp add: ops)
    moreover have "index_inv nb (xs @ [(key, p)]) ?m' (L(i := L i @ [(b, key, a, [p])]))"
      by (rule inv_append [OF inv i new pl]) (use True ab in \<open>auto simp: put_items_def put_node_def\<close>)
    ultimately show ?thesis using True by (auto simp: put_items_def put_node_def)
  next
    case False
    obtain ps x k l g where L: "L i = ps @ [(x, k, l, g)]" using False by (metis append_butlast_last_id prod_cases4)
    obtain nx where n: "im_nodes m x = Some \<lparr> bn_key = k, bn_next = nx, items_list = l \<rparr>" "x \<noteq> Gnullptr"
      using chain_entry [OF ch, of x k l g] L by auto
    have nx: "nx = Gnullptr" using ch n(1) unfolding L by (rule chain_end)
    let ?m' = "put_node x \<lparr> bn_key = k, bn_next = b, items_list = l \<rparr> ?m"
    have xb: "x \<noteq> b" using fresh [of "(x, k, l, g)"] L by simp
    have "insert_new i key x p m = Some ?m'" using n nx xb by (simp add: ops)
    moreover have "index_inv nb (xs @ [(key, p)]) ?m' (L(i := L i @ [(b, key, a, [p])]))"
    proof (rule inv_append [OF inv i new pl])
      have "e_node d \<noteq> x" if "d \<in> set ps" for d
        using I(4) [OF entriesI [of i nb d L] entriesI [of i nb "(x, k, l, g)" L]] I(2) [OF i(2)] that i(2) L by auto
      then show "chain ?m' (im_heads ?m' i) (L i @ [(b, key, a, [p])])"
        by (intro chain_snoc [of m, where nx = Gnullptr]) (use ch L n ab xb fresh in \<open>auto simp: put_items_def put_node_def\<close>)
    qed (use L in \<open>auto simp: put_items_def put_node_def\<close>)
    ultimately show ?thesis using False L by (auto simp: put_items_def put_node_def)
  qed
qed

lemma insert_keeps:
  assumes inv: "index_inv nb xs m L" and nb: "0 < nb" and pl: "2 \<le> length (im_pool m)"
  shows "\<exists>m' L'. idx_InsertRecord nb key p m = Some (of_key key xs = [], m') \<and> index_inv nb (xs @ [(key, p)]) m' L' \<and>
    length (im_pool m) \<le> length (im_pool m') + 2"
proof -
  note I = index_invD [OF inv]
  let ?i = "idx_Hash nb key"
  have i: "?i < nb" using nb by (simp add: idx_Hash_def)
  obtain a b pool where p: "im_pool m = a # b # pool" using pl by (auto simp: Suc_le_length_iff numeral_2_eq_2)
  have "\<exists>m' L'. InsertNode ?i key p m = Some (of_key key xs = [], m') \<and> index_inv nb (xs @ [(key, p)]) m' L' \<and>
    length (im_pool m) \<le> length (im_pool m') + 2"
  proof (cases "of_key key xs = []")
    case True
    then have "key \<notin> e_key ` set (L ?i)" using I(8) [OF entriesI [of ?i nb _ L]] i by auto
    note f = find_node_absent [OF I(1) [OF i] this, of Gnullptr]
    obtain m' L' where "insert_new ?i key (if L ?i = [] then Gnullptr else e_node (last (L ?i))) p m = Some m'"
      "index_inv nb (xs @ [(key, p)]) m' L'" "im_pool m' = pool" using insert_new_keeps [OF inv refl i True p, of p] by blast
    with f True p show ?thesis by (intro exI [of _ m'] exI [of _ L']) (simp add: InsertNode_def)
  next
    case False
    then obtain x l g where e: "(x, key, l, g) \<in> set (L ?i)" using I(9) by fastforce
    obtain pv where f: "find_node m key (im_heads m ?i) Gnullptr = Some (x, pv)"
      using find_node_present [OF I(1) [OF i] e I(2) [OF i]] by auto
    obtain m' L' where "insert_existing x p m = Some m'" "index_inv nb (xs @ [(key, p)]) m' L'" "length (b # pool) \<le> length (im_pool m')"
      using insert_existing_keeps [OF inv refl i e p, of p] by blast
    with f False p chain_entry [OF I(1) [OF i] e] show ?thesis
      by (intro exI [of _ m'] exI [of _ L']) (simp add: InsertNode_def)
  qed
  then obtain m' L' where "InsertNode ?i key p m = Some (of_key key xs = [], m')" "index_inv nb (xs @ [(key, p)]) m' L'"
    "length (im_pool m) \<le> length (im_pool m') + 2" by blast
  then show ?thesis by (intro exI [of _ "m' \<lparr> record_count := Suc (record_count m') \<rparr>"] exI [of _ L']) (simp add: idx_InsertRecord_def inv_count)
qed

lemma search_finds:
  assumes "index_inv nb xs m L" "0 < nb"
  shows "idx_SearchRecord nb key m = Some (if of_key key xs = [] then Gnullptr else hd (last_group (of_key key xs)))"
proof -
  note I = index_invD [OF assms(1)]
  let ?i = "idx_Hash nb key"
  have i: "?i < nb" using assms(2) by (simp add: idx_Hash_def)
  show ?thesis
  proof (cases "of_key key xs = []")
    case True
    then have "key \<notin> e_key ` set (L ?i)" using I(8) [OF entriesI [of ?i nb _ L]] i by auto
    from find_node_absent [OF I(1) [OF i] this] True show ?thesis by (simp add: idx_SearchRecord_def SearchNode_def)
  next
    case False
    then obtain x l g where e: "(x, key, l, g) \<in> set (L ?i)" using I(9) by fastforce
    obtain pv where "find_node m key (im_heads m ?i) Gnullptr = Some (x, pv)"
      using find_node_present [OF I(1) [OF i] e I(2) [OF i]] by auto
    moreover have "g = last_group (of_key key xs)" using I(8) [OF entriesI [of ?i nb "(x, key, l, g)" L]] i e by simp
    moreover obtain q qs where "last_group (of_key key xs) = q # qs" using last_group_snoc(2) [OF False] by (cases "last_group (of_key key xs)") auto
    ultimately show ?thesis
      using chain_entry [OF I(1) [OF i] e] False by (auto simp: idx_SearchRecord_def SearchNode_def)
  qed
qed

lemma insert_all_keeps:
  "index_inv nb xs m L \<Longrightarrow> 0 < nb \<Longrightarrow> 2 * length ys \<le> length (im_pool m) \<Longrightarrow>
    \<exists>m' L'. insert_all nb ys m = Some (map (\<lambda>j. of_key (fst (ys ! j)) (xs @ take j ys) = []) [0..<length ys], m') \<and> index_inv nb (xs @ ys) m' L'"
proof (induction ys arbitrary: xs m L)
  case (Cons y ys)
  obtain key p where y: "y = (key, p)" by (cases y)
  obtain m1 L1 where 1: "idx_InsertRecord nb key p m = Some (of_key key xs = [], m1)" "index_inv nb (xs @ [(key, p)]) m1 L1"
    "length (im_pool m) \<le> length (im_pool m1) + 2" using insert_keeps [OF Cons.prems(1,2), of key p] Cons.prems(3) by auto
  obtain m2 L2 where 2: "insert_all nb ys m1 = Some (map (\<lambda>j. of_key (fst (ys ! j)) ((xs @ [(key, p)]) @ take j ys) = []) [0..<length ys], m2)"
    "index_inv nb ((xs @ [(key, p)]) @ ys) m2 L2"
    using Cons.IH [OF 1(2) Cons.prems(2)] Cons.prems(3) 1(3) by auto
  have "[0..<length (y # ys)] = 0 # map Suc [0..<length ys]" by (simp add: map_Suc_upt upt_conv_Cons del: upt_Suc)
  with 1(1) 2 y show ?case by (auto simp del: upt_Suc simp: comp_def)
qed auto

lemma init_inv: "distinct pool \<Longrightarrow> Gnullptr \<notin> set pool \<Longrightarrow> index_inv nb [] (idx_Init pool) (\<lambda>_. [])"
  by (simp add: index_inv_def idx_Init_def entries_def of_key_def)

text \<open>
  C39: the index finds the records that were inserted. With memory for two objects per record, a
  sequence of insertions into an empty index succeeds; each reports whether its key was new; and
  afterwards a search returns the null address for a key that was never inserted, the first record of a key that
  was inserted once or twice, and in general the first record of the group of two that was begun last.
\<close>

theorem index_finds_inserted_records:
  assumes "distinct pool" "Gnullptr \<notin> set pool" "2 * length xs \<le> length pool" "0 < nb"
  shows "\<exists>m. insert_all nb xs (idx_Init pool) = Some (map (\<lambda>j. fst (xs ! j) \<notin> fst ` set (take j xs)) [0..<length xs], m) \<and>
    (\<forall>key. idx_SearchRecord nb key m = Some (let ps = of_key key xs in if ps = [] then Gnullptr else ps ! (2 * ((length ps - 1) div 2))))"
proof -
  have k: "of_key key ys = [] \<longleftrightarrow> key \<notin> fst ` set ys" for key ys by (force simp: of_key_def filter_empty_conv)
  have h: "hd (last_group ps) = ps ! (2 * ((length ps - 1) div 2))" if "ps \<noteq> []" for ps
    using last_group_snoc(2) [OF that] by (simp add: last_group_def hd_drop_conv_nth)
  have "2 * length xs \<le> length (im_pool (idx_Init pool))" using assms(3) by (simp add: idx_Init_def)
  from insert_all_keeps [OF init_inv [OF assms(1,2)] assms(4) this] obtain m L
    where "insert_all nb xs (idx_Init pool) = Some (map (\<lambda>j. of_key (fst (xs ! j)) (take j xs) = []) [0..<length xs], m)" "index_inv nb xs m L"
    by auto
  with search_finds [OF this(2) assms(4)] show ?thesis by (auto simp: k h Let_def)
qed

theorem index_finds_inserted_records_witness:
  "\<exists>m. insert_all 2 [(1, 100), (3, 200), (1, 300), (1, 400)] (idx_Init [8, 16, 24, 32, 40, 48, 56, 64]) = Some ([True, True, False, False], m) \<and>
    idx_SearchRecord 2 3 m = Some 200 \<and> idx_SearchRecord 2 1 m = Some 400 \<and> idx_SearchRecord 2 5 m = Some Gnullptr"
proof -
  let ?xs = "[(1, 100), (3, 200), (1, 300), (1, 400)] :: (64 word \<times> gaddr) list"
  obtain m where m: "insert_all 2 ?xs (idx_Init [8, 16, 24, 32, 40, 48, 56, 64]) = Some (map (\<lambda>j. fst (?xs ! j) \<notin> fst ` set (take j ?xs)) [0..<length ?xs], m)"
    and s: "\<And>key. idx_SearchRecord 2 key m = Some (let ps = of_key key ?xs in if ps = [] then Gnullptr else ps ! (2 * ((length ps - 1) div 2)))"
    using index_finds_inserted_records [of "[8, 16, 24, 32, 40, 48, 56, 64]" ?xs 2] by auto
  have "map (\<lambda>j. fst (?xs ! j) \<notin> fst ` set (take j ?xs)) [0..<length ?xs] = [True, True, False, False]" by (simp add: upt_conv_Cons)
  moreover have "idx_SearchRecord 2 3 m = Some 200" "idx_SearchRecord 2 1 m = Some 400" "idx_SearchRecord 2 5 m = Some Gnullptr"
    by (simp_all add: s of_key_def)
  ultimately show ?thesis using m by (intro exI [of _ m]) (simp only: simp_thms)
qed

end
