(* ===== verification/Spec2Isabelle.thy ===== *)
theory Spec2Isabelle
  imports Directory Work_Request Cache_Invariant Slabs_Correct Coherence Local_Access Rdma_Resource Join Master_Correct GAlloc
    Home_Invariant Depth Transactions Hash_Index
begin

text \<open>
  \<^bold>\<open>GAM: a distributed shared memory with directory-based cache coherence over RDMA.\<close>

  \<^bold>\<open>The program.\<close> A cluster is a master and up to a few dozen workers. Each worker owns a piece of the
  global memory; a global address is a worker id and an offset into that worker's memory, and the
  memory is managed in blocks of 4096 bytes. Threads of an application call \<open>GAlloc\<close>
  (\<open>src/src/gallocator.cc\<close>), which builds a \<open>WorkRequest\<close> and hands it to the worker of the node. A request
  on memory of the node itself is served from that memory, after a look at the \<^emph>\<open>directory\<close>,
  which records for every block who caches it and who locks it. A request on memory of another node goes to
  the \<^emph>\<open>cache\<close>, and if the block is not there in a sufficient state, as a message to the block's home
  node. The home node grants it, or first asks the owner or the sharers of the block to give it up. Answers come
  back as messages or as RDMA writes with an immediate value that names the pending request.
  Messages go through the slots of a connection (\<open>src/src/rdma.cc\<close>), which delays and merges them when
  the device is busy.

  \<^bold>\<open>The theories\<close>, in the order they build on each other (paths are below \<open>src/\<close>):

  \<^item> \<open>GAM_Prelude\<close>: machine types, byte memory with \<open>memcpy\<close>, \<open>memset\<close>, shared lemmas on lists and maps.
  \<^item> \<open>GAddress\<close>: the address macros of \<open>include/structure.h\<close> and \<open>include/settings.h\<close>, and the loop over the
    blocks of a request. It ends and its segments are the bytes of the request; conversions
    between local and global addresses are inverse to each other.
  \<^item> \<open>Hash_Map\<close>: the table of \<open>include/map.h\<close>, shown to be a partial function under every sequence of
    operations. The locale \<open>kv_store\<close> is its interface; the components below use maps.
  \<^item> \<open>Lock_Table\<close>: the lock counters shared by directory entries and cache lines, and the locale \<open>rw_lock\<close>, the
    contract of a readers-writer lock, which \<open>Directory\<close> and \<open>Cache_Invariant\<close> interpret.
  \<^item> \<open>Directory\<close>: \<open>src/directory.cc\<close>, one definition per method. The invariant \<open>dir_wf\<close> of the entries, kept by
    every operation called under its condition; exclusion of writers; the reader count that overflows into
    the mark of a writer.
  \<^item> \<open>Work_Request\<close>: \<open>src/workrequest.cc\<close>, \<open>include/chars.h\<close> and \<open>src/gfunc.cc\<close>: requests, \<open>Ser\<close> and \<open>Deser\<close>, and that they are
    inverse on the fields an operation carries.
  \<^item> \<open>Linked_List\<close>, \<open>Cache_Line\<close>, \<open>Cache_Invariant\<close>: \<open>include/cache.h\<close> and the part of \<open>src/cache.cc\<close> that works on
    lines alone: states, locks, LRU lists; the invariant of all of them.
  \<^item> \<open>Slabs\<close>, \<open>Slabs_Correct\<close>: \<open>src/slabs.cc\<close>: live chunks are disjoint and inside the arena, aligned requests are aligned, a
    released chunk is handed out again; and two calls that do not do what they should.
  \<^item> \<open>Worker_State\<close>: the record of a worker (\<open>include/worker.h\<close>) and the services of \<open>src/worker.cc\<close>, \<open>src/server.cc\<close> and
    \<open>src/client.cc\<close> that all handlers use.
  \<^item> \<open>Cache_Ops\<close> (the rest of \<open>src/cache.cc\<close>), \<open>Local_Request\<close> (\<open>src/local_request.cc\<close>, \<open>src/local_request_cache.cc\<close>),
    \<open>Pending_Request\<close> (\<open>src/pending_request.cc\<close>), \<open>Mem_Stats\<close> (\<open>Split\<close> of \<open>include/util.h\<close>), \<open>Remote_Request\<close>
    (\<open>src/remote_request.cc\<close>, \<open>src/remote_request_cache.cc\<close>): the handlers, one definition per function of the source, split at its
    branches where it is long.
  \<^item> \<open>Dispatch\<close>: how the handlers call one another, and the events of a worker.
  \<^item> \<open>Worker_Facts\<close>, \<open>Write_Protocol\<close>, \<open>Local_Access\<close>, \<open>Coherence\<close>: lemmas on the handlers. A home node never loses a
    request; a write is granted only to the sole holder of a block; every sharer is told to
    invalidate and the grant waits for the last acknowledgement; an answered invalidation leaves no copy; the two answers
    to a request for ownership commute; local reads and writes are a single copy and read back what was written.
  \<^item> \<open>Rdma_Context\<close>, \<open>Rdma_Ring\<close>, \<open>Rdma_Order\<close>: the sending side of a connection in \<open>src/rdma.cc\<close>; its invariant; nothing is
    lost, reordered or overwritten, and what waits is sent.
  \<^item> \<open>Delivery\<close>: merged messages are received as the single ones.
  \<^item> \<open>Rdma_Resource\<close>: the receive slots of a node in \<open>src/rdma.cc\<close>.
  \<^item> \<open>Connection\<close>, \<open>Join\<close>: the strings that connect two queue pairs, and how workers join a cluster (\<open>src/client.cc\<close>,
    \<open>src/server.cc\<close>, \<open>src/tcp.cc\<close>, \<open>PostAcceptWorker\<close>, \<open>PostConnectMaster\<close>).
  \<^item> \<open>Master\<close>, \<open>Master_Correct\<close>: \<open>src/master.cc\<close>: the key-value store and the memory statistics.
  \<^item> \<open>GAlloc\<close>: the calls of an application thread (\<open>src/gallocator.cc\<close>, \<open>src/worker_handle.cc\<close>). The locale \<open>lock_service\<close> is
    what a lock over a range of blocks needs of the service that locks one address; the worker at
    the home node provides it.

  \<^item> \<open>Home_Invariant\<close>: a home node stays well typed under the requests of other nodes.
  \<^item> \<open>Depth\<close>: every handler is monotone in the handlers it wakes, so the bound on their nesting influences no result.
  \<^item> \<open>Records\<close>: \<open>database/storage/ColumnInfo.h\<close>, \<open>RecordSchema.h\<close>, \<open>Record.h\<close>: columns of a record do not overlap.
  \<^item> \<open>Hash_Index\<close>: \<open>database/storage/HashIndex.h\<close>, \<open>HashIndexHelper.h\<close>: linked nodes in shared memory; insertions are found again.
  \<^item> \<open>Transactions\<close>: the transaction manager of \<open>database/txn/\<close>, built with \<open>LOCK\<close>, over the contract of the locks of
    \<open>GAlloc\<close>. A system of threads whose calls interleave is a step relation; committed transactions are
    serializable and every lock is released.

  \<^bold>\<open>State and operations.\<close> A worker is the record \<open>Worker\<close>. A pointer to a request is a number in its heap of
  requests \<open>wrs\<close>, a pointer to a client the worker id at its other end, a pointer to a directory entry or a
  cache line the block address under which it is stored. A handler is a function
  \<open>Worker \<Rightarrow> Worker option\<close>, for application requests with the status that is returned. \<open>None\<close> is an
  execution that does not come to its end: a null pointer is used, an exception is not caught, the process exits,
  or a lock is never released. What leaves a node is appended to \<open>outbox\<close>. The source holds the lock
  of a block for the whole of a handler, so a handler is one step; an RDMA write that reads its source
  buffer later is recorded with the bytes the buffer has at the call. Machine integers have their width wherever they are
  part of an address, a message or an overflow; counters bounded by an invariant are \<open>int\<close> or \<open>nat\<close>.

  \<^bold>\<open>Build.\<close> The model is of the shipped build: \<open>USE_SIMPLE_MAP\<close>, \<open>USE_LRU\<close>, \<open>GFUNC_SUPPORT\<close>, \<open>ASYNC_UNLOCK\<close>, \<open>MULTITHREAD\<close>,
  \<open>USE_BOOST_QUEUE\<close>, \<open>RDMA_POLL\<close>, \<open>USE_ATOMIC\<close> and \<open>MERGE_RDMA_REQUESTS\<close> are defined; \<open>NOCACHE\<close>, \<open>SELECTIVE_CACHING\<close>, \<open>DHT\<close> and the
  profiling options are not. \<open>epicAssert\<close> is compiled out: what it checks is a hypothesis or a theorem and never part of an
  operation.

  \<^bold>\<open>Bounds.\<close> Handlers that wake other handlers nest; \<open>handlers n\<close> cuts the nesting at depth \<open>n\<close>, and beyond it is \<open>None\<close>;
  a result found within some depth is the result of every larger depth (\<open>Depth\<close>).
  The theorems on single handlers hold for arbitrary \<open>NT\<close> and \<open>TS\<close>, so for every depth; where a lock is
  released with nobody waiting, depth 1 is enough, and the theorem on range locks is stated for every depth of at
  least 1. The search for free receive slots takes fuel; the theorem states how much and
  that it then returns. The loop over a receive buffer takes its length as bound, as every message has at least
  one byte. A \<open>PUT\<close> at the master serves waiting requests, which are not \<open>PUT\<close>s, so nesting 2 is enough
  there. The loop of \<open>GAlloc::Lock\<close> is a \<open>partial_function\<close>; that it returns is part of the theorem,
  and so is the walk along a bucket of the index.
  The thresholds that the source computes with the doubles \<open>0.8\<close> and \<open>0.9\<close> are exact fractions.

  \<^bold>\<open>Parameters\<close> stand for what is outside the sources: the hash functions, the device (how many posted work requests it
  accepts, the numbers of queue pairs), \<open>mmap\<close>, the values of \<open>rand\<close> and \<open>zmalloc\<close>, which LRU lists another
  thread has locked, registered functions of the application, and what other threads do while a
  thread waits for its notification. Sockets deliver what was written.

  \<^bold>\<open>Not modelled.\<close> The event loop and the socket wrappers (\<open>src/ae*.cc\<close>, \<open>src/anet.cc\<close>) and the wrappers of libc, locks and logging
  are input and output only, and the latency histograms only measure. \<open>src/local_request_nocache.cc\<close>, \<open>src/remote_request_nocache.cc\<close> and \<open>dht/\<close> are not part of the shipped build.
  What libibverbs does with a posted request is not visible in the sources. \<open>lib/libcuckoo\<close> is a vendored
  library that the shipped build does not use. \<open>test/\<close>, the scripts and the benchmark drivers are programs that use the system.
  Of \<open>database/\<close>, the TPC-C procedures, populators and the executor are a benchmark that calls the transaction
  manager, and the layered array of bucket headers (\<open>GAddrArray.h\<close>) and the copying of tables to shared memory are left
  out. \<open>Transactions\<close> sees the index as a function from keys to addresses, as no record is indexed while transactions run. \<open>assert\<close> is compiled in there, and a failed one is \<open>None\<close>.
  Handlers that run in parallel on different blocks are not interleaved within a handler.
\<close>

end
